(* ===== verification/Aibrix_Prelude.thy ===== *)
theory Aibrix_Prelude
  imports Main "HOL-Library.List_Lexorder" "HOL-Library.Char_ord" "HOL-Library.Multiset"
begin

text \<open>
  Shared vocabulary of the development: Go's fixed-width signed integers as
  wrap-around functions on \<^typ>\<open>int\<close>, Go's truncating division, and the generic facts on
  lists, sums and sorting the component theories use.

  Go's \<^verbatim>\<open>string\<close> comparison is bytewise lexicographic, which is the order
  \<^verbatim>\<open>HOL-Library.List_Lexorder\<close> and \<^verbatim>\<open>HOL-Library.Char_ord\<close> give to \<^typ>\<open>string\<close>.
\<close>

named_theorems wrap_simps \<open>fixed-width arithmetic that stays in range\<close>

section \<open>Fixed-width integers\<close>

text \<open>\<open>i32\<close> and \<open>i64\<close> are the values an \<^verbatim>\<open>int32\<close> or \<^verbatim>\<open>int64\<close> (and \<^verbatim>\<open>int\<close> on the
  64-bit targets) holds after an operation whose exact result is the argument.\<close>

definition i32 :: "int \<Rightarrow> int" where
  "i32 x = (x + 2147483648) mod 4294967296 - 2147483648"

definition i64 :: "int \<Rightarrow> int" where
  "i64 x = (x + 9223372036854775808) mod 18446744073709551616 - 9223372036854775808"

definition go_div :: "int \<Rightarrow> int \<Rightarrow> int" where
  "go_div a b = (if (a < 0) = (b < 0) then \<bar>a\<bar> div \<bar>b\<bar> else - (\<bar>a\<bar> div \<bar>b\<bar>))"

abbreviation in_i32 :: "int \<Rightarrow> bool" where
  "in_i32 x \<equiv> - 2147483648 \<le> x \<and> x < 2147483648"

abbreviation in_i64 :: "int \<Rightarrow> bool" where
  "in_i64 x \<equiv> - 9223372036854775808 \<le> x \<and> x < 9223372036854775808"

section \<open>Decimal numerals\<close>

text \<open>The value a run of decimal digits stands for, and the digits \<^verbatim>\<open>strconv\<close> prints for a number.\<close>

fun digitsValue :: "string \<Rightarrow> int \<Rightarrow> int option" where
  "digitsValue [] acc = Some acc"
| "digitsValue (c # cs) acc =
     (if CHR ''0'' \<le> c \<and> c \<le> CHR ''9''
      then digitsValue cs (acc * 10 + (int (of_char c) - 48)) else None)"

text \<open>\<^verbatim>\<open>strconv.ParseInt(s, 10, 64)\<close>: an optional sign, one digit at least, and a value that
  fits.\<close>

definition parseInt64 :: "string \<Rightarrow> int option" where
  "parseInt64 s =
     (let (neg, ds) = (case s of
                         [] \<Rightarrow> (False, [])
                       | c # cs \<Rightarrow> if c = CHR ''+'' then (False, cs)
                                   else if c = CHR ''-'' then (True, cs) else (False, s))
      in if ds = [] then None
         else case digitsValue ds 0 of
                None \<Rightarrow> None
              | Some n \<Rightarrow> (let v = (if neg then - n else n) in if in_i64 v then Some v else None))"

text \<open>\<^verbatim>\<open>strconv.ParseUint(s, 10, 64)\<close> takes no sign.\<close>

definition parseUint64 :: "string \<Rightarrow> int option" where
  "parseUint64 s =
     (if s = [] then None
      else case digitsValue s 0 of None \<Rightarrow> None | Some n \<Rightarrow> if n < 18446744073709551616 then Some n else None)"

fun digits :: "nat \<Rightarrow> string" where
  "digits n = (if n < 10 then [char_of (48 + n)] else digits (n div 10) @ [char_of (48 + n mod 10)])"

declare digits.simps [simp del]

lemma i32_id [wrap_simps]: "- 2147483648 \<le> x \<Longrightarrow> x < 2147483648 \<Longrightarrow> i32 x = x"
  by (simp add: i32_def)

lemma i64_id [wrap_simps]:
  "- 9223372036854775808 \<le> x \<Longrightarrow> x < 9223372036854775808 \<Longrightarrow> i64 x = x"
  by (simp add: i64_def)

lemma i32_range: "in_i32 (i32 x)"
  by (simp add: i32_def)

lemma i64_range: "in_i64 (i64 x)"
  by (simp add: i64_def)

lemma i32_0 [simp]: "i32 0 = 0" and i32_1 [simp]: "i32 1 = 1"
  by (simp_all add: i32_def)

lemma i64_0 [simp]: "i64 0 = 0" and i64_1 [simp]: "i64 1 = 1"
  by (simp_all add: i64_def)

lemma i32_i32 [simp]: "i32 (i32 x) = i32 x"
  by (rule i32_id) (simp_all add: i32_range)

lemma i64_i64 [simp]: "i64 (i64 x) = i64 x"
  by (rule i64_id) (simp_all add: i64_range)

lemma i64_le: "0 \<le> x \<Longrightarrow> i64 x \<le> x"
  using zmod_le_nonneg_dividend [of "x + 9223372036854775808" 18446744073709551616] by (simp add: i64_def)

lemma i64_add_left: "i64 (i64 a + b) = i64 (a + b)"
proof -
  have "i64 a + b + 9223372036854775808 = (a + 9223372036854775808) mod 18446744073709551616 + b"
    by (simp add: i64_def)
  then have "(i64 a + b + 9223372036854775808) mod 18446744073709551616
             = (a + 9223372036854775808 + b) mod 18446744073709551616"
    by (simp only: mod_add_left_eq)
  moreover have "a + 9223372036854775808 + b = a + b + 9223372036854775808" by simp
  ultimately show ?thesis unfolding i64_def [of "i64 a + b"] i64_def [of "a + b"] by simp
qed

lemma go_div_nonneg [simp]: "0 \<le> a \<Longrightarrow> 0 < b \<Longrightarrow> go_div a b = a div b"
  by (simp add: go_div_def)

section \<open>Printing and parsing\<close>

lemma digitsValue_append: "digitsValue (xs @ ys) acc = Option.bind (digitsValue xs acc) (digitsValue ys)"
  by (induction xs acc rule: digitsValue.induct) auto

lemma digit_char:
  assumes "d < 10"
  shows "CHR ''0'' \<le> (char_of (48 + d :: nat) :: char)" "(char_of (48 + d :: nat) :: char) \<le> CHR ''9''"
    "(of_char (char_of (48 + d :: nat) :: char) :: nat) = 48 + d"
proof -
  have "d = 0 \<or> d = 1 \<or> d = 2 \<or> d = 3 \<or> d = 4 \<or> d = 5 \<or> d = 6 \<or> d = 7 \<or> d = 8 \<or> d = 9" using assms by auto
  then show "CHR ''0'' \<le> (char_of (48 + d :: nat) :: char)" "(char_of (48 + d :: nat) :: char) \<le> CHR ''9''"
    by (auto simp: less_eq_char_def)
  show "(of_char (char_of (48 + d :: nat) :: char) :: nat) = 48 + d" using assms by simp
qed

lemma digitsValue_digits: "digitsValue (digits n) 0 = Some (int n)"
proof (induction n rule: digits.induct)
  case (1 n)
  have "digitsValue [char_of (48 + d)] acc = Some (acc * 10 + int d)" if "d < 10" for d :: nat and acc
    using digit_char [OF that] by simp
  then show ?case using 1 by (cases "n < 10") (simp_all add: digits.simps [of n] digitsValue_append zdiv_int zmod_int)
qed

lemma digits_not_Nil [simp]: "digits n \<noteq> []"
  by (subst digits.simps) simp

section \<open>Lists and sums\<close>

lemma sum_list_nonneg_int: "(\<And>x. x \<in> set xs \<Longrightarrow> 0 \<le> f x) \<Longrightarrow> (0::int) \<le> sum_list (map f xs)"
  by (induction xs) auto

lemma sum_list_bound_int:
  "(\<And>x. x \<in> set xs \<Longrightarrow> f x \<le> (b::int)) \<Longrightarrow> sum_list (map f xs) \<le> b * int (length xs)"
proof (induction xs)
  case (Cons a xs)
  then have "f a \<le> b" "sum_list (map f xs) \<le> b * int (length xs)" by auto
  then show ?case by (simp add: algebra_simps)
qed simp

lemma sum_list_map_mono_int:
  "(\<And>x. x \<in> set xs \<Longrightarrow> f x \<le> (g x :: int)) \<Longrightarrow> sum_list (map f xs) \<le> sum_list (map g xs)"
  by (induction xs) (auto intro: add_mono)

lemma sum_list_update_int:
  "i < length xs \<Longrightarrow> sum_list (xs[i := v]) = sum_list xs - xs ! i + (v::int)"
  by (induction xs arbitrary: i) (auto split: nat.splits)

lemma sum_list_sort_key [simp]: "sum_list (map f (sort_key k xs)) = (sum_list (map f xs) :: int)"
proof -
  have "sum_mset (mset (map f (sort_key k xs))) = sum_mset (mset (map f xs))" by simp
  then show ?thesis by (simp only: sum_mset_sum_list)
qed

lemma distinct_map_sort_key [simp]: "distinct (map f (sort_key k xs)) = distinct (map f xs)"
  by (rule mset_eq_imp_distinct_iff) simp

lemma sort_key_perm_eq:
  assumes m: "mset xs = mset ys" and d: "distinct (map k xs)"
  shows "sort_key k xs = sort_key k ys"
proof -
  have x: "sort (map k ys) = map k (sort_key k xs)"
    by (rule properties_for_sort) (simp_all add: m)
  have y: "sort (map k ys) = map k (sort_key k ys)"
    by (rule properties_for_sort) simp_all
  have i: "inj_on k (set (sort_key k xs) \<union> set (sort_key k ys))"
    using d mset_eq_setD [OF m] by (simp add: distinct_map)
  show ?thesis by (rule map_inj_on [OF trans [OF x [symmetric] y] i])
qed

lemma zip_map_snd_nth: "length xs = length ys \<Longrightarrow> (x, y) \<in> set (zip xs ys) \<Longrightarrow> \<exists>i < length xs. x = xs ! i \<and> y = ys ! i"
  by (auto simp: set_zip)

lemma insort_key_after:
  "(\<And>y. y \<in> set ys \<Longrightarrow> k y < k x) \<Longrightarrow> insort_key k x (ys @ zs) = ys @ insort_key k x zs"
proof (induction ys)
  case (Cons a ys)
  then have "\<not> k x \<le> k a" by (simp add: not_le)
  then show ?case using Cons by simp
qed simp

lemma insort_key_front: "(\<And>y. y \<in> set ys \<Longrightarrow> k x \<le> k y) \<Longrightarrow> insort_key k x ys = x # ys"
  by (cases ys) auto

text \<open>A stable sort on a two-valued key is a partition.\<close>

lemma sort_key_bool:
  "sort_key (\<lambda>x. \<not> P x) xs = filter P xs @ filter (\<lambda>x. \<not> P x) xs"
proof (induction xs)
  case (Cons x xs)
  show ?case
  proof (cases "P x")
    case True
    then show ?thesis using Cons by (simp add: insort_key_front)
  next
    case False
    then have "insort_key (\<lambda>x. \<not> P x) x (filter P xs @ filter (\<lambda>x. \<not> P x) xs)
               = filter P xs @ insort_key (\<lambda>x. \<not> P x) x (filter (\<lambda>x. \<not> P x) xs)"
      by (intro insort_key_after) auto
    moreover have "insort_key (\<lambda>x. \<not> P x) x (filter (\<lambda>x. \<not> P x) xs) = x # filter (\<lambda>x. \<not> P x) xs"
      by (rule insort_key_front) auto
    ultimately show ?thesis using False Cons by simp
  qed
qed simp

section \<open>Doubling waits\<close>

text \<open>Ten seconds shifted left by a count that is capped at sixteen, and capped at a minute: the
  arithmetic of the waits that double with every failure in a row.\<close>

lemma doubling_capped:
  assumes k: "0 \<le> (k::int)"
  shows "(let w = i64 (10000000000 * 2 ^ nat (min k 16))
          in if w > 60000000000 \<or> w \<le> 0 then 60000000000 else w) = min (10000000000 * 2 ^ nat k) 60000000000"
proof (cases "k \<le> 2")
  case True
  then have "k = 0 \<or> k = 1 \<or> k = 2" using k by auto
  then show ?thesis by (auto simp: Let_def i64_def)
next
  case False
  define m where "m = nat (min k 16)"
  have m: "3 \<le> m" "m \<le> 16" "nat k \<ge> m" using False by (auto simp: m_def)
  have "(2::int) ^ 3 \<le> 2 ^ m" "(2::int) ^ m \<le> 2 ^ 16" "(2::int) ^ 3 \<le> 2 ^ nat k"
    using m by (auto intro!: power_increasing simp del: power_numeral)
  then have p: "8 \<le> (2::int) ^ m" "(2::int) ^ m \<le> 65536" "8 \<le> (2::int) ^ nat k" by simp_all
  then have "i64 (10000000000 * 2 ^ m) = 10000000000 * 2 ^ m" by (intro i64_id) simp_all
  then show ?thesis using p by (simp add: Let_def m_def [symmetric])
qed

end
