(* ===== verification/Snapshots.thy ===== *)
theory Snapshots
  imports Aibrix_Prelude
begin

text \<open>
  What the model-claim controller knows of a pod's runtime.

  The wire types of \<^verbatim>\<open>src/pkg/controller/modelclaim/runtime_client.go\<close>, the figures read off a
  snapshot (\<^verbatim>\<open>snapshot.go\<close>, \<^verbatim>\<open>parallelism.go\<close>), the readings of one pass
  (\<open>runtimeReadings\<close>) and the memory of runtimes that do not answer (\<open>runtimeSilence\<close>).

  The runtime sidecar is not part of the repository: \<open>client\<close> stands for its answers, as a
  function of the pod and of how often that pod was asked before. Times are nanoseconds since
  Go's zero time.
\<close>

section \<open>Wire types\<close>

record runtimeAcceleratorSnapshot =
  accID :: string
  accHBMTotalBytes :: int
  accHBMFreeBytes :: int
  accHBMUsableBytes :: int

record modelClaimRef =
  refName :: string
  refNamespace :: string
  refUID :: string

record runtimeSnapshotModel =
  mdlModelName :: string
  mdlArtifactURL :: string
  mdlClaimRef :: "modelClaimRef option"
  mdlPort :: int
  mdlIPCName :: string
  mdlPhase :: string
  mdlAlive :: bool
  mdlReady :: bool
  mdlRestartCount :: int
  mdlLastError :: string
  mdlLastTransition :: "int option"
  mdlKVUsedBytes :: int
  mdlKVCapacityBytes :: int
  mdlHBMPeakBytes :: int
  mdlKVInitialCapacityBytes :: "int option"
  mdlSleepingFootprintBytes :: "int option"
  mdlRequestMetricsObserved :: bool
  mdlRequestsRunning :: int
  mdlRequestsWaiting :: int
  mdlRequestSuccessTotal :: "int option"

record runtimeSnapshot =
  snapObservedAt :: int
  snapAccelerators :: "runtimeAcceleratorSnapshot list"
  snapModels :: "runtimeSnapshotModel list"
  snapCachedArtifacts :: "string list"

section \<open>Figures read off a snapshot\<close>

definition snapshot_models :: "runtimeSnapshot option \<Rightarrow> runtimeSnapshotModel list" where
  "snapshot_models s = (case s of None \<Rightarrow> [] | Some s' \<Rightarrow> snapModels s')"

fun smallestUsable :: "bool \<Rightarrow> int \<Rightarrow> runtimeAcceleratorSnapshot list \<Rightarrow> int \<times> bool" where
  "smallestUsable first smallest [] = (smallest, True)"
| "smallestUsable first smallest (a # as) =
     (if accHBMUsableBytes a \<le> 0 then (0, False)
      else smallestUsable False
             (if first \<or> accHBMUsableBytes a < smallest then accHBMUsableBytes a else smallest) as)"

definition snapshot_hbmUsableBytes :: "runtimeSnapshot option \<Rightarrow> int \<times> bool" where
  "snapshot_hbmUsableBytes s =
     (case s of
        None \<Rightarrow> (0, False)
      | Some s' \<Rightarrow> if snapAccelerators s' = [] then (0, False)
                   else smallestUsable True 0 (snapAccelerators s'))"

definition reportedAccelerators :: "runtimeSnapshot option \<Rightarrow> int" where
  "reportedAccelerators s =
     (case s of
        None \<Rightarrow> 0
      | Some s' \<Rightarrow>
          (let cards = int (length (filter (\<lambda>a. accHBMTotalBytes a > 0) (snapAccelerators s')))
           in if cards > 0 then cards
              else if list_ex (\<lambda>m. mdlKVCapacityBytes m > 0) (snapModels s') then 1 else 0))"

definition snapshotActivityKey :: "runtimeSnapshotModel \<Rightarrow> string" where
  "snapshotActivityKey m = (if mdlIPCName m \<noteq> [] then mdlIPCName m else mdlModelName m)"

definition sleepingFootprintOf :: "runtimeSnapshotModel option \<Rightarrow> int \<times> bool" where
  "sleepingFootprintOf m =
     (case m of
        None \<Rightarrow> (0, False)
      | Some m' \<Rightarrow>
          (case mdlSleepingFootprintBytes m' of
             None \<Rightarrow> (0, False)
           | Some f \<Rightarrow> if f \<le> 0 then (0, False) else (f, True)))"

record podPlacementState =
  SnapshotKnown :: bool
  ArtifactCached :: bool
  MemoryKnown :: bool
  HBMFreeBytes :: int
  psKVUsedBytes :: int
  ModelCount :: int
  AwakeCount :: int
  HBMUsableBytes :: int
  HBMUsableKnown :: bool
  MaximumRoomBytes :: int
  MaximumRoomKnown :: bool

definition emptyPlacementState :: podPlacementState where
  "emptyPlacementState =
     \<lparr>SnapshotKnown = False, ArtifactCached = False, MemoryKnown = False, HBMFreeBytes = 0,
      psKVUsedBytes = 0, ModelCount = 0, AwakeCount = 0, HBMUsableBytes = 0,
      HBMUsableKnown = False, MaximumRoomBytes = 0, MaximumRoomKnown = False\<rparr>"

fun placementFreeLoop ::
  "int \<Rightarrow> runtimeAcceleratorSnapshot list \<Rightarrow> podPlacementState \<Rightarrow> podPlacementState" where
  "placementFreeLoop par [] st = st"
| "placementFreeLoop par (a # as) st =
     placementFreeLoop par as
       (if \<not> MemoryKnown st \<or> (par = 1 \<and> accHBMFreeBytes a > HBMFreeBytes st)
           \<or> (par > 1 \<and> accHBMFreeBytes a < HBMFreeBytes st)
        then st\<lparr>HBMFreeBytes := accHBMFreeBytes a, MemoryKnown := True\<rparr> else st)"

fun placementModelLoop ::
  "runtimeSnapshotModel list \<Rightarrow> podPlacementState \<Rightarrow> podPlacementState" where
  "placementModelLoop [] st = st"
| "placementModelLoop (m # ms) st =
     (let st1 = (if mdlPhase m \<noteq> ''sleeping'' \<and> mdlPhase m \<noteq> ''failed'' \<and> mdlPhase m \<noteq> ''stopping''
                 then st\<lparr>AwakeCount := i64 (AwakeCount st + 1)\<rparr> else st)
      in placementModelLoop ms
           (if mdlKVUsedBytes m < 0 then st1
            else st1\<lparr>psKVUsedBytes := i64 (psKVUsedBytes st1 + mdlKVUsedBytes m)\<rparr>))"

definition placementStateFromSnapshot ::
  "runtimeSnapshot \<Rightarrow> string \<Rightarrow> int \<Rightarrow> podPlacementState" where
  "placementStateFromSnapshot s artifactURL parallelism =
     (let st0 = emptyPlacementState\<lparr>SnapshotKnown := True, ModelCount := int (length (snapModels s)),
                  ArtifactCached := list_ex (\<lambda>c. c = artifactURL) (snapCachedArtifacts s)\<rparr>;
          par = (if parallelism < 1 then 1 else parallelism)
      in if par > 1 \<and> int (length (snapAccelerators s)) \<noteq> par then st0
         else
           (let st1 = placementFreeLoop par (snapAccelerators s) st0;
                (u, known) = snapshot_hbmUsableBytes (Some s)
            in placementModelLoop (snapModels s) (st1\<lparr>HBMUsableBytes := u, HBMUsableKnown := known\<rparr>)))"

text \<open>The length of a round of the controller, in nanoseconds.\<close>

definition DefaultRequeueDuration :: int where
  "DefaultRequeueDuration = 10000000000"

section \<open>The readings of one pass\<close>

record podRef =
  refPodName :: string
  refPodIP :: string

record runtimeReading =
  rdSnapshot :: "runtimeSnapshot option"
  rdErr :: "string option"
  rdChanges :: int

text \<open>\<open>askedLog\<close> is not a field of the code: it is the log of the calls made to runtimes, by pod,
  which the answers of the client and the claims on the number of calls refer to.\<close>

record runtimeReadings =
  byPod :: "string \<rightharpoonup> runtimeReading"
  rrChanges :: int
  askedLog :: "string list"

type_synonym runtimeClient = "string \<Rightarrow> nat \<Rightarrow> runtimeSnapshot option \<times> string option"

definition newRuntimeReadings :: runtimeReadings where
  "newRuntimeReadings = \<lparr>byPod = Map.empty, rrChanges = 0, askedLog = []\<rparr>"

definition askRuntime ::
  "runtimeClient \<Rightarrow> podRef \<Rightarrow> runtimeReadings \<Rightarrow> (runtimeSnapshot option \<times> string option) \<times> runtimeReadings" where
  "askRuntime client pod rr =
     (client (refPodIP pod) (length (filter (\<lambda>n. n = refPodName pod) (askedLog rr))),
      rr\<lparr>askedLog := askedLog rr @ [refPodName pod]\<rparr>)"

definition readings_of ::
  "runtimeClient \<Rightarrow> podRef \<Rightarrow> runtimeReadings \<Rightarrow> (runtimeSnapshot option \<times> string option) \<times> runtimeReadings" where
  "readings_of client pod rr =
     (case byPod rr (refPodName pod) of
        Some r \<Rightarrow> ((rdSnapshot r, rdErr r), rr)
      | None \<Rightarrow>
          (let (a, rr') = askRuntime client pod rr
           in (a, rr'\<lparr>byPod := (byPod rr')(refPodName pod \<mapsto>
                        \<lparr>rdSnapshot = fst a, rdErr = snd a, rdChanges = rrChanges rr\<rparr>)\<rparr>)))"

definition readings_fresh ::
  "runtimeClient \<Rightarrow> podRef \<Rightarrow> runtimeReadings \<Rightarrow> (runtimeSnapshot option \<times> string option) \<times> runtimeReadings" where
  "readings_fresh client pod rr =
     (let rr1 = (case byPod rr (refPodName pod) of
                   Some r \<Rightarrow> if rdErr r = None \<and> rdChanges r < rrChanges rr
                             then rr\<lparr>byPod := (byPod rr)(refPodName pod := None)\<rparr> else rr
                 | None \<Rightarrow> rr)
      in readings_of client pod rr1)"

fun unreadPodsOf :: "(string \<rightharpoonup> runtimeReading) \<Rightarrow> string set \<Rightarrow> podRef list \<Rightarrow> podRef list" where
  "unreadPodsOf m seen [] = []"
| "unreadPodsOf m seen (p # ps) =
     (if m (refPodName p) \<noteq> None \<or> refPodName p \<in> seen then unreadPodsOf m seen ps
      else p # unreadPodsOf m (insert (refPodName p) seen) ps)"

text \<open>The goroutines of \<open>readUnread\<close> each ask one pod and write their own slot, and no pod is
  asked twice, so the order they run in shows only in the log.\<close>

fun askAll :: "runtimeClient \<Rightarrow> podRef list \<Rightarrow> runtimeReadings \<Rightarrow> runtimeReading list \<times> runtimeReadings" where
  "askAll client [] rr = ([], rr)"
| "askAll client (p # ps) rr =
     (let (a, rr1) = askRuntime client p rr;
          (rs, rr2) = askAll client ps rr1
      in (\<lparr>rdSnapshot = fst a, rdErr = snd a, rdChanges = rrChanges rr\<rparr> # rs, rr2))"

definition readUnread :: "runtimeClient \<Rightarrow> podRef list \<Rightarrow> runtimeReadings \<Rightarrow> runtimeReadings" where
  "readUnread client pods rr =
     (let unread = unreadPodsOf (byPod rr) {} pods
      in if length unread < 2 then rr
         else
           (let (rs, rr') = askAll client unread rr
            in rr'\<lparr>byPod := byPod rr' ++ map_of (zip (map refPodName unread) rs)\<rparr>))"

fun collectSnapshots ::
  "runtimeClient \<Rightarrow> podRef list \<Rightarrow> (string \<rightharpoonup> runtimeSnapshot) \<Rightarrow> runtimeReadings \<Rightarrow>
     (string \<rightharpoonup> runtimeSnapshot) \<times> runtimeReadings" where
  "collectSnapshots client [] m rr = (m, rr)"
| "collectSnapshots client (p # ps) m rr =
     (let ((s, err), rr') = readings_of client p rr
      in case (s, err) of
           (Some s', None) \<Rightarrow> collectSnapshots client ps (m(refPodName p \<mapsto> s')) rr'
         | _ \<Rightarrow> collectSnapshots client ps m rr')"

definition readings_ofPods ::
  "runtimeClient \<Rightarrow> podRef list \<Rightarrow> runtimeReadings \<Rightarrow> (string \<rightharpoonup> runtimeSnapshot) \<times> runtimeReadings" where
  "readings_ofPods client pods rr = collectSnapshots client pods Map.empty (readUnread client pods rr)"

definition readings_replace :: "podRef \<Rightarrow> runtimeSnapshot option \<Rightarrow> runtimeReadings \<Rightarrow> runtimeReadings" where
  "readings_replace pod s rr =
     (let c = i64 (rrChanges rr + 1)
      in rr\<lparr>rrChanges := c,
            byPod := (byPod rr)(refPodName pod \<mapsto> \<lparr>rdSnapshot = s, rdErr = None, rdChanges = c\<rparr>)\<rparr>)"

definition readings_forget :: "string \<Rightarrow> runtimeReadings \<Rightarrow> runtimeReadings" where
  "readings_forget podName rr =
     rr\<lparr>rrChanges := i64 (rrChanges rr + 1), byPod := (byPod rr)(podName := None)\<rparr>"

text \<open>One pass: the steps that read a runtime or change one, in any order. The number counts the
  changes.\<close>

inductive readings_run :: "runtimeClient \<Rightarrow> nat \<Rightarrow> runtimeReadings \<Rightarrow> bool" for client where
  start: "readings_run client 0 newRuntimeReadings"
| read: "readings_run client n rr \<Longrightarrow> readings_run client n (snd (readings_of client pod rr))"
| refresh: "readings_run client n rr \<Longrightarrow> readings_run client n (snd (readings_fresh client pod rr))"
| read_all: "readings_run client n rr \<Longrightarrow> readings_run client n (snd (readings_ofPods client pods rr))"
| replaced: "readings_run client n rr \<Longrightarrow> readings_run client (Suc n) (readings_replace pod s rr)"
| forgotten: "readings_run client n rr \<Longrightarrow> readings_run client (Suc n) (readings_forget name rr)"

definition askedCount :: "string \<Rightarrow> runtimeReadings \<Rightarrow> nat" where
  "askedCount name rr = length (filter (\<lambda>n. n = name) (askedLog rr))"

fun podReadingOk :: "nat \<Rightarrow> nat \<Rightarrow> runtimeReading option \<Rightarrow> bool" where
  "podReadingOk n k None = (k \<le> n)"
| "podReadingOk n k (Some r) = (0 \<le> rdChanges r \<and> rdChanges r \<le> int n \<and> int k \<le> rdChanges r + 1)"

definition readings_inv :: "nat \<Rightarrow> runtimeReadings \<Rightarrow> bool" where
  "readings_inv n rr \<longleftrightarrow>
     rrChanges rr = int n \<and> (\<forall>name. podReadingOk n (askedCount name rr) (byPod rr name))"

text \<open>A runtime that answers with an empty card and one that does not answer, for the concrete
  instances below.\<close>

definition exClient :: runtimeClient where
  "exClient ip k =
     (if ip = ''10.0.0.1''
      then (Some \<lparr>snapObservedAt = int k, snapAccelerators = [], snapModels = [],
                  snapCachedArtifacts = []\<rparr>, None)
      else (None, Some ''timeout''))"

definition exPod :: podRef where
  "exPod = \<lparr>refPodName = ''p'', refPodIP = ''10.0.0.1''\<rparr>"

definition exReadings :: runtimeReadings where
  "exReadings = readings_forget ''q'' (snd (readings_of exClient exPod newRuntimeReadings))"

section \<open>A runtime is asked once, and again only after a change\<close>

lemma askedCount_upd [simp]:
  "askedCount name (rr\<lparr>byPod := m\<rparr>) = askedCount name rr"
  "askedCount name (rr\<lparr>rrChanges := c\<rparr>) = askedCount name rr"
  "askedCount name (rr\<lparr>askedLog := askedLog rr @ xs\<rparr>) = askedCount name rr + length (filter (\<lambda>n. n = name) xs)"
  by (simp_all add: askedCount_def)

lemma podReadingOk_bound: "podReadingOk n k m \<Longrightarrow> k \<le> n + 1"
  by (cases m) auto

lemma podReadingOk_Suc: "podReadingOk n k m \<Longrightarrow> podReadingOk (Suc n) k m"
  by (cases m) auto

lemma readings_inv_pod: "readings_inv n rr \<Longrightarrow> podReadingOk n (askedCount name rr) (byPod rr name)"
  by (simp add: readings_inv_def)

lemma readings_of_inv:
  assumes "readings_inv n rr"
  shows "readings_inv n (snd (readings_of client pod rr))"
proof (cases "byPod rr (refPodName pod)")
  case None
  then show ?thesis
    using assms readings_inv_pod [OF assms, of "refPodName pod"]
    by (simp add: readings_of_def askRuntime_def readings_inv_def)
qed (simp add: readings_of_def assms)

lemma readings_fresh_inv:
  assumes "readings_inv n rr"
  shows "readings_inv n (snd (readings_fresh client pod rr))"
proof -
  have "readings_inv n (rr\<lparr>byPod := (byPod rr)(refPodName pod := None)\<rparr>)"
    if "byPod rr (refPodName pod) = Some r" "rdChanges r < rrChanges rr" for r
    using assms that readings_inv_pod [OF assms, of "refPodName pod"]
    by (simp add: readings_inv_def)
  then show ?thesis
    using assms unfolding readings_fresh_def Let_def
    by (intro readings_of_inv) (auto split: option.splits)
qed

lemma askAll_log:
  "askAll client ps rr = (rs, rr') \<Longrightarrow>
     askedLog rr' = askedLog rr @ map refPodName ps \<and> byPod rr' = byPod rr \<and> rrChanges rr' = rrChanges rr \<and>
     length rs = length ps \<and> (\<forall>r \<in> set rs. rdChanges r = rrChanges rr)"
proof (induction ps arbitrary: rr rs rr')
  case (Cons p ps)
  obtain a rr1 where a: "askRuntime client p rr = (a, rr1)" by fastforce
  obtain rs2 rr2 where r: "askAll client ps rr1 = (rs2, rr2)" by fastforce
  then show ?case using Cons.IH [OF r] Cons.prems a by (auto simp: askRuntime_def)
qed simp

lemma unreadPodsOf_fresh:
  "p \<in> set (unreadPodsOf m seen ps) \<Longrightarrow> m (refPodName p) = None \<and> refPodName p \<notin> seen"
proof (induction ps arbitrary: seen)
  case (Cons q ps)
  then show ?case by (cases "m (refPodName q) \<noteq> None \<or> refPodName q \<in> seen") fastforce+
qed simp

lemma unreadPodsOf_distinct: "distinct (map refPodName (unreadPodsOf m seen ps))"
proof (induction ps arbitrary: seen)
  case (Cons q ps)
  then show ?case using unreadPodsOf_fresh [of _ m "insert (refPodName q) seen" ps] by fastforce
qed simp

lemma count_distinct: "distinct xs \<Longrightarrow> length (filter (\<lambda>y. y = x) xs) = (if x \<in> set xs then 1 else 0)"
  by (induction xs) auto

lemma readUnread_inv:
  assumes inv: "readings_inv n rr"
  shows "readings_inv n (readUnread client pods rr)"
proof (cases "length (unreadPodsOf (byPod rr) {} pods) < 2")
  case False
  define un where "un = unreadPodsOf (byPod rr) {} pods"
  obtain rs rr' where al: "askAll client un rr = (rs, rr')" by fastforce
  note log = askAll_log [OF al]
  let ?m = "byPod rr ++ map_of (zip (map refPodName un) rs)"
  have res: "readUnread client pods rr = rr'\<lparr>byPod := ?m\<rparr>"
    using False al log by (simp add: readUnread_def un_def Let_def)
  have d: "distinct (map refPodName un)" and new: "\<And>p. p \<in> set un \<Longrightarrow> byPod rr (refPodName p) = None"
    using unreadPodsOf_distinct unreadPodsOf_fresh [of _ "byPod rr" "{}" pods] by (simp_all add: un_def)
  have cnt: "askedCount name rr'
      = askedCount name rr + (if name \<in> refPodName ` set un then 1 else 0)" for name
    using count_distinct [OF d] log by (simp add: askedCount_def)
  have "podReadingOk n (askedCount name rr') (?m name)" for name
  proof (cases "name \<in> refPodName ` set un")
    case True
    then obtain r where r: "map_of (zip (map refPodName un) rs) name = Some r"
      using log by (metis (no_types) length_map list.set_map map_of_zip_is_Some)
    then have "r \<in> set rs" by (meson in_set_zipE map_of_SomeD)
    moreover have "askedCount name rr \<le> n" using True new readings_inv_pod [OF inv, of name] by auto
    ultimately show ?thesis using r cnt True log inv by (simp add: readings_inv_def)
  next
    case False
    then have "map_of (zip (map refPodName un) rs) name = None"
      using log by (simp add: map_of_zip_is_None)
    then show ?thesis using cnt False readings_inv_pod [OF inv, of name] by (simp add: map_add_def)
  qed
  then show ?thesis using res log inv by (simp add: readings_inv_def)
qed (simp add: readUnread_def inv)

lemma collectSnapshots_inv:
  "readings_inv n rr \<Longrightarrow> readings_inv n (snd (collectSnapshots client pods m rr))"
proof (induction pods arbitrary: m rr)
  case (Cons p ps)
  obtain s err rr' where r: "readings_of client p rr = ((s, err), rr')" by (metis surj_pair)
  then have "readings_inv n rr'" using readings_of_inv [OF Cons(2), of client p] by simp
  then show ?case using Cons.IH r by (simp split: option.splits)
qed simp

lemma readings_change_inv:
  assumes inv: "readings_inv n rr" and n: "Suc n < 9223372036854775807"
  shows "readings_inv (Suc n) (readings_replace pod s rr)" "readings_inv (Suc n) (readings_forget name rr)"
proof -
  have c: "i64 (int n + 1) = int n + 1" using n by (intro i64_id) simp_all
  have "podReadingOk (Suc n) (askedCount x rr) (byPod rr x)" for x
    using inv by (simp add: readings_inv_pod podReadingOk_Suc)
  moreover have "askedCount x rr \<le> Suc n" "int (askedCount x rr) \<le> 2 + int n" for x
    using podReadingOk_bound [OF readings_inv_pod [OF inv, of x]] by simp_all
  ultimately show "readings_inv (Suc n) (readings_replace pod s rr)"
    "readings_inv (Suc n) (readings_forget name rr)"
    using inv c by (auto simp: readings_replace_def readings_forget_def readings_inv_def Let_def)
qed

lemma readings_run_inv: "readings_run client n rr \<Longrightarrow> n < 9223372036854775807 \<Longrightarrow> readings_inv n rr"
proof (induction rule: readings_run.induct)
  case start
  then show ?case by (simp add: readings_inv_def newRuntimeReadings_def askedCount_def)
next
  case (read_all n rr pods)
  then show ?case unfolding readings_ofPods_def by (intro collectSnapshots_inv readUnread_inv)
qed (simp_all add: readings_of_inv readings_fresh_inv readings_change_inv)

lemma smallestUsable_eq:
  "smallestUsable first m as =
     (if \<exists>a \<in> set as. accHBMUsableBytes a \<le> 0 then (0, False)
      else (if first \<and> as \<noteq> [] then Min (accHBMUsableBytes ` set as)
            else if as = [] then m else min m (Min (accHBMUsableBytes ` set as)), True))"
proof (induction as arbitrary: first m)
  case (Cons a as)
  then show ?case by (cases "as = []") (auto simp: min_def)
qed simp

lemma exReadings_run: "readings_run exClient 1 exReadings"
  using readings_run.forgotten [OF readings_run.read [OF readings_run.start]]
  by (simp add: exReadings_def)

section \<open>Properties\<close>

text \<open>A pass asks a runtime once, and at most once more for each change the pass made: a
  runtime that does not answer is not asked again while nothing changed.\<close>

theorem runtime_asked_once_per_change:
  assumes "readings_run client n rr" and "n < 9223372036854775807"
  shows "askedCount name rr \<le> n + 1"
  using readings_run_inv [OF assms] by (blast intro: podReadingOk_bound readings_inv_pod)

theorem runtime_asked_once_per_change_witness:
  "askedCount ''p'' (snd (readings_fresh exClient exPod exReadings)) = 2 \<and>
   askedCount ''p'' (snd (readings_fresh exClient exPod exReadings)) \<le> 1 + 1"
proof -
  have "askedCount ''p'' (snd (readings_fresh exClient exPod exReadings)) = 2" by code_simp
  moreover have "askedCount ''p'' (snd (readings_fresh exClient exPod exReadings)) \<le> 1 + 1"
    by (rule runtime_asked_once_per_change [OF readings_run.refresh [OF exReadings_run]]) simp
  ultimately show ?thesis by blast
qed

text \<open>A fresh reading is no older than the last change of the pass: what \<open>fresh\<close> returns is
  the reading now kept for the pod, and it was taken after every change, unless the runtime
  failed to answer.\<close>

theorem fresh_reading_is_current:
  assumes "readings_run client n rr" and "n < 9223372036854775807"
    and "readings_fresh client pod rr = ((s, err), rr')"
  shows "rrChanges rr' = int n \<and>
         (\<exists>r. byPod rr' (refPodName pod) = Some r \<and> rdSnapshot r = s \<and> rdErr r = err \<and>
              (err = None \<longrightarrow> rdChanges r = int n))"
proof -
  have inv: "readings_inv n rr" using assms(1,2) by (rule readings_run_inv)
  then have c: "rrChanges rr = int n" by (simp add: readings_inv_def)
  show ?thesis
  proof (cases "byPod rr (refPodName pod)")
    case None
    then show ?thesis using assms(3) c
      by (auto simp: readings_fresh_def readings_of_def askRuntime_def)
  next
    case (Some r)
    then have "rdChanges r \<le> int n" using readings_inv_pod [OF inv, of "refPodName pod"] by simp
    then show ?thesis using assms(3) c Some
      by (auto simp: readings_fresh_def readings_of_def askRuntime_def split: if_splits)
  qed
qed

theorem fresh_reading_is_current_witness:
  "\<exists>s err rr'. readings_fresh exClient exPod exReadings = ((s, err), rr') \<and> err = None \<and>
     (\<exists>r. byPod rr' ''p'' = Some r \<and> rdChanges r = 1)"
proof -
  obtain s err rr' where r: "readings_fresh exClient exPod exReadings = ((s, err), rr')"
    by (metis surj_pair)
  moreover have "err = None"
    using r by (simp add: exReadings_def exPod_def exClient_def readings_fresh_def readings_of_def
      askRuntime_def readings_forget_def newRuntimeReadings_def split: if_splits)
  ultimately show ?thesis
    using fresh_reading_is_current [OF exReadings_run _ r] by (auto simp: exPod_def)
qed

text \<open>A pod is sized by its smallest card: a snapshot gives a usable size exactly when it
  reports cards and every one of them could be measured, and the size is then the least of
  them.\<close>

theorem pod_sized_by_smallest_card:
  "snapshot_hbmUsableBytes s = (u, True) \<longleftrightarrow>
     (\<exists>s'. s = Some s' \<and> snapAccelerators s' \<noteq> [] \<and>
           (\<forall>a \<in> set (snapAccelerators s'). 0 < accHBMUsableBytes a) \<and>
           u = Min (accHBMUsableBytes ` set (snapAccelerators s')))"
  by (cases s) (auto simp: snapshot_hbmUsableBytes_def smallestUsable_eq not_le split: if_splits dest: leD)

theorem pod_sized_by_smallest_card_witness:
  "snapshot_hbmUsableBytes (Some \<lparr>snapObservedAt = 0,
     snapAccelerators = [\<lparr>accID = ''0'', accHBMTotalBytes = 9, accHBMFreeBytes = 1, accHBMUsableBytes = 8\<rparr>,
                         \<lparr>accID = ''1'', accHBMTotalBytes = 9, accHBMFreeBytes = 1, accHBMUsableBytes = 7\<rparr>],
     snapModels = [], snapCachedArtifacts = []\<rparr>) = (7, True)"
  unfolding pod_sized_by_smallest_card by simp

end
