(* ===== verification/Claims.thy ===== *)
theory Claims
  imports Snapshots
begin

text \<open>
  Model claims and warm pods: the API types of
  \<^verbatim>\<open>src/api/model/v1alpha1/modelclaim_types.go\<close> as far as the controller reads them, the helpers of
  \<^verbatim>\<open>src/pkg/utils/modelclaim.go\<close> that read a claim's spec, and the small readers of
  \<^verbatim>\<open>placement.go\<close> and \<^verbatim>\<open>parallelism.go\<close>.

  A Kubernetes \<^verbatim>\<open>resource.Quantity\<close> is a type parameter with its operations in \<open>quantityOps\<close>;
  \<open>quantity_ok\<close> states what is documented of them. Strings are the ASCII strings the API server
  admits in names, flags and keys. A Go map with string keys that is only ranged over is an
  association list.
\<close>

section \<open>API types\<close>

record 'q quantityOps =
  qSign :: "'q \<Rightarrow> int"
  qCmp :: "'q \<Rightarrow> 'q \<Rightarrow> int"
  qValue :: "'q \<Rightarrow> int"
  qNewLike :: "int \<Rightarrow> 'q \<Rightarrow> 'q"
  qMustParse :: "string \<Rightarrow> 'q"

record 'q modelClaimPerGPU =
  specMaximumFootprint :: 'q
  specKVFloor :: 'q

record modelClaimInstance =
  instPod :: string
  instPort :: int
  instPhase :: string
  instKVLimitBytes :: int
  instReason :: string

record 'q modelClaim =
  clmName :: string
  clmNamespace :: string
  clmUID :: string
  clmGeneration :: int
  clmCreationTimestamp :: int
  clmDeletionTimestamp :: "int option"
  specModelName :: "string option"
  specArtifactURL :: string
  specEngine :: string
  specReplicas :: "int option"
  specPriority :: int
  specPerGPU :: "'q modelClaimPerGPU option"
  specEngineArgs :: "(string \<times> string) list option"
  statusPhase :: string
  statusInstances :: "modelClaimInstance list"

text \<open>A container's \<^verbatim>\<open>nvidia.com/gpu\<close> limit and request.\<close>

record 'q corePod =
  podName :: string
  podUID :: string
  podIP :: string
  podNodeName :: string
  podIsReady :: bool
  podAnnotations :: "string \<rightharpoonup> string"
  podContainers :: "('q option \<times> 'q option) list"

section \<open>Reading a claim\<close>

definition servedModelName :: "'q modelClaim \<Rightarrow> string" where
  "servedModelName pm =
     (case specModelName pm of Some n \<Rightarrow> if n \<noteq> [] then n else clmName pm | None \<Rightarrow> clmName pm)"

definition desiredReplicas :: "'q modelClaim \<Rightarrow> int" where
  "desiredReplicas pm = (case specReplicas pm of Some n \<Rightarrow> n | None \<Rightarrow> 1)"

definition inRange :: "char \<Rightarrow> char \<Rightarrow> char \<Rightarrow> bool" where
  "inRange lo hi c \<longleftrightarrow> lo \<le> c \<and> c \<le> hi"

definition ipcChar :: "char \<Rightarrow> bool" where
  "ipcChar c \<longleftrightarrow>
     inRange (CHR ''a'') (CHR ''z'') c \<or> inRange (CHR ''A'') (CHR ''Z'') c \<or>
     inRange (CHR ''0'') (CHR ''9'') c \<or> c \<in> set ''_-''"

definition sanitizeIPCName :: "string \<Rightarrow> string" where
  "sanitizeIPCName s = map (\<lambda>c. if ipcChar c then c else CHR ''-'') s"

definition ipcNameFor :: "'q modelClaim \<Rightarrow> string" where
  "ipcNameFor pm = ''kvc_'' @ sanitizeIPCName (clmName pm)"

datatype declared_error = NotPositive | MoreThanMaximum | NotWholeBytes

definition ModelClaimDeclaredBytes ::
  "'q quantityOps \<Rightarrow> string \<Rightarrow> 'q \<Rightarrow> (string \<times> declared_error) + int" where
  "ModelClaimDeclaredBytes q name declared =
     (if qSign q declared \<le> 0 then Inl (name, NotPositive)
      else if qCmp q declared (qMustParse q ''1Pi'') > 0 then Inl (name, MoreThanMaximum)
      else if qCmp q declared (qMustParse q ''1Mi'') < 0 \<and>
              qCmp q declared (qNewLike q (qValue q declared) declared) \<noteq> 0
      then Inl (name, NotWholeBytes)
      else Inr (qValue q declared))"

datatype per_gpu_error = PerGPUMissing | PerGPUWrong string declared_error

record perGPUBytes =
  maximumFootprintBytes :: int
  kvFloorBytes :: int

definition perGPUBytesOf :: "'q quantityOps \<Rightarrow> 'q modelClaim option \<Rightarrow> per_gpu_error + perGPUBytes" where
  "perGPUBytesOf q pm =
     (case Option.bind pm specPerGPU of
        None \<Rightarrow> Inl PerGPUMissing
      | Some p \<Rightarrow>
          (case ModelClaimDeclaredBytes q ''maximumFootprint'' (specMaximumFootprint p) of
             Inl (n, e) \<Rightarrow> Inl (PerGPUWrong n e)
           | Inr f \<Rightarrow>
               (case ModelClaimDeclaredBytes q ''kvFloor'' (specKVFloor p) of
                  Inl (n, e) \<Rightarrow> Inl (PerGPUWrong n e)
                | Inr k \<Rightarrow> Inr \<lparr>maximumFootprintBytes = f, kvFloorBytes = k\<rparr>)))"

section \<open>Engine flags\<close>

definition isSpace :: "char \<Rightarrow> bool" where
  "isSpace c \<longleftrightarrow> c = CHR '' '' \<or> (CHR 0x09 \<le> c \<and> c \<le> CHR 0x0D)"

definition TrimSpace :: "string \<Rightarrow> string" where
  "TrimSpace s = rev (dropWhile isSpace (rev (dropWhile isSpace s)))"

text \<open>\<^verbatim>\<open>strings.Cut(s, "=")\<close>.\<close>

definition CutEq :: "string \<Rightarrow> string \<times> string \<times> bool" where
  "CutEq s =
     (let before = takeWhile (\<lambda>c. c \<noteq> CHR ''='') s; rest = dropWhile (\<lambda>c. c \<noteq> CHR ''='') s
      in case rest of [] \<Rightarrow> (s, [], False) | _ # after \<Rightarrow> (before, after, True))"

definition modelClaimVLLMFlagAliases :: "string \<rightharpoonup> string" where
  "modelClaimVLLMFlagAliases =
     map_of [(''-tp'', ''--tensor-parallel-size''), (''-pp'', ''--pipeline-parallel-size''),
             (''-dp'', ''--data-parallel-size'')]"

definition ModelClaimEngineFlag :: "string \<Rightarrow> string \<times> string \<times> bool" where
  "ModelClaimEngineFlag key =
     (let (flag, value, hasValue) = CutEq (TrimSpace key)
      in case modelClaimVLLMFlagAliases flag of
           Some long \<Rightarrow> (long, value, hasValue)
         | None \<Rightarrow>
             if take 2 flag = ''--''
             then (''--'' @ map (\<lambda>c. if c = CHR ''_'' then CHR ''-'' else c) (drop 2 flag), value, hasValue)
             else (flag, value, hasValue))"

datatype flag_error =
    SetMoreThanOnce string "string list"
  | MemoryUtilizationSet
  | NotAPositiveInteger string
  | DataParallelUnsupported int
  | ProductOverflows

definition modelClaimEngineArg ::
  "(string \<times> string) list \<Rightarrow> string \<Rightarrow> flag_error + string option" where
  "modelClaimEngineArg args name =
     (case filter (\<lambda>(k, v). fst (ModelClaimEngineFlag k) = name) args of
        [] \<Rightarrow> Inr None
      | [(k, v)] \<Rightarrow>
          (let (flag, value, hasValue) = ModelClaimEngineFlag k
           in Inr (Some (if hasValue then value else v)))
      | kvs \<Rightarrow> Inl (SetMoreThanOnce name (sort (map fst kvs))))"

definition positiveEngineArg :: "(string \<times> string) list \<Rightarrow> string \<Rightarrow> flag_error + int" where
  "positiveEngineArg args name =
     (case modelClaimEngineArg args name of
        Inl e \<Rightarrow> Inl e
      | Inr None \<Rightarrow> Inr 1
      | Inr (Some raw) \<Rightarrow>
          (case parseInt64 (TrimSpace raw) of
             None \<Rightarrow> Inl (NotAPositiveInteger name)
           | Some v \<Rightarrow> if v < 1 then Inl (NotAPositiveInteger name) else Inr v))"

definition ModelClaimVLLMParallelism :: "(string \<times> string) list option \<Rightarrow> flag_error + int" where
  "ModelClaimVLLMParallelism config =
     (let args = (case config of Some a \<Rightarrow> a | None \<Rightarrow> [])
      in case modelClaimEngineArg args ''--gpu-memory-utilization'' of
           Inl e \<Rightarrow> Inl e
         | Inr (Some _) \<Rightarrow> Inl MemoryUtilizationSet
         | Inr None \<Rightarrow>
             (case positiveEngineArg args ''--tensor-parallel-size'' of
                Inl e \<Rightarrow> Inl e
              | Inr tensor \<Rightarrow>
                  (case positiveEngineArg args ''--pipeline-parallel-size'' of
                     Inl e \<Rightarrow> Inl e
                   | Inr pipeline \<Rightarrow>
                       (case positiveEngineArg args ''--data-parallel-size'' of
                          Inl e \<Rightarrow> Inl e
                        | Inr data \<Rightarrow>
                            if data \<noteq> 1 then Inl (DataParallelUnsupported data)
                            else if tensor > go_div 9223372036854775807 pipeline then Inl ProductOverflows
                            else Inr (i64 (tensor * pipeline))))))"

definition isVLLMModel :: "'q modelClaim \<Rightarrow> bool" where
  "isVLLMModel pm \<longleftrightarrow> specEngine pm = [] \<or> specEngine pm = ''vllm''"

definition modelParallelism :: "'q modelClaim \<Rightarrow> flag_error + int" where
  "modelParallelism pm =
     (if \<not> isVLLMModel pm then Inr 1 else ModelClaimVLLMParallelism (specEngineArgs pm))"

definition instanceGPUCount :: "'q modelClaim \<Rightarrow> int" where
  "instanceGPUCount pm =
     (if \<not> isVLLMModel pm then 0 else case modelParallelism pm of Inl _ \<Rightarrow> 0 | Inr n \<Rightarrow> n)"

section \<open>Reading a pod\<close>

fun ModelClaimPodGPUCount :: "'q quantityOps \<Rightarrow> ('q option \<times> 'q option) list \<Rightarrow> int \<Rightarrow> int" where
  "ModelClaimPodGPUCount q [] n = n"
| "ModelClaimPodGPUCount q ((limit, request) # cs) n =
     ModelClaimPodGPUCount q cs
       (case limit of
          Some l \<Rightarrow> i64 (n + qValue q l)
        | None \<Rightarrow> (case request of Some r \<Rightarrow> i64 (n + qValue q r) | None \<Rightarrow> n))"

definition podGPUCount :: "'q quantityOps \<Rightarrow> 'q corePod \<Rightarrow> int" where
  "podGPUCount q pod = ModelClaimPodGPUCount q (podContainers pod) 0"

definition podHasGPUs :: "'q quantityOps \<Rightarrow> 'q corePod \<Rightarrow> int \<Rightarrow> bool" where
  "podHasGPUs q pod reported \<longleftrightarrow> podGPUCount q pod > 0 \<or> reported > 0"

definition podSupportsVLLMParallelism :: "'q quantityOps \<Rightarrow> 'q corePod \<Rightarrow> int \<Rightarrow> bool" where
  "podSupportsVLLMParallelism q pod parallelism \<longleftrightarrow>
     podGPUCount q pod = 0 \<or> podGPUCount q pod = parallelism"

definition wakeAsked :: "'q corePod option \<Rightarrow> string \<Rightarrow> bool" where
  "wakeAsked pod name =
     (case pod of
        None \<Rightarrow> False
      | Some p \<Rightarrow> podAnnotations p (''wake.modelclaim.aibrix.ai/'' @ name) \<noteq> None)"

text \<open>The engine of a claim in a snapshot: by the UID of its claim reference, and otherwise the
  last engine without one that serves the claim's name.\<close>

fun snapshotModelLoop ::
  "string \<Rightarrow> string \<Rightarrow> runtimeSnapshotModel option \<Rightarrow> runtimeSnapshotModel list \<Rightarrow>
     runtimeSnapshotModel option" where
  "snapshotModelLoop uid served legacy [] = legacy"
| "snapshotModelLoop uid served legacy (m # ms) =
     (let ref = (case mdlClaimRef m of Some r \<Rightarrow> refUID r | None \<Rightarrow> [])
      in if uid \<noteq> [] \<and> ref \<noteq> []
         then (if ref = uid then Some m else snapshotModelLoop uid served legacy ms)
         else snapshotModelLoop uid served (if mdlModelName m = served then Some m else legacy) ms)"

definition snapshotModelForClaim ::
  "runtimeSnapshot option \<Rightarrow> 'q modelClaim \<Rightarrow> string \<Rightarrow> runtimeSnapshotModel option" where
  "snapshotModelForClaim s pm served =
     (case s of None \<Rightarrow> None | Some s' \<Rightarrow> snapshotModelLoop (clmUID pm) served None (snapModels s'))"

section \<open>What the readers promise\<close>

text \<open>The documented behaviour of quantities the account relies on: comparison agrees with the
  value in whole units, a positive quantity is worth at least one unit once rounded up, and
  \<^verbatim>\<open>1Pi\<close> is a pebibyte.\<close>

definition quantity_ok :: "'q quantityOps \<Rightarrow> bool" where
  "quantity_ok q \<longleftrightarrow>
     (\<forall>a b. qCmp q a b \<le> 0 \<longrightarrow> qValue q a \<le> qValue q b) \<and>
     (\<forall>a. 0 < qSign q a \<longrightarrow> 1 \<le> qValue q a) \<and>
     qValue q (qMustParse q ''1Pi'') = 1125899906842624"

text \<open>Whole numbers of bytes, for the concrete instances.\<close>

definition intQuantity :: "int quantityOps" where
  "intQuantity =
     \<lparr>qSign = sgn, qCmp = (\<lambda>a b. sgn (a - b)), qValue = id, qNewLike = (\<lambda>n _. n),
      qMustParse = (\<lambda>s. if s = ''1Pi'' then 1125899906842624 else if s = ''1Mi'' then 1048576 else 0)\<rparr>"

definition exClaim :: "string \<Rightarrow> int \<Rightarrow> int \<Rightarrow> modelClaimInstance list \<Rightarrow> int modelClaim" where
  "exClaim name footprint floor instances =
     \<lparr>clmName = name, clmNamespace = ''ns'', clmUID = name, clmGeneration = 1,
      clmCreationTimestamp = 0, clmDeletionTimestamp = None, specModelName = None,
      specArtifactURL = ''hf://m'', specEngine = [], specReplicas = None, specPriority = 0,
      specPerGPU = Some \<lparr>specMaximumFootprint = footprint, specKVFloor = floor\<rparr>,
      specEngineArgs = None, statusPhase = ''Active'', statusInstances = instances\<rparr>"

lemma intQuantity_ok: "quantity_ok intQuantity"
  by (auto simp: quantity_ok_def intQuantity_def sgn_if split: if_splits)

lemma declared_range:
  assumes "quantity_ok q" and "ModelClaimDeclaredBytes q name d = Inr n"
  shows "1 \<le> n \<and> n \<le> 1125899906842624"
proof -
  have "0 < qSign q d" "qCmp q d (qMustParse q ''1Pi'') \<le> 0" "n = qValue q d"
    using assms(2) by (auto simp: ModelClaimDeclaredBytes_def not_less split: if_splits)
  then show ?thesis using assms(1) unfolding quantity_ok_def by metis
qed

lemma perGPUBytesOf_range:
  fixes q :: "'q quantityOps"
  assumes "quantity_ok q" and "perGPUBytesOf q pm = Inr g"
  shows "1 \<le> maximumFootprintBytes g \<and> maximumFootprintBytes g \<le> 1125899906842624 \<and>
         1 \<le> kvFloorBytes g \<and> kvFloorBytes g \<le> 1125899906842624"
proof -
  obtain p :: "'q modelClaimPerGPU" and f k where
    "ModelClaimDeclaredBytes q ''maximumFootprint'' (specMaximumFootprint p) = Inr f"
    "ModelClaimDeclaredBytes q ''kvFloor'' (specKVFloor p) = Inr k"
    "g = \<lparr>maximumFootprintBytes = f, kvFloorBytes = k\<rparr>"
    using assms(2) by (auto simp: perGPUBytesOf_def split: option.splits sum.splits)
  then show ?thesis using declared_range [OF assms(1)] by fastforce
qed

lemma positiveEngineArg_range: "positiveEngineArg args name = Inr n \<Longrightarrow> 1 \<le> n \<and> n < 9223372036854775808"
  by (auto simp: positiveEngineArg_def parseInt64_def Let_def
      split: sum.splits option.splits if_splits prod.splits)

lemma parallelism_product:
  assumes "ModelClaimVLLMParallelism config = Inr n"
  shows "\<exists>t p. positiveEngineArg (case config of Some a \<Rightarrow> a | None \<Rightarrow> []) ''--tensor-parallel-size'' = Inr t \<and>
               positiveEngineArg (case config of Some a \<Rightarrow> a | None \<Rightarrow> []) ''--pipeline-parallel-size'' = Inr p \<and>
               n = t * p \<and> 1 \<le> n \<and> n < 9223372036854775808"
proof -
  define args where "args = (case config of Some a \<Rightarrow> a | None \<Rightarrow> [])"
  obtain t p where t: "positiveEngineArg args ''--tensor-parallel-size'' = Inr t"
    and p: "positiveEngineArg args ''--pipeline-parallel-size'' = Inr p"
    and tp: "\<not> t > go_div 9223372036854775807 p" and n: "n = i64 (t * p)"
    using assms unfolding ModelClaimVLLMParallelism_def Let_def args_def [symmetric]
    by (auto split: sum.splits option.splits if_splits)
  have pos: "1 \<le> t" "1 \<le> p" using t p positiveEngineArg_range by blast+
  then have "t * p \<le> (9223372036854775807 div p) * p" using tp by (intro mult_right_mono) simp_all
  also have "\<dots> \<le> 9223372036854775807" using pos(2) by (simp add: minus_mod_eq_div_mult [symmetric])
  finally have le: "t * p \<le> 9223372036854775807" .
  have "1 * 1 \<le> t * p" using pos by (intro mult_mono) simp_all
  then have "n = t * p" "1 \<le> n" using le n by (simp_all add: i64_id)
  then show ?thesis using t p le unfolding args_def by fastforce
qed

section \<open>Properties\<close>

text \<open>A declaration the account accepts is within the bounds its sums rely on: both figures
  of a usable \<^verbatim>\<open>spec.perGPU\<close> are at least one byte and at most a pebibyte.\<close>

theorem declared_cost_in_range:
  assumes "quantity_ok q" and "perGPUBytesOf q pm = Inr g"
  shows "1 \<le> maximumFootprintBytes g \<and> maximumFootprintBytes g \<le> 1125899906842624 \<and>
         1 \<le> kvFloorBytes g \<and> kvFloorBytes g \<le> 1125899906842624"
  by (rule perGPUBytesOf_range [OF assms])

theorem declared_cost_in_range_witness:
  "perGPUBytesOf intQuantity (Some (exClaim ''a'' 20 4 [])) = Inr \<lparr>maximumFootprintBytes = 20, kvFloorBytes = 4\<rparr> \<and>
   1 \<le> maximumFootprintBytes \<lparr>maximumFootprintBytes = 20, kvFloorBytes = 4\<rparr>"
proof -
  have "perGPUBytesOf intQuantity (Some (exClaim ''a'' 20 4 []))
          = Inr \<lparr>maximumFootprintBytes = 20, kvFloorBytes = 4\<rparr>" by code_simp
  then show ?thesis using declared_cost_in_range [OF intQuantity_ok] by blast
qed

text \<open>The GPU group of a vLLM engine is the exact product of its tensor and pipeline sizes:
  whatever the flags, an accepted topology is a positive 64-bit count that did not overflow.\<close>

theorem vllm_parallelism_exact:
  assumes "ModelClaimVLLMParallelism (Some args) = Inr n"
  shows "\<exists>t p. positiveEngineArg args ''--tensor-parallel-size'' = Inr t \<and>
               positiveEngineArg args ''--pipeline-parallel-size'' = Inr p \<and>
               n = t * p \<and> 1 \<le> n \<and> n < 9223372036854775808"
  using parallelism_product [OF assms] by simp

theorem vllm_parallelism_exact_witness:
  "\<exists>t p. positiveEngineArg [('' --tensor_parallel_size=4'', []), (''-pp'', '' 2 '')] ''--tensor-parallel-size'' = Inr t \<and>
         positiveEngineArg [('' --tensor_parallel_size=4'', []), (''-pp'', '' 2 '')] ''--pipeline-parallel-size'' = Inr p \<and>
         8 = t * p \<and> 1 \<le> (8::int) \<and> (8::int) < 9223372036854775808"
proof -
  have "ModelClaimVLLMParallelism (Some [('' --tensor_parallel_size=4'', []), (''-pp'', '' 2 '')]) = Inr 8"
    by code_simp
  then show ?thesis by (rule vllm_parallelism_exact)
qed

end
