(* ===== verification/KvLedger.thy ===== *)
theory KvLedger
  imports Claims
begin

text \<open>
  The GPU-memory account of one card
  (\<^verbatim>\<open>src/pkg/controller/modelclaim/ledger.go\<close>): what an engine on a card is promised and
  holds, the account \<open>podLedger\<close> of a card, and the arithmetic placement and division read
  from it. All figures are Go \<^verbatim>\<open>int64\<close> values; every sum is wrapped by \<^const>\<open>i64\<close>.
\<close>

section \<open>Data\<close>

text \<open>Go embeds \<^verbatim>\<open>perGPUBytes\<close> in \<^verbatim>\<open>engineOnPod\<close>; the record extends it. A \<^verbatim>\<open>*int64\<close> is an
  \<^typ>\<open>int option\<close>.\<close>

record engineOnPod = perGPUBytes +
  claimName :: string
  modelName :: string
  snapshotKey :: string
  kvUsedBytes :: int
  kvCapacityBytes :: int
  kvInitialCapacityBytes :: "int option"
  kvRecordedBytes :: int
  inFlightRequests :: int
  requestsWaiting :: int
  demandUnknown :: bool
  asleep :: bool
  sleepingFootprintBytes :: int
  withoutWakeReserve :: bool
  wakeReserveAsked :: bool

text \<open>Why an account has a hole, with the text of the code's message; \<^verbatim>\<open>""\<close> is \<^const>\<open>None\<close>.\<close>

datatype holeReason =
    RuntimeDidNotAnswer
  | RuntimeTooOld
  | CardsNotMeasured
  | ClaimsNotListed
  | UnusableDeclaration string per_gpu_error
  | StillExiting string
  | AnswersToNoClaim string

record podLedger =
  judgeable :: bool
  blocked :: "holeReason option"
  keepsNoWakeReserve :: bool
  unread :: bool
  hbmUsableBytes :: int
  totalMinimumReserveBytes :: int
  totalHeldBytes :: int
  reservedBytes :: int
  accelerators :: int
  observedAt :: int
  engines :: "engineOnPod list"

definition kvLimitUnknown :: int where
  "kvLimitUnknown = - 1"

section \<open>What an engine is promised and holds\<close>

definition perGPU_minimumReserveBytes :: "perGPUBytes \<Rightarrow> int" where
  "perGPU_minimumReserveBytes p = i64 (maximumFootprintBytes p + kvFloorBytes p)"

definition effectiveKVFloorBytes :: "engineOnPod \<Rightarrow> int" where
  "effectiveKVFloorBytes e =
     (case kvInitialCapacityBytes e of
        Some ceiling \<Rightarrow> if ceiling > 0 then min (kvFloorBytes e) ceiling else kvFloorBytes e
      | None \<Rightarrow> kvFloorBytes e)"

definition engine_minimumReserveBytes :: "engineOnPod \<Rightarrow> int" where
  "engine_minimumReserveBytes e =
     (if withoutWakeReserve e then sleepingFootprintBytes e
      else i64 (maximumFootprintBytes e + effectiveKVFloorBytes e))"

definition kvHeldBytes :: "engineOnPod \<Rightarrow> int" where
  "kvHeldBytes e =
     (if kvUsedBytes e > effectiveKVFloorBytes e then kvUsedBytes e else effectiveKVFloorBytes e)"

definition heldBytes :: "engineOnPod \<Rightarrow> int" where
  "heldBytes e =
     (if withoutWakeReserve e then sleepingFootprintBytes e
      else i64 (maximumFootprintBytes e + kvHeldBytes e))"

definition plannedKVHeldBytes :: "engineOnPod \<Rightarrow> int" where
  "plannedKVHeldBytes e = (if withoutWakeReserve e then kvUsedBytes e else kvHeldBytes e)"

section \<open>What a card offers\<close>

definition maximumRoomBytes :: "podLedger \<Rightarrow> int" where
  "maximumRoomBytes l =
     i64 (i64 (hbmUsableBytes l - totalMinimumReserveBytes l) - reservedBytes l)"

definition plannableBytes :: "podLedger \<Rightarrow> int" where
  "plannableBytes l = i64 (hbmUsableBytes l - reservedBytes l)"

definition heldRoomBytes :: "podLedger \<Rightarrow> int" where
  "heldRoomBytes l = i64 (i64 (hbmUsableBytes l - totalHeldBytes l) - reservedBytes l)"

text \<open>The loop of \<open>withWakeReserve\<close>: one pass over the engines that moves the two totals by
  what each touched engine's charge changes by.\<close>

definition wakeReserveSkips :: "string \<Rightarrow> bool \<Rightarrow> engineOnPod \<Rightarrow> bool" where
  "wakeReserveSkips name asked e \<longleftrightarrow>
     claimName e \<noteq> name \<or> wakeReserveAsked e = asked \<or>
     (\<not> wakeReserveAsked e \<and> \<not> withoutWakeReserve e)"

fun withWakeReserve_loop ::
  "string \<Rightarrow> bool \<Rightarrow> engineOnPod list \<Rightarrow> int \<Rightarrow> int \<Rightarrow> int \<times> int \<times> engineOnPod list" where
  "withWakeReserve_loop name asked [] r h = (r, h, [])"
| "withWakeReserve_loop name asked (e # es) r h =
     (if wakeReserveSkips name asked e
      then (let (r', h', es') = withWakeReserve_loop name asked es r h in (r', h', e # es'))
      else
        (let e' = e\<lparr>wakeReserveAsked := asked, withoutWakeReserve := \<not> asked\<rparr>;
             r1 = i64 (r - engine_minimumReserveBytes e);
             h1 = i64 (h - heldBytes e);
             (r', h', es') = withWakeReserve_loop name asked es
                (i64 (r1 + engine_minimumReserveBytes e')) (i64 (h1 + heldBytes e'))
         in (r', h', e' # es')))"

definition withWakeReserve :: "podLedger \<Rightarrow> string \<Rightarrow> bool \<Rightarrow> podLedger" where
  "withWakeReserve l name asked =
     (let (r, h, es) = withWakeReserve_loop name asked (engines l)
                         (totalMinimumReserveBytes l) (totalHeldBytes l)
      in l\<lparr>totalMinimumReserveBytes := r, totalHeldBytes := h, engines := es\<rparr>)"

definition withHole :: "podLedger \<Rightarrow> holeReason \<Rightarrow> podLedger" where
  "withHole l reason =
     (let l' = (if blocked l = None then l\<lparr>blocked := Some reason\<rparr> else l) in l'\<lparr>judgeable := False\<rparr>)"

fun withoutAskedReserves :: "engineOnPod list \<Rightarrow> engineOnPod list \<times> bool" where
  "withoutAskedReserves [] = ([], False)"
| "withoutAskedReserves (e # es) =
     (let (es', found) = withoutAskedReserves es
      in if wakeReserveAsked e
         then (e\<lparr>withoutWakeReserve := True, wakeReserveAsked := False\<rparr> # es', True)
         else (e # es', found))"

section \<open>Building the accounts\<close>

definition emptyLedger :: podLedger where
  "emptyLedger =
     \<lparr>judgeable = False, blocked = None, keepsNoWakeReserve = False, unread = False,
      hbmUsableBytes = 0, totalMinimumReserveBytes = 0, totalHeldBytes = 0, reservedBytes = 0,
      accelerators = 0, observedAt = 0, engines = []\<rparr>"

definition unmeasuredCards :: "runtimeSnapshot option \<Rightarrow> holeReason" where
  "unmeasuredCards s =
     (case s of
        Some s' \<Rightarrow> if list_ex (\<lambda>a. accHBMTotalBytes a > 0 \<and> accHBMUsableBytes a = 0) (snapAccelerators s')
                   then RuntimeTooOld else CardsNotMeasured
      | None \<Rightarrow> CardsNotMeasured)"

definition initialLedger :: "runtimeSnapshot option \<Rightarrow> bool \<Rightarrow> podLedger" where
  "initialLedger s noReserve =
     (let (usable, measured) = snapshot_hbmUsableBytes s; cards = reportedAccelerators s
      in case s of
           None \<Rightarrow> emptyLedger\<lparr>blocked := Some RuntimeDidNotAnswer, unread := True,
                               keepsNoWakeReserve := noReserve\<rparr>
         | Some s' \<Rightarrow>
             if \<not> measured
             then emptyLedger\<lparr>blocked := Some (unmeasuredCards s), accelerators := cards,
                              keepsNoWakeReserve := noReserve\<rparr>
             else emptyLedger\<lparr>keepsNoWakeReserve := noReserve, judgeable := True,
                              hbmUsableBytes := usable, observedAt := snapObservedAt s',
                              accelerators := cards\<rparr>)"

definition unlistedLedger :: "podLedger \<Rightarrow> podLedger" where
  "unlistedLedger l =
     (let l1 = (if \<not> unread l then l\<lparr>blocked := None\<rparr> else l)
      in withHole (l1\<lparr>unread := True\<rparr>) ClaimsNotListed)"

definition observe :: "engineOnPod \<Rightarrow> runtimeSnapshotModel \<Rightarrow> modelClaimInstance \<Rightarrow> engineOnPod" where
  "observe e m inst =
     (let starting = \<not> mdlReady m \<and>
             (case mdlKVInitialCapacityBytes m of None \<Rightarrow> True | Some c \<Rightarrow> c < 0) \<and>
             (instPhase inst = ''Activating'' \<or> mdlPhase m = ''booting'');
          sleeping = (mdlPhase m = ''sleeping'');
          (footprint, known) = sleepingFootprintOf (Some m)
      in e\<lparr>snapshotKey := snapshotActivityKey m,
           kvInitialCapacityBytes := mdlKVInitialCapacityBytes m,
           kvCapacityBytes := (if starting then kvLimitUnknown else mdlKVCapacityBytes m),
           inFlightRequests := i64 (max (mdlRequestsRunning m) 0 + max (mdlRequestsWaiting m) 0),
           requestsWaiting := max (mdlRequestsWaiting m) 0,
           demandUnknown := mdlReady m \<and> \<not> mdlRequestMetricsObserved m \<and>
             mdlPhase m = ''active'' \<and> instPhase inst = ''Active'',
           asleep := sleeping,
           sleepingFootprintBytes :=
             (if sleeping \<and> known then footprint else sleepingFootprintBytes e),
           kvUsedBytes := max (mdlKVUsedBytes m) 0\<rparr>)"

definition recordedEngine :: "string \<Rightarrow> string \<Rightarrow> perGPUBytes \<Rightarrow> int \<Rightarrow> engineOnPod" where
  "recordedEngine name served p recorded =
     \<lparr>maximumFootprintBytes = maximumFootprintBytes p, kvFloorBytes = kvFloorBytes p,
      claimName = name, modelName = served, snapshotKey = [], kvUsedBytes = 0,
      kvCapacityBytes = kvLimitUnknown, kvInitialCapacityBytes = None, kvRecordedBytes = recorded,
      inFlightRequests = 0, requestsWaiting = 0, demandUnknown = False, asleep = False,
      sleepingFootprintBytes = 0, withoutWakeReserve = False, wakeReserveAsked = False\<rparr>"

text \<open>The state of the loop over the claims: the accounts, and the engines accounted for, as pairs
  of a pod and a snapshot key.\<close>

type_synonym accounting = "(string \<rightharpoonup> podLedger) \<times> (string \<times> string) set"

definition usablePerGPU :: "per_gpu_error + perGPUBytes \<Rightarrow> perGPUBytes" where
  "usablePerGPU g = (case g of Inl _ \<Rightarrow> \<lparr>maximumFootprintBytes = 0, kvFloorBytes = 0\<rparr> | Inr p \<Rightarrow> p)"

definition chargeEngine :: "podLedger \<Rightarrow> engineOnPod \<Rightarrow> podLedger" where
  "chargeEngine l e =
     l\<lparr>totalMinimumReserveBytes := i64 (totalMinimumReserveBytes l + engine_minimumReserveBytes e),
       totalHeldBytes := i64 (totalHeldBytes l + heldBytes e),
       engines := engines l @ [e]\<rparr>"

definition seenModel ::
  "(string \<rightharpoonup> runtimeSnapshot) \<Rightarrow> 'q modelClaim \<Rightarrow> modelClaimInstance \<Rightarrow> runtimeSnapshotModel option" where
  "seenModel snapshots claim inst =
     snapshotModelForClaim (snapshots (instPod inst)) claim (servedModelName claim)"

text \<open>The engine of an instance: what its claim declared, what the snapshot says of it, and whether
  it sleeps without a wake reserve or a request has put that reserve back.\<close>

definition instanceEngine ::
  "'q quantityOps \<Rightarrow> (string \<rightharpoonup> runtimeSnapshot) \<Rightarrow> (string \<Rightarrow> bool) \<Rightarrow> (string \<rightharpoonup> 'q corePod) \<Rightarrow>
     'q modelClaim \<Rightarrow> modelClaimInstance \<Rightarrow> engineOnPod" where
  "instanceEngine q snapshots noReserve pods claim inst =
     (let e0 = recordedEngine (clmName claim) (servedModelName claim)
                 (usablePerGPU (perGPUBytesOf q (Some claim))) (instKVLimitBytes inst);
          e1 = (case seenModel snapshots claim inst of Some m \<Rightarrow> observe e0 m inst | None \<Rightarrow> e0);
          keepsNone = (noReserve (instPod inst) \<and> sleepingFootprintBytes e1 > 0);
          wake = wakeAsked (pods (instPod inst)) (clmName claim)
      in e1\<lparr>withoutWakeReserve := keepsNone \<and> \<not> wake, wakeReserveAsked := keepsNone \<and> wake\<rparr>)"

text \<open>A failed instance whose engine is gone is not charged.\<close>

definition instanceGone ::
  "(string \<rightharpoonup> runtimeSnapshot) \<Rightarrow> 'q modelClaim \<Rightarrow> modelClaimInstance \<Rightarrow> engineOnPod \<Rightarrow> bool" where
  "instanceGone snapshots claim inst e \<longleftrightarrow>
     instPhase inst = ''Failed'' \<and>
     (snapshotKey e = [] \<or>
      \<not> (case seenModel snapshots claim inst of Some m \<Rightarrow> mdlAlive m | None \<Rightarrow> False))"

definition accountInstance ::
  "'q quantityOps \<Rightarrow> (string \<rightharpoonup> runtimeSnapshot) \<Rightarrow> (string \<Rightarrow> bool) \<Rightarrow> (string \<rightharpoonup> 'q corePod) \<Rightarrow>
     'q modelClaim \<Rightarrow> modelClaimInstance \<Rightarrow> accounting \<Rightarrow> accounting" where
  "accountInstance q snapshots noReserve pods claim inst st =
     (case fst st (instPod inst) of
        None \<Rightarrow> st
      | Some l0 \<Rightarrow>
          (let l = (if instKVLimitBytes inst > 0 \<and> accelerators l0 = 0
                    then l0\<lparr>accelerators := 1\<rparr> else l0);
               e = instanceEngine q snapshots noReserve pods claim inst;
               accounted' = (case seenModel snapshots claim inst of
                               Some m \<Rightarrow> insert (instPod inst, snapshotKey e) (snd st)
                             | None \<Rightarrow> snd st)
           in if instanceGone snapshots claim inst e then ((fst st)(instPod inst \<mapsto> l), accounted')
              else
                (let l' = (case perGPUBytesOf q (Some claim) of
                             Inl err \<Rightarrow> withHole l (UnusableDeclaration (clmName claim) err)
                           | Inr _ \<Rightarrow> l)
                 in ((fst st)(instPod inst \<mapsto> chargeEngine l' e), accounted'))))"

definition accountClaim ::
  "'q quantityOps \<Rightarrow> (string \<rightharpoonup> runtimeSnapshot) \<Rightarrow> (string \<Rightarrow> bool) \<Rightarrow> (string \<rightharpoonup> 'q corePod) \<Rightarrow>
     'q modelClaim \<Rightarrow> accounting \<Rightarrow> accounting" where
  "accountClaim q snapshots noReserve pods claim st =
     fold (accountInstance q snapshots noReserve pods claim) (statusInstances claim) st"

fun holeFromModels :: "(string \<Rightarrow> bool) \<Rightarrow> runtimeSnapshotModel list \<Rightarrow> podLedger \<Rightarrow> podLedger" where
  "holeFromModels known [] l = l"
| "holeFromModels known (m # ms) l =
     (if known (snapshotActivityKey m) then holeFromModels known ms l
      else if mdlPhase m = ''stopping'' then withHole l (StillExiting (mdlModelName m))
      else if mdlPhase m = ''failed'' \<and> \<not> mdlAlive m then holeFromModels known ms l
      else withHole l (AnswersToNoClaim (mdlModelName m)))"

definition podsByName :: "'q corePod list \<Rightarrow> (string \<rightharpoonup> 'q corePod)" where
  "podsByName candidates = map_of (rev (map (\<lambda>p. (podName p, p)) candidates))"

definition podLedgersFrom ::
  "'q quantityOps \<Rightarrow> 'q modelClaim list option \<Rightarrow> 'q corePod list \<Rightarrow> (string \<rightharpoonup> runtimeSnapshot) \<Rightarrow>
     (string \<Rightarrow> bool) \<Rightarrow> (string \<rightharpoonup> podLedger)" where
  "podLedgersFrom q claims candidates snapshots noReserve =
     (let pods = podsByName candidates;
          ledgers = map_of (rev (map (\<lambda>p. (podName p, initialLedger (snapshots (podName p)) (noReserve (podName p))))
                                     candidates))
      in case claims of
           None \<Rightarrow> map_option unlistedLedger \<circ> ledgers
         | Some cs \<Rightarrow>
             (let (ls, accounted) = fold (accountClaim q snapshots noReserve pods) cs (ledgers, {})
              in (\<lambda>name. map_option (holeFromModels (\<lambda>k. (name, k) \<in> accounted)
                                       (snapshot_models (snapshots name))) (ls name))))"

section \<open>Figures in range\<close>

text \<open>A declared figure is at most a pebibyte (\<^verbatim>\<open>modelClaimMaximumDeclaredBytes\<close> of
  \<^verbatim>\<open>src/pkg/utils/modelclaim.go\<close>), "figures this small can be added up for every instance on a
  card without running past an int64". \<open>engine_sane\<close> and \<open>card_sane\<close> are that bound: every
  figure of an engine within a pebibyte and not negative, at most 1024 engines on a card.\<close>

definition pebi :: int where
  "pebi = 1125899906842624"

definition engine_sane :: "engineOnPod \<Rightarrow> bool" where
  "engine_sane e \<longleftrightarrow>
     0 \<le> maximumFootprintBytes e \<and> maximumFootprintBytes e \<le> pebi \<and>
     0 \<le> kvFloorBytes e \<and> kvFloorBytes e \<le> pebi \<and>
     0 \<le> kvUsedBytes e \<and> kvUsedBytes e \<le> pebi \<and>
     0 \<le> sleepingFootprintBytes e \<and> sleepingFootprintBytes e \<le> pebi"

definition card_sane :: "int \<Rightarrow> engineOnPod list \<Rightarrow> bool" where
  "card_sane hbm es \<longleftrightarrow>
     0 \<le> hbm \<and> hbm \<le> pebi \<and> length es \<le> 1024 \<and> (\<forall>e \<in> set es. engine_sane e)"

text \<open>The contract of an account: its two totals are the sums over its engines, and an account
  that may be judged has no hole, a measured card, and only engines whose cost was declared
  within bounds.\<close>

definition ledger_sums :: "podLedger \<Rightarrow> bool" where
  "ledger_sums l \<longleftrightarrow>
     totalMinimumReserveBytes l = i64 (sum_list (map engine_minimumReserveBytes (engines l))) \<and>
     totalHeldBytes l = i64 (sum_list (map heldBytes (engines l)))"

definition engine_declared :: "engineOnPod \<Rightarrow> bool" where
  "engine_declared e \<longleftrightarrow>
     1 \<le> maximumFootprintBytes e \<and> maximumFootprintBytes e \<le> pebi \<and>
     1 \<le> kvFloorBytes e \<and> kvFloorBytes e \<le> pebi \<and>
     0 \<le> kvUsedBytes e \<and> 0 \<le> sleepingFootprintBytes e"

definition ledger_ok :: "podLedger \<Rightarrow> bool" where
  "ledger_ok l \<longleftrightarrow>
     ledger_sums l \<and>
     (judgeable l \<longrightarrow> blocked l = None \<and> 0 < hbmUsableBytes l \<and> (\<forall>e \<in> set (engines l). engine_declared e))"

definition accounts_ok :: "(string \<rightharpoonup> podLedger) \<Rightarrow> bool" where
  "accounts_ok ledgers \<longleftrightarrow> (\<forall>name l. ledgers name = Some l \<longrightarrow> ledger_ok l)"

text \<open>An engine is accounted for only when some recorded instance was matched with it.\<close>

definition accounted_for ::
  "(string \<rightharpoonup> runtimeSnapshot) \<Rightarrow> 'q modelClaim list \<Rightarrow> (string \<times> string) set \<Rightarrow> bool" where
  "accounted_for snapshots cs acc \<longleftrightarrow>
     (\<forall>(pod, k) \<in> acc. \<exists>claim \<in> set cs. \<exists>inst \<in> set (statusInstances claim).
        instPod inst = pod \<and> (\<exists>m. seenModel snapshots claim inst = Some m \<and> snapshotActivityKey m = k))"

text \<open>A pool of one pod with one card, one model on it and one engine, for the concrete instances.\<close>

definition exModel :: "string \<Rightarrow> string \<Rightarrow> int \<Rightarrow> int \<Rightarrow> runtimeSnapshotModel" where
  "exModel name phase used capacity =
     \<lparr>mdlModelName = name, mdlArtifactURL = ''hf://m'', mdlClaimRef = None, mdlPort = 8000,
      mdlIPCName = name, mdlPhase = phase, mdlAlive = True, mdlReady = True, mdlRestartCount = 0,
      mdlLastError = [], mdlLastTransition = None, mdlKVUsedBytes = used, mdlKVCapacityBytes = capacity,
      mdlHBMPeakBytes = 0, mdlKVInitialCapacityBytes = None, mdlSleepingFootprintBytes = Some 3,
      mdlRequestMetricsObserved = True, mdlRequestsRunning = 0, mdlRequestsWaiting = 0,
      mdlRequestSuccessTotal = None\<rparr>"

definition exSnapshots :: "string \<rightharpoonup> runtimeSnapshot" where
  "exSnapshots =
     [''p'' \<mapsto> \<lparr>snapObservedAt = 5,
        snapAccelerators = [\<lparr>accID = ''0'', accHBMTotalBytes = 110, accHBMFreeBytes = 50, accHBMUsableBytes = 100\<rparr>],
        snapModels = [exModel ''a'' ''sleeping'' 2 10], snapCachedArtifacts = []\<rparr>]"

definition exCandidate :: "int corePod" where
  "exCandidate =
     \<lparr>podName = ''p'', podUID = ''u'', podIP = ''10.0.0.1'', podNodeName = ''n'', podIsReady = True,
      podAnnotations = Map.empty, podContainers = [(Some 1, None)]\<rparr>"

definition exInstance :: modelClaimInstance where
  "exInstance = \<lparr>instPod = ''p'', instPort = 8000, instPhase = ''Sleeping'', instKVLimitBytes = 10, instReason = []\<rparr>"

definition exClaims :: "int modelClaim list" where
  "exClaims = [exClaim ''a'' 20 4 [exInstance]]"

definition exLedger :: podLedger where
  "exLedger = the (podLedgersFrom intQuantity (Some exClaims) [exCandidate] exSnapshots (\<lambda>_. True) ''p'')"

lemmas ledger_defs =
  effectiveKVFloorBytes_def engine_minimumReserveBytes_def kvHeldBytes_def heldBytes_def
  plannedKVHeldBytes_def engine_sane_def pebi_def

lemma card_sane_engine: "card_sane hbm es \<Longrightarrow> e \<in> set es \<Longrightarrow> engine_sane e"
  by (simp add: card_sane_def)

lemma effectiveKVFloor_range:
  "engine_sane e \<Longrightarrow> 0 \<le> effectiveKVFloorBytes e \<and> effectiveKVFloorBytes e \<le> pebi"
  by (auto simp: ledger_defs split: option.splits)

lemma kvHeld_range: "engine_sane e \<Longrightarrow> 0 \<le> kvHeldBytes e \<and> kvHeldBytes e \<le> pebi"
  using effectiveKVFloor_range [of e] by (auto simp: kvHeldBytes_def engine_sane_def)

lemma held_exact:
  "engine_sane e \<Longrightarrow> heldBytes e =
     (if withoutWakeReserve e then sleepingFootprintBytes e
      else maximumFootprintBytes e + kvHeldBytes e)"
  using kvHeld_range [of e]
  by (auto simp: heldBytes_def engine_sane_def pebi_def intro!: i64_id)

lemma reserve_exact:
  "engine_sane e \<Longrightarrow> engine_minimumReserveBytes e =
     (if withoutWakeReserve e then sleepingFootprintBytes e
      else maximumFootprintBytes e + effectiveKVFloorBytes e)"
  using effectiveKVFloor_range [of e]
  by (auto simp: engine_minimumReserveBytes_def engine_sane_def pebi_def intro!: i64_id)

lemma held_range: "engine_sane e \<Longrightarrow> 0 \<le> heldBytes e \<and> heldBytes e \<le> 2 * pebi"
  using kvHeld_range [of e] by (auto simp: held_exact engine_sane_def pebi_def)

lemma reserve_range:
  "engine_sane e \<Longrightarrow> 0 \<le> engine_minimumReserveBytes e \<and> engine_minimumReserveBytes e \<le> 2 * pebi"
  using effectiveKVFloor_range [of e] by (auto simp: reserve_exact engine_sane_def pebi_def)

lemma plannedKVHeld_range: "engine_sane e \<Longrightarrow> 0 \<le> plannedKVHeldBytes e \<and> plannedKVHeldBytes e \<le> pebi"
  using kvHeld_range [of e] by (auto simp: plannedKVHeldBytes_def engine_sane_def)

text \<open>A promise is never more than what is held, except while an engine sleeps without a wake
  reserve, where the two are the same figure.\<close>

lemma reserve_le_held: "engine_sane e \<Longrightarrow> engine_minimumReserveBytes e \<le> heldBytes e"
  by (auto simp: reserve_exact held_exact kvHeldBytes_def)

section \<open>Every operation keeps the contract of an account\<close>

lemma withHole_simps [simp]:
  "engines (withHole l r) = engines l" "totalHeldBytes (withHole l r) = totalHeldBytes l"
  "totalMinimumReserveBytes (withHole l r) = totalMinimumReserveBytes l"
  "judgeable (withHole l r) = False" "hbmUsableBytes (withHole l r) = hbmUsableBytes l"
  "blocked (withHole l r) \<noteq> None"
  by (simp_all add: withHole_def Let_def)

lemma withHole_ok: "ledger_sums l \<Longrightarrow> ledger_ok (withHole l r)"
  by (simp add: ledger_ok_def ledger_sums_def)

lemma ledger_ok_sums: "ledger_ok l \<Longrightarrow> ledger_sums l"
  by (simp add: ledger_ok_def)

lemma accelerators_ok: "ledger_ok l \<Longrightarrow> ledger_ok (l\<lparr>accelerators := c\<rparr>)"
  by (simp add: ledger_ok_def ledger_sums_def)

lemma charge_sums: "ledger_sums l \<Longrightarrow> ledger_sums (chargeEngine l e)"
  by (simp add: ledger_sums_def chargeEngine_def i64_add_left)

lemma charge_ok: "ledger_ok l \<Longrightarrow> engine_declared e \<Longrightarrow> ledger_ok (chargeEngine l e)"
  using charge_sums [of l e] by (simp add: ledger_ok_def chargeEngine_def)

lemma charge_blocked_ok: "ledger_sums l \<Longrightarrow> ledger_ok (chargeEngine (withHole l r) e)"
  using charge_sums [of "withHole l r" e] by (simp add: ledger_ok_def ledger_sums_def chargeEngine_def)

lemma initialLedger_ok: "ledger_ok (initialLedger s noReserve)"
  using smallestUsable_eq [of True 0 "snapAccelerators (the s)"]
  by (auto simp: initialLedger_def emptyLedger_def ledger_ok_def ledger_sums_def snapshot_hbmUsableBytes_def
      not_le Let_def split: option.splits prod.splits if_splits)

lemma unlistedLedger_ok: "ledger_ok l \<Longrightarrow> ledger_ok (unlistedLedger l)"
  unfolding unlistedLedger_def Let_def
  by (rule withHole_ok) (simp add: ledger_ok_def ledger_sums_def)

lemma holeFromModels_ok: "ledger_ok l \<Longrightarrow> ledger_ok (holeFromModels known ms l)"
  by (induction known ms l rule: holeFromModels.induct) (auto intro: withHole_ok ledger_ok_sums)

lemma holeFromModels_keeps:
  "engines (holeFromModels known ms l) = engines l"
  "hbmUsableBytes (holeFromModels known ms l) = hbmUsableBytes l"
  by (induction known ms l rule: holeFromModels.induct) auto

lemma observe_keeps [simp]:
  "maximumFootprintBytes (observe e m i) = maximumFootprintBytes e" "kvFloorBytes (observe e m i) = kvFloorBytes e"
  "claimName (observe e m i) = claimName e" "modelName (observe e m i) = modelName e"
  "snapshotKey (observe e m i) = snapshotActivityKey m" "0 \<le> kvUsedBytes (observe e m i)"
  "0 \<le> sleepingFootprintBytes e \<Longrightarrow> 0 \<le> sleepingFootprintBytes (observe e m i)"
  by (simp_all add: observe_def Let_def sleepingFootprintOf_def split: option.splits prod.splits)

lemma recordedEngine_simps [simp]:
  "maximumFootprintBytes (recordedEngine n s p r) = maximumFootprintBytes p"
  "kvFloorBytes (recordedEngine n s p r) = kvFloorBytes p"
  "claimName (recordedEngine n s p r) = n" "modelName (recordedEngine n s p r) = s"
  "snapshotKey (recordedEngine n s p r) = []" "kvUsedBytes (recordedEngine n s p r) = 0"
  "sleepingFootprintBytes (recordedEngine n s p r) = 0"
  by (simp_all add: recordedEngine_def)

lemma engine_declared_reserve [simp]:
  "engine_declared (e\<lparr>withoutWakeReserve := a, wakeReserveAsked := b\<rparr>) = engine_declared e"
  by (simp add: engine_declared_def)

lemma instanceEngine_declared:
  assumes "quantity_ok q" and "perGPUBytesOf q (Some claim) = Inr g"
  shows "engine_declared (instanceEngine q snapshots noReserve pods claim inst)"
  using perGPUBytesOf_range [OF assms] assms(2)
  by (simp add: instanceEngine_def Let_def engine_declared_def usablePerGPU_def pebi_def split: option.splits)

lemma instanceEngine_names [simp]:
  "claimName (instanceEngine q snapshots noReserve pods claim inst) = clmName claim"
  "modelName (instanceEngine q snapshots noReserve pods claim inst) = servedModelName claim"
  by (simp_all add: instanceEngine_def Let_def split: option.splits)

lemma instanceEngine_key:
  "seenModel snapshots claim inst = Some m \<Longrightarrow>
     snapshotKey (instanceEngine q snapshots noReserve pods claim inst) = snapshotActivityKey m"
  by (simp add: instanceEngine_def Let_def)

lemma accountInstance_ok:
  assumes q: "quantity_ok q" and ok: "accounts_ok (fst st)"
  shows "accounts_ok (fst (accountInstance q snapshots noReserve pods claim inst st))"
proof (cases "fst st (instPod inst)")
  case (Some l0)
  have l0: "ledger_ok l0" using ok Some by (auto simp: accounts_ok_def)
  define l where "l = (if instKVLimitBytes inst > 0 \<and> accelerators l0 = 0 then l0\<lparr>accelerators := 1\<rparr> else l0)"
  let ?e = "instanceEngine q snapshots noReserve pods claim inst"
  have l: "ledger_ok l" using l0 accelerators_ok by (simp add: l_def)
  have charged: "ledger_ok (chargeEngine (case perGPUBytesOf q (Some claim) of
             Inl err \<Rightarrow> withHole l (UnusableDeclaration (clmName claim) err) | Inr _ \<Rightarrow> l) ?e)"
    using charge_ok [OF l] charge_blocked_ok [OF ledger_ok_sums [OF l]] instanceEngine_declared [OF q]
    by (auto split: sum.splits)
  show ?thesis
    using ok l charged Some
    by (simp add: accountInstance_def Let_def accounts_ok_def flip: l_def)
qed (simp add: accountInstance_def ok)

lemma accountClaim_ok:
  "quantity_ok q \<Longrightarrow> accounts_ok (fst st) \<Longrightarrow> accounts_ok (fst (accountClaim q snapshots noReserve pods claim st))"
  unfolding accountClaim_def
  by (rule fold_invariant [where Q = "\<lambda>_. True" and P = "\<lambda>st. accounts_ok (fst st)"])
     (simp_all add: accountInstance_ok)

lemma initial_accounts_ok:
  "accounts_ok (map_of (rev (map (\<lambda>p. (podName p, initialLedger (snapshots (podName p)) (noReserve (podName p)))) cs)))"
  by (auto simp: accounts_ok_def initialLedger_ok dest!: map_of_SomeD)

lemma podLedgersFrom_ok:
  assumes q: "quantity_ok q"
  shows "accounts_ok (podLedgersFrom q claims candidates snapshots noReserve)"
proof (cases claims)
  case None
  then show ?thesis using initial_accounts_ok [of snapshots noReserve candidates]
    by (auto simp: podLedgersFrom_def Let_def accounts_ok_def unlistedLedger_ok)
next
  case (Some cs)
  let ?l0 = "map_of (rev (map (\<lambda>p. (podName p, initialLedger (snapshots (podName p)) (noReserve (podName p)))) candidates))"
  let ?pods = "podsByName candidates"
  have "accounts_ok (fst (fold (accountClaim q snapshots noReserve ?pods) cs (?l0, {})))"
    using accountClaim_ok [OF q] initial_accounts_ok [of snapshots noReserve candidates]
    by (intro fold_invariant [where Q = "\<lambda>_. True" and P = "\<lambda>st. accounts_ok (fst st)"]) simp_all
  then show ?thesis using Some
    by (auto simp: podLedgersFrom_def Let_def accounts_ok_def holeFromModels_ok split: prod.splits)
qed

section \<open>Nothing recorded is left out of an account\<close>

lemma accountInstance_keeps:
  "fst st name = Some l \<Longrightarrow>
     \<exists>l'. fst (accountInstance q snapshots noReserve pods claim inst st) name = Some l' \<and>
          set (engines l) \<subseteq> set (engines l')"
  by (auto simp: accountInstance_def chargeEngine_def Let_def split: option.splits sum.splits)

lemma instances_keep:
  "fst st name = Some l \<Longrightarrow>
     \<exists>l'. fst (fold (accountInstance q snapshots noReserve pods claim) is st) name = Some l' \<and>
          set (engines l) \<subseteq> set (engines l')"
proof (induction "is" arbitrary: st l)
  case (Cons i "is")
  obtain l1 where l1: "fst (accountInstance q snapshots noReserve pods claim i st) name = Some l1"
    "set (engines l) \<subseteq> set (engines l1)" using accountInstance_keeps [OF Cons.prems] by blast
  obtain l2 where "fst (fold (accountInstance q snapshots noReserve pods claim) is
      (accountInstance q snapshots noReserve pods claim i st)) name = Some l2" "set (engines l1) \<subseteq> set (engines l2)"
    using Cons.IH [OF l1(1)] by blast
  then show ?case using l1(2) by (intro exI [of _ l2]) auto
qed simp

lemmas accountClaim_keeps = instances_keep [of _ _ _ _ _ _ _ claim "statusInstances claim" for claim,
  folded accountClaim_def]

lemma accountClaims_keep:
  "fst st name = Some l \<Longrightarrow>
     \<exists>l'. fst (fold (accountClaim q snapshots noReserve pods) cs st) name = Some l' \<and>
          set (engines l) \<subseteq> set (engines l')"
proof (induction cs arbitrary: st l)
  case (Cons c cs)
  obtain l1 where "fst (accountClaim q snapshots noReserve pods c st) name = Some l1"
    "set (engines l) \<subseteq> set (engines l1)" using accountClaim_keeps [OF Cons.prems] by blast
  moreover obtain l2 where "fst (fold (accountClaim q snapshots noReserve pods) cs
      (accountClaim q snapshots noReserve pods c st)) name = Some l2" "set (engines l1) \<subseteq> set (engines l2)"
    using Cons.IH [OF calculation(1)] by blast
  ultimately show ?case by (intro exI [of _ l2]) auto
qed simp

lemma accountInstance_charges:
  assumes "fst st (instPod inst) = Some l"
    and "\<not> instanceGone snapshots claim inst (instanceEngine q snapshots noReserve pods claim inst)"
  shows "\<exists>l'. fst (accountInstance q snapshots noReserve pods claim inst st) (instPod inst) = Some l' \<and>
              instanceEngine q snapshots noReserve pods claim inst \<in> set (engines l')"
  using assms by (auto simp: accountInstance_def chargeEngine_def Let_def split: sum.splits)

lemma accountClaim_charges:
  assumes "fst st (instPod inst) = Some l" and "inst \<in> set (statusInstances claim)"
    and "\<not> instanceGone snapshots claim inst (instanceEngine q snapshots noReserve pods claim inst)"
  shows "\<exists>l'. fst (accountClaim q snapshots noReserve pods claim st) (instPod inst) = Some l' \<and>
              instanceEngine q snapshots noReserve pods claim inst \<in> set (engines l')"
proof -
  let ?f = "accountInstance q snapshots noReserve pods claim"
  obtain ys zs where "statusInstances claim = ys @ inst # zs" using assms(2) by (meson split_list)
  then have eq: "accountClaim q snapshots noReserve pods claim st = fold ?f zs (?f inst (fold ?f ys st))"
    by (simp add: accountClaim_def)
  obtain l1 where "fst (fold ?f ys st) (instPod inst) = Some l1" using instances_keep [OF assms(1)] by blast
  then obtain l2 where "fst (?f inst (fold ?f ys st)) (instPod inst) = Some l2"
    "instanceEngine q snapshots noReserve pods claim inst \<in> set (engines l2)"
    using accountInstance_charges [OF _ assms(3)] by blast
  then show ?thesis using instances_keep unfolding eq by blast
qed

lemma claims_charge:
  assumes "claim \<in> set cs" and "inst \<in> set (statusInstances claim)" and "fst st (instPod inst) = Some l"
    and "\<not> instanceGone snapshots claim inst (instanceEngine q snapshots noReserve pods claim inst)"
  shows "\<exists>l'. fst (fold (accountClaim q snapshots noReserve pods) cs st) (instPod inst) = Some l' \<and>
              instanceEngine q snapshots noReserve pods claim inst \<in> set (engines l')"
proof -
  let ?f = "accountClaim q snapshots noReserve pods"
  obtain ys zs where cs: "cs = ys @ claim # zs" using assms(1) by (meson split_list)
  obtain l1 where "fst (fold ?f ys st) (instPod inst) = Some l1"
    using accountClaims_keep [OF assms(3)] by blast
  then obtain l2 where "fst (?f claim (fold ?f ys st)) (instPod inst) = Some l2"
    "instanceEngine q snapshots noReserve pods claim inst \<in> set (engines l2)"
    using accountClaim_charges [OF _ assms(2,4)] by blast
  then show ?thesis using accountClaims_keep [of "?f claim (fold ?f ys st)"] unfolding cs by fastforce
qed

lemma podLedgersFrom_charges:
  assumes "claim \<in> set cs" and "inst \<in> set (statusInstances claim)"
    and "podLedgersFrom q (Some cs) candidates snapshots noReserve (instPod inst) = Some l"
    and "\<not> instanceGone snapshots claim inst
            (instanceEngine q snapshots noReserve (podsByName candidates) claim inst)"
  shows "instanceEngine q snapshots noReserve (podsByName candidates) claim inst \<in> set (engines l)"
proof -
  let ?l0 = "map_of (rev (map (\<lambda>p. (podName p, initialLedger (snapshots (podName p)) (noReserve (podName p)))) candidates))"
  let ?f = "accountClaim q snapshots noReserve (podsByName candidates)"
  obtain ls acc where run: "fold ?f cs (?l0, {}) = (ls, acc)" by fastforce
  then obtain l1 where l1: "ls (instPod inst) = Some l1" and l: "engines l = engines l1"
    using assms(3) by (auto simp: podLedgersFrom_def Let_def holeFromModels_keeps)
  have "?l0 (instPod inst) \<noteq> None"
  proof
    assume none: "?l0 (instPod inst) = None"
    have "fst st (instPod inst) = None \<Longrightarrow> fst (accountInstance q snapshots noReserve (podsByName candidates) c i st) (instPod inst) = None" for c i st
      by (auto simp: accountInstance_def Let_def split: option.splits)
    then have "fst st (instPod inst) = None \<Longrightarrow> fst (?f c st) (instPod inst) = None" for c st
      unfolding accountClaim_def
      by (intro fold_invariant [where Q = "\<lambda>_. True" and P = "\<lambda>st. fst st (instPod inst) = None"]) simp_all
    then have "fst (fold ?f cs (?l0, {})) (instPod inst) = None"
      using none
      by (intro fold_invariant [where Q = "\<lambda>_. True" and P = "\<lambda>st. fst st (instPod inst) = None"]) simp_all
    then show False using run l1 by simp
  qed
  then show ?thesis
    using claims_charge [OF assms(1,2) _ assms(4), of "(?l0, {})"] run l1 l by auto
qed

lemma accountInstance_accounted:
  "accounted_for snapshots cs (snd st) \<Longrightarrow> claim \<in> set cs \<Longrightarrow> inst \<in> set (statusInstances claim) \<Longrightarrow>
     accounted_for snapshots cs (snd (accountInstance q snapshots noReserve pods claim inst st))"
  by (auto simp: accountInstance_def accounted_for_def Let_def instanceEngine_key split: option.splits)

lemma accountClaim_accounted:
  assumes "accounted_for snapshots cs (snd st)" and "claim \<in> set cs"
  shows "accounted_for snapshots cs (snd (accountClaim q snapshots noReserve pods claim st))"
  unfolding accountClaim_def
  by (rule fold_invariant [where Q = "\<lambda>i. i \<in> set (statusInstances claim)"
        and P = "\<lambda>st. accounted_for snapshots cs (snd st)"])
     (simp_all add: accountInstance_accounted assms)

lemma claims_accounted:
  "accounted_for snapshots cs (snd (fold (accountClaim q snapshots noReserve pods) cs (ledgers, {})))"
  by (rule fold_invariant [where Q = "\<lambda>c. c \<in> set cs" and P = "\<lambda>st. accounted_for snapshots cs (snd st)"])
     (simp_all add: accountClaim_accounted, simp add: accounted_for_def)

lemma holeFromModels_judgeable:
  "judgeable (holeFromModels known ms l) \<Longrightarrow>
     judgeable l \<and> (\<forall>m \<in> set ms. known (snapshotActivityKey m) \<or> (mdlPhase m = ''failed'' \<and> \<not> mdlAlive m))"
  by (induction known ms l rule: holeFromModels.induct) (auto split: if_splits)

section \<open>Wake reserves\<close>

lemma withWakeReserve_loop_sums:
  "withWakeReserve_loop name asked es r h = (r', h', es') \<Longrightarrow> r = i64 r \<Longrightarrow> h = i64 h \<Longrightarrow>
     r' = i64 (r + (sum_list (map engine_minimumReserveBytes es') - sum_list (map engine_minimumReserveBytes es))) \<and>
     h' = i64 (h + (sum_list (map heldBytes es') - sum_list (map heldBytes es)))"
proof (induction name asked es r h arbitrary: r' h' es' rule: withWakeReserve_loop.induct)
  case (2 name asked e es r h)
  show ?case
  proof (cases "wakeReserveSkips name asked e")
    case True
    then obtain es1 where "withWakeReserve_loop name asked es r h = (r', h', es1)" "es' = e # es1"
      using 2(3) by (auto split: prod.splits)
    then show ?thesis using 2(1) [OF True] 2(4,5) by fastforce
  next
    case False
    define e' where "e' = e\<lparr>wakeReserveAsked := asked, withoutWakeReserve := \<not> asked\<rparr>"
    define r1 where "r1 = i64 (i64 (r - engine_minimumReserveBytes e) + engine_minimumReserveBytes e')"
    define h1 where "h1 = i64 (i64 (h - heldBytes e) + heldBytes e')"
    obtain es1 where step: "withWakeReserve_loop name asked es r1 h1 = (r', h', es1)" "es' = e' # es1"
      using 2(3) False by (auto simp: Let_def e'_def r1_def h1_def split: prod.splits)
    have "r' = i64 (r1 + (sum_list (map engine_minimumReserveBytes es1) - sum_list (map engine_minimumReserveBytes es))) \<and>
          h' = i64 (h1 + (sum_list (map heldBytes es1) - sum_list (map heldBytes es)))"
      using 2(2) [OF False e'_def refl refl] step(1) by (simp add: r1_def h1_def)
    then have "r' = i64 (r - engine_minimumReserveBytes e + engine_minimumReserveBytes e'
          + (sum_list (map engine_minimumReserveBytes es1) - sum_list (map engine_minimumReserveBytes es)))"
      "h' = i64 (h - heldBytes e + heldBytes e' + (sum_list (map heldBytes es1) - sum_list (map heldBytes es)))"
      by (simp_all only: r1_def h1_def i64_add_left)
    then show ?thesis using step(2) by (simp add: algebra_simps)
  qed
qed auto

lemma withWakeReserve_sums:
  assumes "ledger_sums l"
  shows "ledger_sums (withWakeReserve l name asked)"
proof -
  obtain r h es where lp: "withWakeReserve_loop name asked (engines l) (totalMinimumReserveBytes l)
      (totalHeldBytes l) = (r, h, es)" by (metis surj_pair)
  show ?thesis
    using withWakeReserve_loop_sums [OF lp] assms lp
    by (simp add: withWakeReserve_def ledger_sums_def i64_add_left)
qed

lemma withWakeReserve_loop_engines:
  "snd (snd (withWakeReserve_loop name asked es r h)) =
     map (\<lambda>e. if wakeReserveSkips name asked e then e
              else e\<lparr>wakeReserveAsked := asked, withoutWakeReserve := \<not> asked\<rparr>) es"
proof (induction es arbitrary: r h)
  case (Cons e es)
  then show ?case
    by (cases "wakeReserveSkips name asked e") (simp_all add: Let_def case_prod_beta)
qed simp

lemma withWakeReserve_engines:
  "engines (withWakeReserve l name asked) =
     map (\<lambda>e. if wakeReserveSkips name asked e then e
              else e\<lparr>wakeReserveAsked := asked, withoutWakeReserve := \<not> asked\<rparr>) (engines l)"
proof -
  obtain r h es where lp: "withWakeReserve_loop name asked (engines l) (totalMinimumReserveBytes l)
      (totalHeldBytes l) = (r, h, es)" by (metis surj_pair)
  then show ?thesis
    using withWakeReserve_loop_engines [of name asked "engines l" "totalMinimumReserveBytes l" "totalHeldBytes l"]
    by (simp add: withWakeReserve_def)
qed

lemma ledger_sums_eqI:
  "ledger_sums l \<Longrightarrow> ledger_sums l' \<Longrightarrow> engines l' = engines l \<Longrightarrow>
     totalMinimumReserveBytes l' = totalMinimumReserveBytes l \<and> totalHeldBytes l' = totalHeldBytes l"
  by (simp add: ledger_sums_def)

lemma withWakeReserve_fields [simp]:
  "hbmUsableBytes (withWakeReserve l n a) = hbmUsableBytes l" "reservedBytes (withWakeReserve l n a) = reservedBytes l"
  "judgeable (withWakeReserve l n a) = judgeable l" "blocked (withWakeReserve l n a) = blocked l"
  "keepsNoWakeReserve (withWakeReserve l n a) = keepsNoWakeReserve l" "unread (withWakeReserve l n a) = unread l"
  "accelerators (withWakeReserve l n a) = accelerators l" "observedAt (withWakeReserve l n a) = observedAt l"
  by (simp_all add: withWakeReserve_def split: prod.splits)

lemma exLedger_from:
  "podLedgersFrom intQuantity (Some exClaims) [exCandidate] exSnapshots (\<lambda>_. True) ''p'' = Some exLedger"
proof -
  have "podLedgersFrom intQuantity (Some exClaims) [exCandidate] exSnapshots (\<lambda>_. True) ''p'' \<noteq> None"
    by code_simp
  then show ?thesis by (auto simp: exLedger_def)
qed

section \<open>Properties\<close>

text \<open>C19. Every account the controller builds keeps its contract: its totals are the sums over the
  engines on the card, and one that may be judged has no hole, a measured card, and engines that
  all declared a cost within bounds.\<close>

theorem accounts_keep_contract:
  assumes "quantity_ok q" and "podLedgersFrom q claims candidates snapshots noReserve name = Some l"
  shows "ledger_ok l"
  using podLedgersFrom_ok [OF assms(1)] assms(2) by (auto simp: accounts_ok_def)

theorem accounts_keep_contract_witness: "ledger_ok exLedger"
  by (rule accounts_keep_contract [OF intQuantity_ok exLedger_from])



text \<open>C25. An account that may be judged sees every engine on its card: each engine its runtime
  reports was matched with a recorded instance, or has failed for good and is dead.\<close>

theorem judgeable_account_sees_every_engine:
  assumes "podLedgersFrom q (Some cs) candidates snapshots noReserve name = Some l" and "judgeable l"
    and "m \<in> set (snapshot_models (snapshots name))"
  shows "mdlPhase m = ''failed'' \<and> \<not> mdlAlive m \<or>
         (\<exists>claim \<in> set cs. \<exists>inst \<in> set (statusInstances claim). instPod inst = name \<and>
            (\<exists>m'. seenModel snapshots claim inst = Some m' \<and> snapshotActivityKey m' = snapshotActivityKey m))"
proof -
  let ?l0 = "map_of (rev (map (\<lambda>p. (podName p, initialLedger (snapshots (podName p)) (noReserve (podName p)))) candidates))"
  obtain ls acc where run: "fold (accountClaim q snapshots noReserve (podsByName candidates)) cs (?l0, {}) = (ls, acc)"
    by fastforce
  then obtain l1 where l: "l = holeFromModels (\<lambda>k. (name, k) \<in> acc) (snapshot_models (snapshots name)) l1"
    using assms(1) by (auto simp: podLedgersFrom_def Let_def)
  have "accounted_for snapshots cs acc"
    using claims_accounted [of snapshots cs q noReserve "podsByName candidates" ?l0] run by simp
  then show ?thesis
    using holeFromModels_judgeable [OF assms(2) [unfolded l]] assms(3)
    by (fastforce simp: accounted_for_def)
qed

theorem judgeable_account_sees_every_engine_witness:
  "\<exists>claim \<in> set exClaims. \<exists>inst \<in> set (statusInstances claim). instPod inst = ''p'' \<and>
     (\<exists>m'. seenModel exSnapshots claim inst = Some m' \<and> snapshotActivityKey m' = ''a'')"
proof -
  have "judgeable exLedger" by code_simp
  moreover have "exModel ''a'' ''sleeping'' 2 10 \<in> set (snapshot_models (exSnapshots ''p''))"
    by (simp add: exSnapshots_def snapshot_models_def)
  ultimately show ?thesis
    using judgeable_account_sees_every_engine [OF exLedger_from] by (fastforce simp: exModel_def snapshotActivityKey_def)
qed

text \<open>Putting a sleeping engine's wake reserve back and taking it off again gives the account
  back as it was, and while it is put back the totals still are the sums over the engines.\<close>

theorem wake_reserve_round_trip:
  assumes "ledger_sums l" and "\<forall>e \<in> set (engines l). claimName e = name \<longrightarrow> \<not> wakeReserveAsked e"
  shows "withWakeReserve (withWakeReserve l name True) name False = l \<and> ledger_sums (withWakeReserve l name True)"
proof -
  let ?l2 = "withWakeReserve (withWakeReserve l name True) name False"
  have eng: "engines ?l2 = engines l"
    using assms(2) by (auto simp: withWakeReserve_engines wakeReserveSkips_def intro!: map_idI)
  moreover have "ledger_sums ?l2" using assms(1) by (simp add: withWakeReserve_sums)
  ultimately have "totalMinimumReserveBytes ?l2 = totalMinimumReserveBytes l \<and> totalHeldBytes ?l2 = totalHeldBytes l"
    using ledger_sums_eqI [OF assms(1)] by blast
  then have "?l2 = l" using eng by (intro podLedger.equality) simp_all
  then show ?thesis using assms(1) by (simp add: withWakeReserve_sums)
qed

theorem wake_reserve_round_trip_witness:
  "withWakeReserve exLedger ''a'' True \<noteq> exLedger \<and>
   withWakeReserve (withWakeReserve exLedger ''a'' True) ''a'' False = exLedger \<and>
   ledger_sums (withWakeReserve exLedger ''a'' True)"
proof -
  have "withWakeReserve exLedger ''a'' True \<noteq> exLedger" "ledger_sums exLedger"
    "\<forall>e \<in> set (engines exLedger). claimName e = ''a'' \<longrightarrow> \<not> wakeReserveAsked e" by code_simp+
  then show ?thesis using wake_reserve_round_trip by blast
qed

end
