(* ===== verification/KvPlan.thy ===== *)
theory KvPlan
  imports KvLedger
begin

text \<open>
  Dividing a card's KV memory among the engines on it
  (\<^verbatim>\<open>src/pkg/controller/modelclaim/kvplan.go\<close>). \<open>planKVLimits\<close> is the divider, loop by loop:
  \<open>kvPlanAccount\<close> is its first loop with the two early returns, \<open>kvPlanShares\<close> the second and
  \<open>kvHandOut\<close> the loop that hands out the bytes integer division leaves over. That last loop
  walks the engines round and round, so it is a \<^theory_text>\<open>partial_function\<close>, and that it ends is
  proved. \<^verbatim>\<open>sort.Slice\<close> is \<^const>\<open>sort_key\<close>, which agrees with it wherever the claim names on a
  card are distinct.
\<close>

section \<open>Weights and shares\<close>

definition boundedActivity :: "int \<Rightarrow> int" where
  "boundedActivity value = (if value < 0 then 0 else if value > 4 then 4 else value)"

definition percentOf :: "int \<Rightarrow> int \<Rightarrow> int" where
  "percentOf value percent =
     i64 (i64 (go_div value 100 * percent)
        + go_div (i64 ((value - go_div value 100 * 100) * percent)) 100)"

definition kvExtraWeight :: "engineOnPod \<Rightarrow> int" where
  "kvExtraWeight e =
     (if asleep e then 0
      else if demandUnknown e then i64 (1 + boundedActivity 9223372036854775807)
      else i64 (1 + boundedActivity (inFlightRequests e)))"

record plannedKVLimit =
  limClaimName :: string
  limModelName :: string
  kvLimitBytes :: int
  limKVCapacityBytes :: int
  limKVRecordedBytes :: int
  limKVInitialCapacityBytes :: "int option"

datatype kv_plan_error =
    NoPerGPUCost string
  | CapacityBelowHeld string
  | HoldMoreThanCard int

definition lowersRecord :: "plannedKVLimit \<Rightarrow> bool" where
  "lowersRecord l \<longleftrightarrow> kvLimitBytes l < limKVRecordedBytes l"

definition clampKVLimit :: "int \<Rightarrow> int option \<Rightarrow> int" where
  "clampKVLimit limit ceiling =
     (case ceiling of
        Some c \<Rightarrow> if c \<ge> 0 \<and> limit > c then c else limit
      | None \<Rightarrow> limit)"

fun kvPlanAccount ::
  "int \<Rightarrow> int \<Rightarrow> engineOnPod list \<Rightarrow> kv_plan_error + (int \<times> int \<times> int list)" where
  "kvPlanAccount un tot [] = Inr (un, tot, [])"
| "kvPlanAccount un tot (e # es) =
     (if maximumFootprintBytes e \<le> 0 \<or> kvFloorBytes e \<le> 0 then Inl (NoPerGPUCost (claimName e))
      else if clampKVLimit (plannedKVHeldBytes e) (kvInitialCapacityBytes e) < plannedKVHeldBytes e
      then Inl (CapacityBelowHeld (claimName e))
      else (case kvPlanAccount (i64 (un - heldBytes e)) (i64 (tot + kvExtraWeight e)) es of
              Inl err \<Rightarrow> Inl err
            | Inr (un', tot', ws) \<Rightarrow> Inr (un', tot', kvExtraWeight e # ws)))"

definition kvShare :: "int \<Rightarrow> int \<Rightarrow> int \<Rightarrow> int" where
  "kvShare un tot w = (if tot > 0 then go_div (i64 (un * w)) tot else 0)"

definition plannedLimit :: "int \<Rightarrow> engineOnPod \<Rightarrow> plannedKVLimit" where
  "plannedLimit extra e =
     \<lparr>limClaimName = claimName e, limModelName = modelName e,
      kvLimitBytes = i64 (plannedKVHeldBytes e + extra),
      limKVCapacityBytes = kvCapacityBytes e, limKVRecordedBytes = kvRecordedBytes e,
      limKVInitialCapacityBytes = kvInitialCapacityBytes e\<rparr>"

fun kvPlanShares ::
  "int \<Rightarrow> int \<Rightarrow> int list \<Rightarrow> engineOnPod list \<Rightarrow> int \<Rightarrow> int \<times> plannedKVLimit list" where
  "kvPlanShares un tot (w # ws) (e # es) given =
     (let extra = kvShare un tot w;
          (given', ls) = kvPlanShares un tot ws es (i64 (given + extra))
      in (given', plannedLimit extra e # ls))"
| "kvPlanShares un tot ws es given = (given, [])"

definition bumpLimit :: "plannedKVLimit \<Rightarrow> plannedKVLimit" where
  "bumpLimit l = l\<lparr>kvLimitBytes := i64 (kvLimitBytes l + 1)\<rparr>"

definition clampPlanned :: "plannedKVLimit \<Rightarrow> plannedKVLimit" where
  "clampPlanned l =
     l\<lparr>kvLimitBytes := clampKVLimit (kvLimitBytes l) (limKVInitialCapacityBytes l)\<rparr>"

partial_function (option) kvHandOut ::
  "int list \<Rightarrow> nat \<Rightarrow> int \<Rightarrow> plannedKVLimit list \<Rightarrow> plannedKVLimit list option" where
  "kvHandOut ws i left ls =
     (if left > 0
      then (if ws ! i = 0 then kvHandOut ws ((i + 1) mod length ls) left ls
            else kvHandOut ws ((i + 1) mod length ls) (left - 1) (ls[i := bumpLimit (ls ! i)]))
      else Some ls)"

declare kvHandOut.simps [code]

definition planKVLimits ::
  "int \<Rightarrow> engineOnPod list \<Rightarrow> (kv_plan_error + plannedKVLimit list) option" where
  "planKVLimits hbm es =
     (if es = [] then Some (Inr [])
      else
        (let ordered = sort_key claimName es
         in case kvPlanAccount hbm 0 ordered of
              Inl err \<Rightarrow> Some (Inl err)
            | Inr (un, tot, ws) \<Rightarrow>
                if un < 0 then Some (Inl (HoldMoreThanCard (i64 (- un))))
                else
                  (let (given, ls) = kvPlanShares un tot ws ordered 0
                   in if tot = 0 then Some (Inr ls)
                      else map_option (\<lambda>ls'. Inr (map clampPlanned ls'))
                             (kvHandOut ws 0 (i64 (un - given)) ls))))"

definition minimumKVLimitChangeBytes :: "int \<Rightarrow> int" where
  "minimumKVLimitChangeBytes hbm =
     (if go_div hbm 100 > 536870912 then go_div hbm 100 else 536870912)"

section \<open>When a card is divided again\<close>

definition shortOfKV :: "engineOnPod \<Rightarrow> bool" where
  "shortOfKV e \<longleftrightarrow>
     (if asleep e \<or> kvCapacityBytes e \<le> 0 then False
      else requestsWaiting e > 0 \<or> demandUnknown e \<or>
           kvUsedBytes e \<ge> i64 (kvCapacityBytes e - go_div (kvCapacityBytes e) 2))"

text \<open>The map \<open>short\<close> of the code keeps the last engine written under a name.\<close>

fun shortEngines :: "engineOnPod list \<Rightarrow> (string \<rightharpoonup> engineOnPod) \<Rightarrow> (string \<rightharpoonup> engineOnPod)" where
  "shortEngines [] m = m"
| "shortEngines (e # es) m =
     shortEngines es (if shortOfKV e then m(claimName e \<mapsto> e) else m)"

fun owedNames :: "(string \<rightharpoonup> engineOnPod) \<Rightarrow> plannedKVLimit list \<Rightarrow> int \<Rightarrow> string list" where
  "owedNames m [] c = []"
| "owedNames m (l # ls) c =
     (case m (limClaimName l) of
        None \<Rightarrow> owedNames m ls c
      | Some e \<Rightarrow>
          (let more = i64 (kvLimitBytes l - kvCapacityBytes e)
           in if more > 0 \<and> more \<ge> c then limClaimName l # owedNames m ls c
              else owedNames m ls c))"

definition shortEnginesOwedMore ::
  "engineOnPod list \<Rightarrow> plannedKVLimit list \<Rightarrow> int \<Rightarrow> string list" where
  "shortEnginesOwedMore es ls c = owedNames (shortEngines es Map.empty) ls c"

definition leftUnfinished :: "engineOnPod list \<Rightarrow> bool" where
  "leftUnfinished es \<longleftrightarrow>
     list_ex (\<lambda>e. kvCapacityBytes e \<ge> 0 \<and> kvCapacityBytes e \<noteq> kvRecordedBytes e) es"

fun atRest :: "engineOnPod list \<Rightarrow> bool" where
  "atRest [] = True"
| "atRest (e # es) =
     (if asleep e then atRest es
      else if inFlightRequests e > 0 \<or> demandUnknown e then False
      else atRest es)"

definition heldToUnderHalf :: "plannedKVLimit list \<Rightarrow> bool" where
  "heldToUnderHalf ls \<longleftrightarrow>
     list_ex (\<lambda>l. limKVCapacityBytes l \<ge> 0 \<and>
                  limKVCapacityBytes l < i64 (kvLimitBytes l - go_div (kvLimitBytes l) 2)) ls"

definition needsDividing ::
  "engineOnPod list \<Rightarrow> plannedKVLimit list \<Rightarrow> int \<Rightarrow> string list \<Rightarrow> bool \<times> string list" where
  "needsDividing es ls c owedBefore =
     (let owed = shortEnginesOwedMore es ls c
      in if list_ex (\<lambda>n. List.member owedBefore n) owed then (True, owed)
         else (leftUnfinished es \<or> (atRest es \<and> heldToUnderHalf ls), owed))"

fun worthWriting :: "plannedKVLimit list \<Rightarrow> int \<Rightarrow> bool" where
  "worthWriting [] c = False"
| "worthWriting (l # ls) c =
     (if limKVCapacityBytes l < 0 then worthWriting ls c
      else
        (let change = i64 (kvLimitBytes l - limKVCapacityBytes l);
             change' = (if change < 0 then i64 (- change) else change)
         in if change' \<ge> c then True else worthWriting ls c))"

section \<open>Writing a plan\<close>

definition shrinks :: "plannedKVLimit \<Rightarrow> bool" where
  "shrinks l \<longleftrightarrow> limKVCapacityBytes l \<ge> 0 \<and> kvLimitBytes l < limKVCapacityBytes l"

definition writable :: "plannedKVLimit \<Rightarrow> bool" where
  "writable l \<longleftrightarrow> \<not> (limKVCapacityBytes l < 0 \<or> limKVCapacityBytes l = kvLimitBytes l)"

text \<open>\<^verbatim>\<open>sort.SliceStable\<close> by "shrinks before does not": a stable sort on a two-valued key.\<close>

definition writeOrder :: "plannedKVLimit list \<Rightarrow> plannedKVLimit list" where
  "writeOrder ls = sort_key (\<lambda>l. \<not> shrinks l) (filter writable ls)"

definition shrinksAndGrows ::
  "plannedKVLimit list \<Rightarrow> plannedKVLimit list \<times> plannedKVLimit list" where
  "shrinksAndGrows ls =
     (filter shrinks (writeOrder ls), filter (\<lambda>l. \<not> shrinks l) (writeOrder ls))"

datatype kv_confirm_error =
    NoLongerOnCard string
  | DidNotTake string int
  | HoldsPast string int int

fun confirmKVLimits :: "runtimeSnapshotModel list \<Rightarrow> plannedKVLimit list \<Rightarrow> kv_confirm_error option" where
  "confirmKVLimits models [] = None"
| "confirmKVLimits models (l # ls) =
     (case find (\<lambda>m. mdlModelName m = limModelName l) models of
        None \<Rightarrow> Some (NoLongerOnCard (limModelName l))
      | Some m \<Rightarrow>
          if mdlKVCapacityBytes m \<noteq> kvLimitBytes l
          then Some (DidNotTake (limModelName l) (kvLimitBytes l))
          else if mdlKVUsedBytes m > kvLimitBytes l
          then Some (HoldsPast (limModelName l) (mdlKVUsedBytes m) (kvLimitBytes l))
          else confirmKVLimits models ls)"

section \<open>Reference definitions the proofs read the loops against\<close>

text \<open>One pass over the weights that adds one to the share of the first \<open>left\<close> engines that
  weigh anything.\<close>

fun bumpExtras :: "int list \<Rightarrow> int \<Rightarrow> int list \<Rightarrow> int list" where
  "bumpExtras (w # ws) left (x # xs) =
     (if left \<le> 0 then x # xs
      else if w = 0 then x # bumpExtras ws left xs
      else (x + 1) # bumpExtras ws (left - 1) xs)"
| "bumpExtras ws left xs = xs"

text \<open>The memory an engine under a planned limit is entitled to: what it is charged now and the
  KV it may map beyond what it holds.\<close>

definition chargedBytes :: "engineOnPod \<Rightarrow> plannedKVLimit \<Rightarrow> int" where
  "chargedBytes e l = heldBytes e + (kvLimitBytes l - plannedKVHeldBytes e)"

definition planSpare :: "int \<Rightarrow> engineOnPod list \<Rightarrow> int" where
  "planSpare hbm es = hbm - sum_list (map heldBytes es)"

definition planWeight :: "engineOnPod list \<Rightarrow> int" where
  "planWeight es = sum_list (map kvExtraWeight es)"

definition declaresCost :: "engineOnPod \<Rightarrow> bool" where
  "declaresCost e \<longleftrightarrow> 0 < maximumFootprintBytes e \<and> 0 < kvFloorBytes e"

definition capacityCoversHeld :: "engineOnPod \<Rightarrow> bool" where
  "capacityCoversHeld e \<longleftrightarrow>
     clampKVLimit (plannedKVHeldBytes e) (kvInitialCapacityBytes e) = plannedKVHeldBytes e"

definition uncapped :: "engineOnPod \<Rightarrow> bool" where
  "uncapped e \<longleftrightarrow> kvInitialCapacityBytes e = None \<or> the (kvInitialCapacityBytes e) < 0"

text \<open>What the code computes, without the loops and without the wrap-around: the first engine in
  claim order that the account refuses, and otherwise the share of each engine.\<close>

definition planExtras :: "int \<Rightarrow> engineOnPod list \<Rightarrow> int list" where
  "planExtras hbm es =
     (let u = planSpare hbm es; t = planWeight es; ws = map kvExtraWeight es;
          xs = map (\<lambda>w. u * w div t) ws
      in if t = 0 then map (\<lambda>_. 0) es else bumpExtras ws (u - sum_list xs) xs)"

definition planRefusal :: "engineOnPod \<Rightarrow> kv_plan_error" where
  "planRefusal e =
     (if declaresCost e then CapacityBelowHeld (claimName e) else NoPerGPUCost (claimName e))"

definition planReference :: "int \<Rightarrow> engineOnPod list \<Rightarrow> kv_plan_error + plannedKVLimit list" where
  "planReference hbm es =
     (let ordered = sort_key claimName es
      in case find (\<lambda>e. \<not> (declaresCost e \<and> capacityCoversHeld e)) ordered of
           Some e \<Rightarrow> Inl (planRefusal e)
         | None \<Rightarrow>
             if planSpare hbm es < 0 then Inl (HoldMoreThanCard (- planSpare hbm es))
             else Inr (map clampPlanned (map2 plannedLimit (planExtras hbm ordered) ordered)))"

text \<open>The limits in force while a plan is being written: the engines already written are at
  their planned limit, the others at the limit they had.\<close>

definition limitInForce :: "plannedKVLimit list \<Rightarrow> plannedKVLimit \<Rightarrow> int" where
  "limitInForce written l = (if l \<in> set written then kvLimitBytes l else limKVCapacityBytes l)"

text \<open>The KV the engine of a planned limit has mapped, by a later reading of the card.\<close>

definition mappedBytes :: "runtimeSnapshotModel list \<Rightarrow> plannedKVLimit \<Rightarrow> int" where
  "mappedBytes models l =
     (case find (\<lambda>m. mdlModelName m = limModelName l) models of
        Some m \<Rightarrow> mdlKVUsedBytes m
      | None \<Rightarrow> 0)"

text \<open>A card of 100 bytes with two engines, on which the concrete instances below are computed.\<close>

definition exEngine :: "string \<Rightarrow> int \<Rightarrow> engineOnPod" where
  "exEngine name requests =
     \<lparr>maximumFootprintBytes = 20, kvFloorBytes = 4, claimName = name, modelName = name,
      snapshotKey = name, kvUsedBytes = 6, kvCapacityBytes = 10, kvInitialCapacityBytes = None,
      kvRecordedBytes = 10, inFlightRequests = requests, requestsWaiting = 0,
      demandUnknown = False, asleep = False, sleepingFootprintBytes = 0,
      withoutWakeReserve = False, wakeReserveAsked = False\<rparr>"

definition exPlanned :: "string \<Rightarrow> int \<Rightarrow> plannedKVLimit" where
  "exPlanned name limit =
     \<lparr>limClaimName = name, limModelName = name, kvLimitBytes = limit, limKVCapacityBytes = 10,
      limKVRecordedBytes = 10, limKVInitialCapacityBytes = None\<rparr>"

definition exCard :: "engineOnPod list" where
  "exCard = [exEngine ''b'' 3, exEngine ''a'' 0]"

definition exPlan :: "plannedKVLimit list" where
  "exPlan = [exPlanned ''a'' 16, exPlanned ''b'' 44]"

definition exReading :: "runtimeSnapshotModel list" where
  "exReading = [exModel ''b'' ''active'' 40 44, exModel ''a'' ''active'' 16 16]"

definition exSettled :: "engineOnPod list" where
  "exSettled =
     [(exEngine ''b'' 3)\<lparr>kvCapacityBytes := 44, kvRecordedBytes := 44\<rparr>,
      (exEngine ''a'' 0)\<lparr>kvCapacityBytes := 16, kvRecordedBytes := 16\<rparr>]"

definition exSettledPlan :: "plannedKVLimit list" where
  "exSettledPlan =
     [(exPlanned ''a'' 16)\<lparr>limKVCapacityBytes := 16, limKVRecordedBytes := 16\<rparr>,
      (exPlanned ''b'' 44)\<lparr>limKVCapacityBytes := 44, limKVRecordedBytes := 44\<rparr>]"

section \<open>The leftover loop ends\<close>

lemma kvHandOut_advance:
  assumes n: "length ls = length ws" "0 < length ws" and left: "0 < left"
    and IH: "\<And>i ls'. i < length ws \<Longrightarrow> length ls' = length ws \<Longrightarrow>
               \<exists>r. kvHandOut ws i (left - 1) ls' = Some r \<and> length r = length ws"
  shows "i < length ws \<Longrightarrow> ws ! ((i + d) mod length ws) \<noteq> 0 \<Longrightarrow>
           \<exists>r. kvHandOut ws i left ls = Some r \<and> length r = length ws"
proof (induction d arbitrary: i)
  case 0
  then show ?case
    using n left IH [of "(i + 1) mod length ws" "ls[i := bumpLimit (ls ! i)]"]
    by (subst kvHandOut.simps) simp
next
  case (Suc d)
  have "ws ! (((i + 1) mod length ws + d) mod length ws) \<noteq> 0"
    using Suc.prems(2) by (simp add: mod_add_left_eq)
  then have next_step: "\<exists>r. kvHandOut ws ((i + 1) mod length ws) left ls = Some r \<and> length r = length ws"
    using n Suc.IH [of "(i + 1) mod length ws"] by simp
  show ?case
    using n left next_step IH [of "(i + 1) mod length ws" "ls[i := bumpLimit (ls ! i)]"]
    by (subst kvHandOut.simps) simp
qed

lemma kvHandOut_returns_nat:
  assumes "j < length ws" "ws ! j \<noteq> 0"
  shows "i < length ws \<Longrightarrow> length ls = length ws \<Longrightarrow> nat left \<le> k \<Longrightarrow>
           \<exists>r. kvHandOut ws i left ls = Some r \<and> length r = length ws"
proof (induction k arbitrary: i left ls)
  case 0
  then show ?case by (subst kvHandOut.simps) simp
next
  case (Suc k)
  show ?case
  proof (cases "0 < left")
    case True
    have "(i + (j + length ws - i)) mod length ws = j"
      using Suc.prems(1) assms(1) by simp
    then have "ws ! ((i + (j + length ws - i)) mod length ws) \<noteq> 0"
      using assms(2) by simp
    then show ?thesis
      using True Suc.prems Suc.IH kvHandOut_advance [of ls ws left i "j + length ws - i"]
      by fastforce
  next
    case False
    then show ?thesis using Suc.prems by (subst kvHandOut.simps) simp
  qed
qed

lemmas kvHandOut_returns = kvHandOut_returns_nat [OF _ _ _ _ order_refl]

section \<open>Each engine that weighs anything gets at most one leftover byte\<close>

lemma bumpLimit_planned: "bumpLimit (plannedLimit x e) = plannedLimit (x + 1) e"
  by (simp add: bumpLimit_def plannedLimit_def i64_add_left add.assoc)

lemma length_bumpExtras [simp]: "length (bumpExtras ws left xs) = length xs"
  by (induction ws left xs rule: bumpExtras.induct) auto

lemma bumpExtras_nonpos: "left \<le> 0 \<Longrightarrow> bumpExtras ws left xs = xs"
  by (cases "(ws, left, xs)" rule: bumpExtras.cases) auto

lemma kvHandOut_once:
  assumes "length es = length ws"
  shows "length xs = length ws \<Longrightarrow> i \<le> length ws \<Longrightarrow>
    left \<le> int (length (filter (\<lambda>w. w \<noteq> 0) (drop i ws))) \<Longrightarrow>
    kvHandOut ws (i mod length ws) left (map2 plannedLimit xs es)
      = Some (map2 plannedLimit (take i xs @ bumpExtras (drop i ws) left (drop i xs)) es)"
proof (induction "length ws - i" arbitrary: i left xs)
  case 0
  then show ?case by (subst kvHandOut.simps) simp
next
  case (Suc k)
  then have i: "i < length ws" by simp
  have k: "k = length ws - (i + 1)" using Suc.hyps(2) by simp
  have ws: "drop i ws = ws ! i # drop (i + 1) ws" and xs: "drop i xs = xs ! i # drop (i + 1) xs"
    using i Suc.prems(1) by (simp_all add: Cons_nth_drop_Suc)
  have upd: "(map2 plannedLimit xs es)[i := bumpLimit (map2 plannedLimit xs es ! i)]
               = map2 plannedLimit (xs[i := xs ! i + 1]) es"
    using i Suc.prems(1) assms
    by (auto intro!: nth_equalityI simp: bumpLimit_planned nth_list_update)
  show ?case
  proof (cases "0 < left")
    case False
    then show ?thesis by (subst kvHandOut.simps) (simp add: bumpExtras_nonpos)
  next
    case True
    consider (skip) "ws ! i = 0" | (give) "ws ! i \<noteq> 0" by blast
    then show ?thesis
    proof cases
      case skip
      then have "kvHandOut ws ((i + 1) mod length ws) left (map2 plannedLimit xs es)
        = Some (map2 plannedLimit (take (i + 1) xs @ bumpExtras (drop (i + 1) ws) left (drop (i + 1) xs)) es)"
        using i Suc.prems by (intro Suc.hyps(1) [OF k]) (simp_all add: ws)
      then show ?thesis using i True skip Suc.prems(1) assms
        by (subst kvHandOut.simps) (simp add: ws xs take_Suc_conv_app_nth)
    next
      case give
      let ?ys = "xs[i := xs ! i + 1]"
      have "kvHandOut ws ((i + 1) mod length ws) (left - 1) (map2 plannedLimit ?ys es)
        = Some (map2 plannedLimit (take (i + 1) ?ys @ bumpExtras (drop (i + 1) ws) (left - 1) (drop (i + 1) ?ys)) es)"
        using i give Suc.prems by (intro Suc.hyps(1) [OF k]) (simp_all add: ws)
      moreover have "take (i + 1) ?ys = take i xs @ [xs ! i + 1]" "drop (i + 1) ?ys = drop (i + 1) xs"
        using i Suc.prems(1) by (simp_all add: take_Suc_conv_app_nth)
      ultimately show ?thesis using i True give Suc.prems(1) assms upd
        by (subst kvHandOut.simps) (simp add: ws xs)
    qed
  qed
qed

lemma sum_bumpExtras:
  "length ws = length xs \<Longrightarrow> 0 \<le> left \<Longrightarrow> left \<le> int (length (filter (\<lambda>w. w \<noteq> 0) ws)) \<Longrightarrow>
     sum_list (bumpExtras ws left xs) = sum_list xs + left"
  by (induction ws left xs rule: bumpExtras.induct) auto

lemma bumpExtras_nth:
  "length ws = length xs \<Longrightarrow> k < length xs \<Longrightarrow>
     xs ! k \<le> bumpExtras ws left xs ! k \<and> bumpExtras ws left xs ! k \<le> xs ! k + 1 \<and>
     (ws ! k = 0 \<longrightarrow> bumpExtras ws left xs ! k = xs ! k)"
  by (induction ws left xs arbitrary: k rule: bumpExtras.induct) (auto simp: nth_Cons split: nat.splits)

lemma floor_shares_sum:
  assumes "0 < (t::int)"
  shows "t * sum_list (map (\<lambda>w. u * w div t) ws) \<le> u * sum_list ws"
    and "u * sum_list ws \<le> t * (sum_list (map (\<lambda>w. u * w div t) ws)
            + int (length (filter (\<lambda>w. w \<noteq> 0) ws)))"
proof -
  have "t * sum_list (map (\<lambda>w. u * w div t) ws) \<le> u * sum_list ws \<and>
        u * sum_list ws \<le> t * (sum_list (map (\<lambda>w. u * w div t) ws)
            + int (length (filter (\<lambda>w. w \<noteq> 0) ws)))"
  proof (induction ws)
    case (Cons w ws)
    define q where "q = u * w div t"
    have "t * q \<le> u * w" "u * w \<le> t * q + t"
      using assms pos_mod_bound [of t "u * w"] pos_mod_sign [of t "u * w"]
      by (simp_all add: q_def minus_mod_eq_mult_div [symmetric] order_less_imp_le)
    moreover have "w = 0 \<Longrightarrow> q = 0" by (simp add: q_def)
    ultimately show ?case using Cons
      by (cases "w = 0") (simp_all add: distrib_left flip: q_def)
  qed simp
  then show "t * sum_list (map (\<lambda>w. u * w div t) ws) \<le> u * sum_list ws"
    and "u * sum_list ws \<le> t * (sum_list (map (\<lambda>w. u * w div t) ws)
            + int (length (filter (\<lambda>w. w \<noteq> 0) ws)))" by auto
qed

section \<open>The divider agrees with its reference\<close>

lemma kvExtraWeight_range: "0 \<le> kvExtraWeight e \<and> kvExtraWeight e \<le> 5"
  by (auto simp: kvExtraWeight_def boundedActivity_def wrap_simps)

lemma kvExtraWeight_0: "kvExtraWeight e = 0 \<longleftrightarrow> asleep e"
  by (auto simp: kvExtraWeight_def boundedActivity_def wrap_simps)

lemma clamp_le: "clampKVLimit x c \<le> x"
  by (auto simp: clampKVLimit_def split: option.splits)

lemma kvPlanAccount_eq:
  assumes "\<forall>e \<in> set es. engine_sane e"
    and "2 * pebi * int (length es) - 4611686018427387904 \<le> un" "un \<le> 4611686018427387904"
    and "0 \<le> tot" "tot + 5 * int (length es) \<le> 4611686018427387904"
  shows "kvPlanAccount un tot es =
     (case find (\<lambda>e. \<not> (declaresCost e \<and> capacityCoversHeld e)) es of
        Some e \<Rightarrow> Inl (planRefusal e)
      | None \<Rightarrow> Inr (un - sum_list (map heldBytes es), tot + planWeight es, map kvExtraWeight es))"
  using assms
proof (induction es arbitrary: un tot)
  case (Cons e es)
  have h: "0 \<le> heldBytes e" "heldBytes e \<le> 2 * pebi" using Cons.prems(1) held_range [of e] by auto
  have w: "0 \<le> kvExtraWeight e" "kvExtraWeight e \<le> 5" using kvExtraWeight_range [of e] by auto
  have un: "i64 (un - heldBytes e) = un - heldBytes e"
    using h Cons.prems(2,3) by (intro i64_id) (simp_all add: pebi_def)
  have tot: "i64 (tot + kvExtraWeight e) = tot + kvExtraWeight e"
    using w Cons.prems(4,5) by (intro i64_id) simp_all
  have cover: "clampKVLimit (plannedKVHeldBytes e) (kvInitialCapacityBytes e) < plannedKVHeldBytes e
               \<longleftrightarrow> \<not> capacityCoversHeld e"
    using clamp_le [of "plannedKVHeldBytes e"] by (auto simp: capacityCoversHeld_def order_less_le)
  have "kvPlanAccount (un - heldBytes e) (tot + kvExtraWeight e) es =
     (case find (\<lambda>e. \<not> (declaresCost e \<and> capacityCoversHeld e)) es of
        Some e \<Rightarrow> Inl (planRefusal e)
      | None \<Rightarrow> Inr (un - heldBytes e - sum_list (map heldBytes es),
                     tot + kvExtraWeight e + planWeight es, map kvExtraWeight es))"
    using h w Cons.prems by (intro Cons.IH) (simp_all add: algebra_simps)
  then show ?case
    by (auto simp: un tot cover planRefusal_def declaresCost_def planWeight_def algebra_simps
             split: option.splits)
qed (simp add: planWeight_def)

lemma kvPlanShares_eq:
  "length ws = length es \<Longrightarrow> given = i64 given \<Longrightarrow>
     kvPlanShares un tot ws es given =
       (i64 (given + sum_list (map (kvShare un tot) ws)), map2 plannedLimit (map (kvShare un tot) ws) es)"
proof (induction un tot ws es given rule: kvPlanShares.induct)
  case (1 un tot w ws e es given)
  then show ?case by (simp add: Let_def i64_add_left add.assoc)
qed auto

lemma kvShare_eq:
  "0 \<le> un \<Longrightarrow> un \<le> pebi \<Longrightarrow> 0 \<le> w \<Longrightarrow> w \<le> 5 \<Longrightarrow> 0 < tot \<Longrightarrow> kvShare un tot w = un * w div tot"
proof -
  assume a: "0 \<le> un" "un \<le> pebi" "0 \<le> w" "w \<le> 5" "0 < tot"
  then have "0 \<le> un * w" "un * w \<le> pebi * 5" by (simp_all add: mult_mono)
  then have "i64 (un * w) = un * w" by (intro i64_id) (simp_all add: pebi_def)
  then show ?thesis using a \<open>0 \<le> un * w\<close> by (simp add: kvShare_def)
qed

lemma clampPlanned_covered:
  "engine_sane e \<Longrightarrow> capacityCoversHeld e \<Longrightarrow> clampPlanned (plannedLimit 0 e) = plannedLimit 0 e"
  using plannedKVHeld_range [of e]
  by (simp add: clampPlanned_def plannedLimit_def capacityCoversHeld_def i64_id pebi_def)

lemma planWeight_nonneg: "0 \<le> planWeight es"
  unfolding planWeight_def by (rule sum_list_nonneg_int) (simp add: kvExtraWeight_range)

lemma planWeight_0: "planWeight es = 0 \<longleftrightarrow> (\<forall>e \<in> set es. asleep e)"
proof -
  have "sum_list (map kvExtraWeight es) = 0 \<longleftrightarrow> (\<forall>x \<in> set (map kvExtraWeight es). x = 0)"
    by (rule sum_list_nonneg_eq_0_iff) (auto simp: kvExtraWeight_range)
  then show ?thesis by (simp add: planWeight_def kvExtraWeight_0)
qed

lemma floor_leftover:
  fixes hbm :: int and es :: "engineOnPod list"
  assumes t: "planWeight es \<noteq> 0"
  defines "ws \<equiv> map kvExtraWeight es"
  defines "xs \<equiv> map (\<lambda>w. planSpare hbm es * w div planWeight es) ws"
  shows "0 \<le> planSpare hbm es - sum_list xs"
    and "planSpare hbm es - sum_list xs \<le> int (length (filter (\<lambda>w. w \<noteq> 0) ws))"
proof -
  let ?u = "planSpare hbm es" and ?t = "planWeight es"
  have t': "0 < ?t" using t planWeight_nonneg [of es] by simp
  have "sum_list ws = ?t" by (simp add: ws_def planWeight_def)
  then have a: "?t * sum_list xs \<le> ?t * ?u"
    and b: "?t * ?u \<le> ?t * (sum_list xs + int (length (filter (\<lambda>w. w \<noteq> 0) ws)))"
    using floor_shares_sum [OF t', of ?u ws] unfolding xs_def by (simp_all add: mult.commute)
  show "0 \<le> ?u - sum_list xs" using a t' by simp
  have "?u \<le> sum_list xs + int (length (filter (\<lambda>w. w \<noteq> 0) ws))"
    using b t' by (simp only: mult_le_cancel_left_pos)
  then show "?u - sum_list xs \<le> int (length (filter (\<lambda>w. w \<noteq> 0) ws))" by simp
qed

lemma planSpare_le: "card_sane hbm es \<Longrightarrow> planSpare hbm es \<le> pebi"
  unfolding planSpare_def card_sane_def using sum_list_nonneg_int [of es heldBytes] held_range
  by fastforce

lemma planSpare_ge: "card_sane hbm es \<Longrightarrow> - (2048 * pebi) \<le> planSpare hbm es"
proof -
  assume s: "card_sane hbm es"
  then have "sum_list (map heldBytes es) \<le> 2 * pebi * int (length es)"
    by (intro sum_list_bound_int) (simp add: card_sane_def held_range)
  moreover have "2 * pebi * int (length es) \<le> 2 * pebi * 1024"
    using s by (intro mult_left_mono) (simp_all add: card_sane_def pebi_def)
  ultimately show ?thesis using s by (simp add: planSpare_def card_sane_def)
qed

lemma planSpare_sort [simp]: "planSpare hbm (sort_key k es) = planSpare hbm es"
  by (simp add: planSpare_def)

lemma planWeight_sort [simp]: "planWeight (sort_key k es) = planWeight es"
  by (simp add: planWeight_def)

lemma length_planExtras [simp]: "length (planExtras hbm es) = length es"
  by (simp add: planExtras_def Let_def)

lemma card_sane_sort [simp]: "card_sane hbm (sort_key k es) = card_sane hbm es"
  by (simp add: card_sane_def)

text \<open>The shares the code computes for engines in claim order, loops and wrap-around included.\<close>

lemma kvPlan_shares_handed_out:
  assumes s: "card_sane hbm es" and u: "0 \<le> planSpare hbm es" and t: "planWeight es \<noteq> 0"
  shows "kvPlanShares (planSpare hbm es) (planWeight es) (map kvExtraWeight es) es 0 = (given, ls) \<Longrightarrow>
    kvHandOut (map kvExtraWeight es) 0 (i64 (planSpare hbm es - given)) ls
      = Some (map2 plannedLimit (planExtras hbm es) es)"
proof -
  let ?u = "planSpare hbm es" and ?t = "planWeight es" and ?ws = "map kvExtraWeight es"
  let ?xs = "map (\<lambda>w. ?u * w div ?t) ?ws"
  assume "kvPlanShares ?u ?t ?ws es 0 = (given, ls)"
  moreover have sh: "map (kvShare ?u ?t) ?ws = ?xs"
    using u t planSpare_le [OF s] planWeight_nonneg [of es]
    by (auto intro!: kvShare_eq simp: kvExtraWeight_range)
  ultimately have g: "given = i64 (sum_list ?xs)" and ls: "ls = map2 plannedLimit ?xs es"
    using kvPlanShares_eq [of ?ws es 0 ?u ?t] by (simp_all only: length_map i64_0 add_0 prod.inject)
  note left = floor_leftover [OF t, of hbm]
  have "0 \<le> sum_list ?xs"
    using u planWeight_nonneg [of es] kvExtraWeight_range
    by (intro sum_list_nonneg_int) (auto intro!: pos_imp_zdiv_nonneg_iff [THEN iffD2] div_int_pos_iff [THEN iffD2])
  then have "given = sum_list ?xs" and "i64 (?u - given) = ?u - given"
    using g left(1) planSpare_le [OF s] by (simp_all add: i64_id pebi_def)
  then show ?thesis
    using kvHandOut_once [of es ?ws ?xs 0 "?u - sum_list ?xs"] left(2) t
    by (simp add: ls planExtras_def Let_def)
qed

lemma planKVLimits_eq_reference:
  assumes s: "card_sane hbm es"
  shows "planKVLimits hbm es = Some (planReference hbm es)"
proof (cases "es = []")
  case True
  then show ?thesis using s
    by (simp add: planKVLimits_def planReference_def planSpare_def planExtras_def planWeight_def card_sane_def)
next
  case False
  let ?o = "sort_key claimName es"
  have so: "card_sane hbm ?o" using s by simp
  have acc: "kvPlanAccount hbm 0 ?o =
     (case find (\<lambda>e. \<not> (declaresCost e \<and> capacityCoversHeld e)) ?o of
        Some e \<Rightarrow> Inl (planRefusal e)
      | None \<Rightarrow> Inr (planSpare hbm es, planWeight es, map kvExtraWeight ?o))"
    using so kvPlanAccount_eq [of ?o hbm 0]
    by (simp add: card_sane_def pebi_def planSpare_def split: option.split)
  show ?thesis
  proof (cases "find (\<lambda>e. \<not> (declaresCost e \<and> capacityCoversHeld e)) ?o")
    case (Some e)
    then show ?thesis using False acc by (simp add: planKVLimits_def planReference_def Let_def)
  next
    case None
    then have cov: "\<forall>e \<in> set ?o. capacityCoversHeld e" by (auto simp: find_None_iff)
    obtain given ls where sh: "kvPlanShares (planSpare hbm es) (planWeight es) (map kvExtraWeight ?o) ?o 0
       = (given, ls)" by fastforce
    have neg: "planSpare hbm es < 0 \<Longrightarrow> i64 (- planSpare hbm es) = - planSpare hbm es"
      using planSpare_ge [OF s] by (intro i64_id) (simp_all add: pebi_def)
    have mem: "\<And>i. i < length es \<Longrightarrow> ?o ! i \<in> set es" by (metis length_sort nth_mem set_sort)
    have zero: "planWeight es = 0 \<Longrightarrow> ls = map clampPlanned (map2 plannedLimit (planExtras hbm ?o) ?o)"
      using sh cov so kvPlanShares_eq [of "map kvExtraWeight ?o" ?o 0 "planSpare hbm es" "planWeight es"]
      by (auto simp: planExtras_def kvShare_def card_sane_def mem
            intro!: nth_equalityI clampPlanned_covered [symmetric])
    have pos: "0 \<le> planSpare hbm es \<Longrightarrow> planWeight es \<noteq> 0 \<Longrightarrow>
      kvHandOut (map kvExtraWeight ?o) 0 (i64 (planSpare hbm es - given)) ls
        = Some (map2 plannedLimit (planExtras hbm ?o) ?o)"
      using kvPlan_shares_handed_out [OF so] sh by simp
    show ?thesis
      using False acc None sh neg zero pos
      by (auto simp: planKVLimits_def planReference_def Let_def)
  qed
qed

section \<open>What a plan gives\<close>

lemma sum_planExtras:
  assumes "planWeight es \<noteq> 0"
  shows "sum_list (planExtras hbm es) = planSpare hbm es"
proof -
  let ?ws = "map kvExtraWeight es"
  let ?xs = "map (\<lambda>w. planSpare hbm es * w div planWeight es) ?ws"
  have "sum_list (bumpExtras ?ws (planSpare hbm es - sum_list ?xs) ?xs)
        = sum_list ?xs + (planSpare hbm es - sum_list ?xs)"
    using floor_leftover [OF assms, of hbm] by (intro sum_bumpExtras) simp_all
  then show ?thesis using assms by (simp add: planExtras_def Let_def)
qed

lemma planExtras_nth:
  assumes "k < length es" "planWeight es \<noteq> 0"
  shows "planSpare hbm es * kvExtraWeight (es ! k) div planWeight es \<le> planExtras hbm es ! k"
    and "planExtras hbm es ! k \<le> planSpare hbm es * kvExtraWeight (es ! k) div planWeight es + 1"
    and "asleep (es ! k) \<Longrightarrow> planExtras hbm es ! k = 0"
proof -
  let ?ws = "map kvExtraWeight es"
  let ?xs = "map (\<lambda>w. planSpare hbm es * w div planWeight es) ?ws"
  note b = bumpExtras_nth [of ?ws ?xs k "planSpare hbm es - sum_list ?xs"]
  show "planSpare hbm es * kvExtraWeight (es ! k) div planWeight es \<le> planExtras hbm es ! k"
    and "planExtras hbm es ! k \<le> planSpare hbm es * kvExtraWeight (es ! k) div planWeight es + 1"
    using b assms by (simp_all add: planExtras_def Let_def)
  assume "asleep (es ! k)"
  then have "?ws ! k = 0" using assms(1) kvExtraWeight_0 by simp
  then show "planExtras hbm es ! k = 0" using b assms by (simp add: planExtras_def Let_def)
qed

lemma planExtras_range:
  assumes "k < length es" "0 \<le> planSpare hbm es"
  shows "0 \<le> planExtras hbm es ! k" and "planExtras hbm es ! k \<le> planSpare hbm es"
proof -
  have nn: "\<And>k. k < length es \<Longrightarrow> 0 \<le> planExtras hbm es ! k"
  proof (cases "planWeight es = 0")
    case False
    fix k assume "k < length es"
    moreover have "0 \<le> planSpare hbm es * kvExtraWeight (es ! k) div planWeight es"
      using assms(2) kvExtraWeight_range planWeight_nonneg by (simp add: div_int_pos_iff)
    ultimately show "0 \<le> planExtras hbm es ! k" using planExtras_nth(1) [OF _ False, of k hbm] by simp
  qed (simp add: planExtras_def)
  then show "0 \<le> planExtras hbm es ! k" using assms(1) .
  have "planExtras hbm es ! k \<le> sum_list (planExtras hbm es)"
    using assms(1) nn by (intro member_le_sum_list) (auto simp: in_set_conv_nth)
  then show "planExtras hbm es ! k \<le> planSpare hbm es"
    using assms sum_planExtras [of es hbm] by (cases "planWeight es = 0") (simp_all add: planExtras_def)
qed

text \<open>A plan that succeeds, entry by entry.\<close>

lemma plan_entries:
  assumes s: "card_sane hbm es" and p: "planKVLimits hbm es = Some (Inr ls)"
  defines "ord \<equiv> sort_key claimName es"
  shows "length ls = length ord" and "0 \<le> planSpare hbm es"
    and "\<And>k. k < length ord \<Longrightarrow> ls ! k = clampPlanned (plannedLimit (planExtras hbm ord ! k) (ord ! k))"
    and "\<And>k. k < length ord \<Longrightarrow> capacityCoversHeld (ord ! k)"
    and "\<And>k. k < length ord \<Longrightarrow> engine_sane (ord ! k)"
    and "\<And>k. k < length ord \<Longrightarrow> kvLimitBytes (ls ! k)
           = clampKVLimit (plannedKVHeldBytes (ord ! k) + planExtras hbm ord ! k)
                          (kvInitialCapacityBytes (ord ! k))"
proof -
  have r: "planReference hbm es = Inr ls" using p planKVLimits_eq_reference [OF s] by simp
  then have none: "find (\<lambda>e. \<not> (declaresCost e \<and> capacityCoversHeld e)) ord = None"
    and u: "0 \<le> planSpare hbm es"
    and ls: "ls = map clampPlanned (map2 plannedLimit (planExtras hbm ord) ord)"
    by (auto simp: planReference_def ord_def Let_def split: option.splits if_splits)
  show "length ls = length ord" by (simp add: ls)
  show "0 \<le> planSpare hbm es" by (rule u)
  show n: "\<And>k. k < length ord \<Longrightarrow> ls ! k = clampPlanned (plannedLimit (planExtras hbm ord ! k) (ord ! k))"
    by (simp add: ls)
  show "\<And>k. k < length ord \<Longrightarrow> capacityCoversHeld (ord ! k)"
    using none by (auto simp: find_None_iff)
  show sane: "\<And>k. k < length ord \<Longrightarrow> engine_sane (ord ! k)"
    using card_sane_engine [of hbm ord, OF _ nth_mem] s by (simp add: ord_def)
  fix k assume k: "k < length ord"
  have "plannedKVHeldBytes (ord ! k) + planExtras hbm ord ! k \<le> 2 * pebi"
    "0 \<le> plannedKVHeldBytes (ord ! k) + planExtras hbm ord ! k"
    using k u planExtras_range [of k ord hbm] planSpare_le [OF s] plannedKVHeld_range [OF sane [OF k]]
    by (simp_all add: ord_def)
  then have "i64 (plannedKVHeldBytes (ord ! k) + planExtras hbm ord ! k)
             = plannedKVHeldBytes (ord ! k) + planExtras hbm ord ! k"
    by (intro i64_id) (simp_all add: pebi_def)
  then show "kvLimitBytes (ls ! k)
           = clampKVLimit (plannedKVHeldBytes (ord ! k) + planExtras hbm ord ! k)
                          (kvInitialCapacityBytes (ord ! k))"
    using n [OF k] by (simp add: clampPlanned_def plannedLimit_def)
qed

lemma clamp_ge: "capacityCoversHeld e \<Longrightarrow> 0 \<le> x \<Longrightarrow>
    plannedKVHeldBytes e \<le> clampKVLimit (plannedKVHeldBytes e + x) (kvInitialCapacityBytes e)"
  by (auto simp: capacityCoversHeld_def clampKVLimit_def split: option.splits if_splits)

lemma clamp_uncapped: "uncapped e \<Longrightarrow> clampKVLimit x (kvInitialCapacityBytes e) = x"
  by (auto simp: uncapped_def clampKVLimit_def split: option.splits)

lemma sum_charged_le:
  assumes s: "card_sane hbm es" and p: "planKVLimits hbm es = Some (Inr ls)"
  shows "sum_list (map2 chargedBytes (sort_key claimName es) ls)
           \<le> sum_list (map heldBytes es) + sum_list (planExtras hbm (sort_key claimName es))"
    and "\<forall>e \<in> set es. uncapped e \<Longrightarrow> sum_list (map2 chargedBytes (sort_key claimName es) ls)
           = sum_list (map heldBytes es) + sum_list (planExtras hbm (sort_key claimName es))"
proof -
  let ?o = "sort_key claimName es"
  note en = plan_entries [OF s p]
  have split: "sum_list (map heldBytes es) + sum_list (planExtras hbm ?o)
        = sum_list (map2 (\<lambda>e x. heldBytes e + x) ?o (planExtras hbm ?o))"
    using sum_list_addf [of "\<lambda>(e, x). heldBytes e" snd "zip ?o (planExtras hbm ?o)"]
    by (simp add: case_prod_beta' zip_map_fst_snd map_fst_zip map_snd_zip flip: map_map [unfolded comp_def])
  show "sum_list (map2 chargedBytes ?o ls) \<le> sum_list (map heldBytes es) + sum_list (planExtras hbm ?o)"
    unfolding split
    using en clamp_le by (intro sum_list_mono2)
      (auto simp: chargedBytes_def algebra_simps simp del: length_sort)
  assume un: "\<forall>e \<in> set es. uncapped e"
  have "\<And>k. k < length ?o \<Longrightarrow> uncapped (?o ! k)" using un nth_mem [of _ ?o] by simp
  then have "map2 chargedBytes ?o ls = map2 (\<lambda>e x. heldBytes e + x) ?o (planExtras hbm ?o)"
    using en(1,6) by (intro nth_equalityI) (simp_all add: chargedBytes_def clamp_uncapped)
  then show "sum_list (map2 chargedBytes ?o ls)
             = sum_list (map heldBytes es) + sum_list (planExtras hbm ?o)"
    by (simp only: split)
qed

lemma sum_planExtras_le: "0 \<le> planSpare hbm es \<Longrightarrow> sum_list (planExtras hbm es) \<le> planSpare hbm es"
  using sum_planExtras [of es hbm] by (cases "planWeight es = 0") (simp_all add: planExtras_def)

lemma plan_within_card:
  assumes "card_sane hbm es" and "planKVLimits hbm es = Some (Inr ls)"
  shows "sum_list (map2 chargedBytes (sort_key claimName es) ls) \<le> hbm"
  using sum_charged_le(1) [OF assms] plan_entries(2) [OF assms]
    sum_planExtras_le [of hbm "sort_key claimName es"]
  by (simp add: planSpare_def)

section \<open>Order of writes, confirmation, and rest\<close>

lemma writeOrder_parts:
  "writeOrder ls = filter (\<lambda>l. writable l \<and> shrinks l) ls @ filter (\<lambda>l. writable l \<and> \<not> shrinks l) ls"
  by (simp add: writeOrder_def sort_key_bool conj_commute)

lemma confirm_None:
  "confirmKVLimits models ls = None \<Longrightarrow> l \<in> set ls \<Longrightarrow> mappedBytes models l \<le> kvLimitBytes l"
  by (induction models ls rule: confirmKVLimits.induct)
     (auto simp: mappedBytes_def split: option.splits if_splits)

lemma kvPlanAccount_weights:
  "kvPlanAccount un tot es = Inr (un', tot', ws) \<Longrightarrow> tot = i64 tot \<Longrightarrow>
     length ws = length es \<and> ((\<forall>w \<in> set ws. w = 0) \<longrightarrow> tot' = tot)"
proof (induction un tot es arbitrary: un' tot' ws rule: kvPlanAccount.induct)
  case (2 un tot e es)
  then obtain ws' where "kvPlanAccount (i64 (un - heldBytes e)) (i64 (tot + kvExtraWeight e)) es
      = Inr (un', tot', ws')" and "ws = kvExtraWeight e # ws'"
    by (auto split: if_splits sum.splits)
  moreover have "length ws' = length es \<and> ((\<forall>w \<in> set ws'. w = 0) \<longrightarrow> tot' = i64 (tot + kvExtraWeight e))"
    using 2 calculation(1) by (auto split: if_splits)
  ultimately show ?case using 2(3) by auto
qed simp

lemma length_kvPlanShares:
  "length ws = length es \<Longrightarrow> length (snd (kvPlanShares un tot ws es given)) = length es"
  by (induction un tot ws es given rule: kvPlanShares.induct) (auto simp: Let_def split: prod.splits)

lemma owedNames_none:
  "(\<And>l e. l \<in> set ls \<Longrightarrow> m (limClaimName l) = Some e \<Longrightarrow> kvLimitBytes l = kvCapacityBytes e) \<Longrightarrow>
     owedNames m ls c = []"
  by (induction m ls c rule: owedNames.induct) (auto simp: Let_def split: option.splits)

lemma shortEngines_Some:
  "shortEngines es m n = Some e \<Longrightarrow> m n = Some e \<or> (e \<in> set es \<and> claimName e = n \<and> shortOfKV e)"
  by (induction es m arbitrary: rule: shortEngines.induct) (auto split: if_splits)

lemma plan_fields:
  assumes "card_sane hbm es" and "planKVLimits hbm es = Some (Inr ls)" and "l \<in> set ls"
  shows "\<exists>e \<in> set es. limClaimName l = claimName e \<and> limKVCapacityBytes l = kvCapacityBytes e \<and>
           limKVRecordedBytes l = kvRecordedBytes e \<and> limModelName l = modelName e \<and>
           plannedKVHeldBytes e \<le> kvLimitBytes l"
proof -
  let ?o = "sort_key claimName es"
  note en = plan_entries [OF assms(1,2)]
  obtain k where k: "k < length ?o" "l = ls ! k"
    using assms(3) en(1) by (auto simp: in_set_conv_nth)
  have "?o ! k \<in> set es" using k(1) nth_mem [of k ?o] by simp
  moreover have "plannedKVHeldBytes (?o ! k) \<le> kvLimitBytes l"
    using k en(6) [OF k(1)] clamp_ge [OF en(4) [OF k(1)]] planExtras_range(1) [OF k(1), of hbm] en(2)
    by simp
  ultimately show ?thesis using k en(3) [OF k(1)]
    by (intro bexI [of _ "?o ! k"]) (simp_all add: clampPlanned_def plannedLimit_def)
qed

lemma exCard_sane: "card_sane 100 exCard" and exCard_plan: "planKVLimits 100 exCard = Some (Inr exPlan)"
  by code_simp+

lemma exSettled_sane: "card_sane 100 exSettled"
  and exSettled_plan: "planKVLimits 100 exSettled = Some (Inr exSettledPlan)"
  by code_simp+

section \<open>Properties\<close>

text \<open>C2. A division never promises a card twice: when it succeeds, what every engine is charged
  now together with the KV its new limit lets it map adds up to no more than the card, and no
  engine is given less than the KV it keeps.\<close>

theorem kv_plan_never_oversubscribes:
  assumes "card_sane hbm es" and "planKVLimits hbm es = Some (Inr ls)"
  shows "sum_list (map2 chargedBytes (sort_key claimName es) ls) \<le> hbm \<and>
         list_all2 (\<lambda>e l. limClaimName l = claimName e \<and> plannedKVHeldBytes e \<le> kvLimitBytes l)
           (sort_key claimName es) ls"
proof -
  note en = plan_entries [OF assms]
  have "list_all2 (\<lambda>e l. limClaimName l = claimName e \<and> plannedKVHeldBytes e \<le> kvLimitBytes l)
          (sort_key claimName es) ls"
    using en(1,2) en(3,4,6) clamp_ge planExtras_range(1) [of _ "sort_key claimName es" hbm]
    by (auto simp: list_all2_conv_all_nth clampPlanned_def plannedLimit_def)
  then show ?thesis using plan_within_card [OF assms] by blast
qed

theorem kv_plan_never_oversubscribes_witness:
  "sum_list (map2 chargedBytes (sort_key claimName exCard) exPlan) \<le> 100 \<and>
   list_all2 (\<lambda>e l. limClaimName l = claimName e \<and> plannedKVHeldBytes e \<le> kvLimitBytes l)
     (sort_key claimName exCard) exPlan"
  by (rule kv_plan_never_oversubscribes [OF exCard_sane exCard_plan])

text \<open>C27. The divider always returns: whatever the figures, the loop that hands out the bytes
  left over by integer division ends, so every card gets a plan or an error.\<close>

theorem kv_plan_returns: "\<exists>r. planKVLimits hbm es = Some r"
proof -
  let ?o = "sort_key claimName es"
  have "\<exists>r. kvHandOut ws 0 left ls = Some r"
    if acc: "kvPlanAccount hbm 0 ?o = Inr (un, tot, ws)" and tot: "tot \<noteq> 0" and es: "es \<noteq> []"
      and sh: "kvPlanShares un tot ws ?o 0 = (given, ls)" for un tot ws given ls left
  proof -
    have l: "length ws = length es" and "\<exists>w \<in> set ws. w \<noteq> 0"
      using kvPlanAccount_weights [OF acc] tot by auto
    then obtain j where "j < length ws" "ws ! j \<noteq> 0" by (auto simp: in_set_conv_nth)
    moreover have "length ls = length ws"
      using l sh length_kvPlanShares [of ws ?o un tot 0] by simp
    ultimately show ?thesis using l es kvHandOut_returns [of j ws 0 ls left] by auto
  qed
  then show ?thesis
    by (fastforce simp: planKVLimits_def Let_def split: sum.splits prod.splits)
qed

text \<open>No spare memory is lost: when some engine is awake and no startup capacity caps a
  limit, the charges add up to exactly the card.\<close>

theorem kv_plan_uses_whole_card:
  assumes "card_sane hbm es" and "planKVLimits hbm es = Some (Inr ls)"
    and "\<exists>e \<in> set es. \<not> asleep e" and "\<forall>e \<in> set es. uncapped e"
  shows "sum_list (map2 chargedBytes (sort_key claimName es) ls) = hbm"
proof -
  have "planWeight (sort_key claimName es) \<noteq> 0" using assms(3) planWeight_0 [of es] by auto
  then show ?thesis
    using sum_charged_le(2) [OF assms(1,2,4)] sum_planExtras [of "sort_key claimName es" hbm]
    by (simp add: planSpare_def)
qed

theorem kv_plan_uses_whole_card_witness:
  "sum_list (map2 chargedBytes (sort_key claimName exCard) exPlan) = 100"
proof -
  have "\<exists>e \<in> set exCard. \<not> asleep e" "\<forall>e \<in> set exCard. uncapped e" by code_simp+
  then show ?thesis by (rule kv_plan_uses_whole_card [OF exCard_sane exCard_plan])
qed



text \<open>C17. The loops and the 64-bit arithmetic compute the closed form: within the declared
  bounds no sum or product wraps, the engine refused is the first one in claim order that
  declares no cost or whose startup capacity is below what it keeps, a card that holds more than
  it has is refused with the excess, and otherwise each limit is the share of the reference.\<close>

theorem kv_plan_matches_reference:
  "card_sane hbm es \<Longrightarrow> planKVLimits hbm es = Some (planReference hbm es)"
  by (rule planKVLimits_eq_reference)

theorem kv_plan_matches_reference_witness:
  "planReference 100 exCard = Inr exPlan \<and> planKVLimits 100 exCard = Some (planReference 100 exCard)"
  using kv_plan_matches_reference [OF exCard_sane] exCard_plan by simp

text \<open>A plan does not depend on the order the engines are listed in, so two passes over the
  same card agree to the byte.\<close>

theorem kv_plan_order_independent:
  assumes "mset es = mset es'" and "distinct (map claimName es)"
  shows "planKVLimits hbm es = planKVLimits hbm es'"
proof -
  have "sort_key claimName es = sort_key claimName es'" using assms by (rule sort_key_perm_eq)
  moreover have "es = [] \<longleftrightarrow> es' = []" using assms(1) by (metis mset_zero_iff)
  ultimately show ?thesis by (simp add: planKVLimits_def)
qed

theorem kv_plan_order_independent_witness:
  "planKVLimits 100 exCard = planKVLimits 100 (rev exCard)"
proof -
  have "mset exCard = mset (rev exCard)" "distinct (map claimName exCard)" by (simp, code_simp)
  then show ?thesis by (rule kv_plan_order_independent)
qed

text \<open>Writing a plan in write order never lets the engines hold more than they did before or
  will afterwards: after any number of writes the limits in force add up to at most the larger
  of the sum before the first write and the sum after the last.\<close>

theorem kv_writes_never_exceed:
  "sum_list (map (limitInForce (take n (writeOrder ls))) ls)
     \<le> max (sum_list (map (limitInForce []) ls)) (sum_list (map (limitInForce (writeOrder ls)) ls))"
proof -
  let ?s = "filter (\<lambda>l. writable l \<and> shrinks l) ls" and ?g = "filter (\<lambda>l. writable l \<and> \<not> shrinks l) ls"
  show ?thesis
  proof (cases "n \<le> length ?s")
    case True
    then have "set (take n (writeOrder ls)) \<subseteq> set ?s"
      using set_take_subset [of n ?s] by (simp add: writeOrder_parts)
    then have "sum_list (map (limitInForce (take n (writeOrder ls))) ls)
               \<le> sum_list (map (limitInForce []) ls)"
      by (intro sum_list_map_mono_int) (auto simp: limitInForce_def shrinks_def)
    then show ?thesis by simp
  next
    case False
    then have "set ?s \<subseteq> set (take n (writeOrder ls))" "set (take n (writeOrder ls)) \<subseteq> set (writeOrder ls)"
      using set_take_subset [of n "writeOrder ls"] by (simp_all add: writeOrder_parts)
    moreover have "\<And>l. l \<in> set (writeOrder ls) \<Longrightarrow> l \<notin> set ?s \<Longrightarrow> limKVCapacityBytes l \<le> kvLimitBytes l"
      by (auto simp: writeOrder_parts shrinks_def writable_def)
    ultimately have "sum_list (map (limitInForce (take n (writeOrder ls))) ls)
               \<le> sum_list (map (limitInForce (writeOrder ls)) ls)"
      by (intro sum_list_map_mono_int) (auto simp: limitInForce_def)
    then show ?thesis by simp
  qed
qed

text \<open>A division that a later reading confirms left the card within its memory: the
  footprints of its engines and the KV they have really mapped fit the card.\<close>

theorem kv_confirmed_card_fits:
  assumes "card_sane hbm es" and "planKVLimits hbm es = Some (Inr ls)"
    and "confirmKVLimits models ls = None" and "\<forall>e \<in> set es. \<not> withoutWakeReserve e"
  shows "sum_list (map2 (\<lambda>e l. maximumFootprintBytes e + mappedBytes models l)
           (sort_key claimName es) ls) \<le> hbm"
proof -
  let ?o = "sort_key claimName es"
  note en = plan_entries [OF assms(1,2)]
  have aw: "\<And>k. k < length ?o \<Longrightarrow> \<not> withoutWakeReserve (?o ! k)" using assms(4) nth_mem [of _ ?o] by simp
  have "\<And>k. k < length ?o \<Longrightarrow> maximumFootprintBytes (?o ! k) + mappedBytes models (ls ! k)
          \<le> chargedBytes (?o ! k) (ls ! k)"
    using en(1) en(5) aw confirm_None [OF assms(3) nth_mem]
    by (simp add: chargedBytes_def held_exact plannedKVHeldBytes_def)
  then have "sum_list (map2 (\<lambda>e l. maximumFootprintBytes e + mappedBytes models l) ?o ls)
             \<le> sum_list (map2 chargedBytes ?o ls)"
    using en(1) by (intro sum_list_mono2) auto
  then show ?thesis using plan_within_card [OF assms(1,2)] by linarith
qed

theorem kv_confirmed_card_fits_witness:
  "sum_list (map2 (\<lambda>e l. maximumFootprintBytes e + mappedBytes exReading l)
     (sort_key claimName exCard) exPlan) \<le> 100"
proof -
  have "confirmKVLimits exReading exPlan = None" "\<forall>e \<in> set exCard. \<not> withoutWakeReserve e" by code_simp+
  then show ?thesis by (rule kv_confirmed_card_fits [OF exCard_sane exCard_plan])
qed

text \<open>A card whose plan has been carried out is left alone: when every engine with a segment
  is held to its planned limit and its instance records it, the next round finds no engine owed
  more and does not divide again, and no limit is far enough from the plan to be written.\<close>

theorem kv_divided_card_rests:
  assumes "card_sane hbm es" and "planKVLimits hbm es = Some (Inr ls)" and "distinct (map claimName es)"
    and settled: "\<forall>l \<in> set ls. 0 \<le> limKVCapacityBytes l \<longrightarrow>
           limKVCapacityBytes l = kvLimitBytes l \<and> limKVRecordedBytes l = kvLimitBytes l"
    and "0 < c" and "list_all (\<lambda>e. kvCapacityBytes e \<ge> 0 \<longrightarrow> kvRecordedBytes e = kvCapacityBytes e) es"
  shows "needsDividing es ls c owedBefore = (False, []) \<and> \<not> worthWriting ls c \<and> writeOrder ls = []"
proof -
  have inj: "\<And>e e'. e \<in> set es \<Longrightarrow> e' \<in> set es \<Longrightarrow> claimName e = claimName e' \<Longrightarrow> e = e'"
    using assms(3) by (simp add: distinct_map inj_on_def)
  have pos: "0 \<le> kvLimitBytes l" if "l \<in> set ls" for l
    using plan_fields [OF assms(1,2) that] card_sane_engine [OF assms(1)] plannedKVHeld_range by fastforce
  have owed: "shortEnginesOwedMore es ls c = []"
    unfolding shortEnginesOwedMore_def
  proof (rule owedNames_none)
    fix l e assume l: "l \<in> set ls" and "shortEngines es Map.empty (limClaimName l) = Some e"
    then have e: "e \<in> set es" "claimName e = limClaimName l" "shortOfKV e"
      using shortEngines_Some by fastforce+
    moreover obtain e' where "e' \<in> set es" "limClaimName l = claimName e'" "limKVCapacityBytes l = kvCapacityBytes e'"
      using plan_fields [OF assms(1,2) l] by blast
    ultimately have "limKVCapacityBytes l = kvCapacityBytes e" "0 \<le> limKVCapacityBytes l"
      using inj [of e e'] by (auto simp: shortOfKV_def split: if_splits)
    then show "kvLimitBytes l = kvCapacityBytes e" using settled l by auto
  qed
  have un: "\<not> leftUnfinished es" using assms(6) by (auto simp: leftUnfinished_def list_ex_iff list_all_iff)
  have "i64 (x - go_div x 2) \<le> x" if "0 \<le> x" for x
  proof -
    have "0 \<le> x div 2" "x div 2 \<le> x" using that by simp_all
    then show ?thesis using that i64_le [of "x - x div 2"] by simp
  qed
  then have half: "\<not> heldToUnderHalf ls"
    using settled pos by (fastforce simp: heldToUnderHalf_def list_ex_iff)
  have "\<not> worthWriting ls c"
    using settled \<open>0 < c\<close> by (induction ls c rule: worthWriting.induct) (auto simp: Let_def)
  moreover have "writeOrder ls = []"
    using settled by (auto simp: writeOrder_parts writable_def filter_empty_conv not_less)
  ultimately show ?thesis using owed un half by (simp add: needsDividing_def)
qed

theorem kv_divided_card_rests_witness:
  "needsDividing exSettled exSettledPlan (minimumKVLimitChangeBytes 100) [''a''] = (False, []) \<and>
   \<not> worthWriting exSettledPlan (minimumKVLimitChangeBytes 100) \<and> writeOrder exSettledPlan = []"
proof -
  have "distinct (map claimName exSettled)" "\<forall>l \<in> set exSettledPlan. 0 \<le> limKVCapacityBytes l \<longrightarrow>
           limKVCapacityBytes l = kvLimitBytes l \<and> limKVRecordedBytes l = kvLimitBytes l"
    "0 < minimumKVLimitChangeBytes 100"
    "list_all (\<lambda>e. kvCapacityBytes e \<ge> 0 \<longrightarrow> kvRecordedBytes e = kvCapacityBytes e) exSettled"
    by code_simp+
  then show ?thesis by (rule kv_divided_card_rests [OF exSettled_sane exSettled_plan])
qed

end
