(* ===== verification/ArrangeCard.thy ===== *)
theory ArrangeCard
  imports KvPlan
begin

text \<open>
  Carrying a division of a card out
  (\<open>arrangeCard\<close>, \<open>writeAndConfirmKVLimits\<close>, \<open>takeBackKVLimits\<close>, \<open>recordKVLimit\<close> and
  \<open>makeRoomOnPod\<close> of \<^verbatim>\<open>src/pkg/controller/modelclaim/modelclaim_controller.go\<close>, with
  \<open>division\<close> and \<open>warnKVCapacityBelowFloor\<close> of \<^verbatim>\<open>division.go\<close>).

  A division talks to two systems that are not part of the repository: the runtime of the pod,
  which holds each engine's KV segment to a limit, and the API server, which keeps the record of
  that limit in the claim's status. \<open>cardWorld\<close> holds both beside the controller's own state, and
  \<open>cardOutside\<close> says how each call ends. A call may fail after it took effect, and a write may be
  reported as a success although it reached no segment. \<open>cwPast\<close> is not a field of the code: it
  is the list of the moments a division has gone through, which the claims on its order refer to.
\<close>

section \<open>The world of a card\<close>

text \<open>The limit in force of each engine's segment, by model name, and the instances in each claim's
  status. An engine without a segment has no limit in force.\<close>

type_synonym cardMoment =
  "(string \<rightharpoonup> int) \<times> (string \<rightharpoonup> modelClaimInstance list)"

datatype claimEvent =
    KVLimitSet string string int int int
  | KVCapacityBelowFloor string string int int
  | KVLimitFailed string string int

record cardWorld =
  segments :: "string \<rightharpoonup> int"
  claimStatus :: "string \<rightharpoonup> modelClaimInstance list"
  cwReadings :: runtimeReadings
  cwWarned :: "string \<rightharpoonup> int"
  cwEvents :: "claimEvent list"
  cwCalls :: nat
  cwPast :: "cardMoment list"

definition moment :: "cardWorld \<Rightarrow> cardMoment" where
  "moment w = (segments w, claimStatus w)"

text \<open>A call has moved the world on: the moment it left behind is noted.\<close>

definition called :: "cardWorld \<Rightarrow> cardWorld" where
  "called w = w\<lparr>cwCalls := Suc (cwCalls w), cwPast := cwPast w @ [moment w]\<rparr>"

datatype writeAnswer = Written | WrittenNowhere | FailedUnwritten | FailedWritten

datatype updateAnswer = Updated | UpdateConflict | UpdateFailed | UpdateLost

definition answerTakes :: "writeAnswer \<Rightarrow> bool" where
  "answerTakes a \<longleftrightarrow> a = Written \<or> a = FailedWritten"

definition answerFails :: "writeAnswer \<Rightarrow> bool" where
  "answerFails a \<longleftrightarrow> a = FailedUnwritten \<or> a = FailedWritten"

text \<open>The identity of a write: its kind, claim and value, and the moment the card was read.\<close>

type_synonym operationID = "string \<times> string \<times> int \<times> int"

record cardOutside =
  onSetKVLimit :: "cardWorld \<Rightarrow> string \<Rightarrow> int \<Rightarrow> operationID \<Rightarrow> writeAnswer"
  onSnapshot :: "cardWorld \<Rightarrow> runtimeSnapshot option option"
  onGet :: "cardWorld \<Rightarrow> string \<Rightarrow> bool"
  onStatusUpdate :: "cardWorld \<Rightarrow> string \<Rightarrow> updateAnswer"
  conflictTries :: nat
  nowAt :: "cardWorld \<Rightarrow> int"

definition setKVLimit ::
  "cardOutside \<Rightarrow> string \<Rightarrow> int \<Rightarrow> operationID \<Rightarrow> cardWorld \<Rightarrow> bool \<times> cardWorld" where
  "setKVLimit out model limit operation w =
     (let a = onSetKVLimit out w model limit operation;
          w' = (if answerTakes a \<and> segments w model \<noteq> None
                then w\<lparr>segments := (segments w)(model \<mapsto> limit)\<rparr> else w)
      in (answerFails a, called w'))"

section \<open>Why a card is divided\<close>

record division =
  minimumChangeBytes :: int
  onlyWhenNeeded :: bool
  whyOwedBefore :: "string list"
  announce :: bool

definition placementDivision :: division where
  "placementDivision =
     \<lparr>minimumChangeBytes = 0, onlyWhenNeeded = False, whyOwedBefore = [], announce = True\<rparr>"

definition compositionDivision :: division where
  "compositionDivision =
     \<lparr>minimumChangeBytes = 0, onlyWhenNeeded = False, whyOwedBefore = [], announce = True\<rparr>"

definition loadDivision :: "int \<Rightarrow> division" where
  "loadDivision hbm =
     \<lparr>minimumChangeBytes = minimumKVLimitChangeBytes hbm, onlyWhenNeeded = True, whyOwedBefore = [],
      announce = False\<rparr>"

definition firstDivision :: "int \<Rightarrow> division" where
  "firstDivision hbm = (loadDivision hbm)\<lparr>onlyWhenNeeded := False\<rparr>"

section \<open>Warnings\<close>

definition limitWarningEvery :: int where
  "limitWarningEvery = 300000000000"

definition limitWarningDue ::
  "string \<Rightarrow> int \<Rightarrow> (string \<rightharpoonup> int) \<Rightarrow> bool \<times> (string \<rightharpoonup> int)" where
  "limitWarningDue engine now warned =
     (let kept = (\<lambda>known. case warned known of
                    Some at \<Rightarrow> if now - at \<ge> limitWarningEvery then None else Some at
                  | None \<Rightarrow> None)
      in if kept engine \<noteq> None then (False, kept) else (True, kept(engine \<mapsto> now)))"

definition limitWarningForget :: "string \<Rightarrow> (string \<rightharpoonup> int) \<Rightarrow> (string \<rightharpoonup> int)" where
  "limitWarningForget engine warned = warned(engine := None)"

definition floorWarningKey :: "string \<Rightarrow> string \<Rightarrow> string \<Rightarrow> string" where
  "floorWarningKey ns claim pod =
     ''kv-capacity-below-floor/'' @ ns @ ''/'' @ claim @ ''/'' @ pod"

fun warnKVCapacityBelowFloor ::
  "cardOutside \<Rightarrow> string \<Rightarrow> string \<Rightarrow> engineOnPod list \<Rightarrow> cardWorld \<Rightarrow> cardWorld" where
  "warnKVCapacityBelowFloor out ns pod [] w = w"
| "warnKVCapacityBelowFloor out ns pod (e # es) w =
     (if effectiveKVFloorBytes e \<ge> kvFloorBytes e then warnKVCapacityBelowFloor out ns pod es w
      else
        (let key = floorWarningKey ns (claimName e) pod;
             (isDue, warned) = limitWarningDue key (nowAt out w) (cwWarned w);
             w1 = w\<lparr>cwWarned := warned\<rparr>
         in if \<not> isDue then warnKVCapacityBelowFloor out ns pod es w1
            else if \<not> onGet out w1 (claimName e)
            then warnKVCapacityBelowFloor out ns pod es
                   (called (w1\<lparr>cwWarned := limitWarningForget key (cwWarned w1)\<rparr>))
            else warnKVCapacityBelowFloor out ns pod es
                   (called (w1\<lparr>cwEvents := cwEvents w1 @
                      [KVCapacityBelowFloor (claimName e) (modelName e) (effectiveKVFloorBytes e)
                         (kvFloorBytes e)]\<rparr>))))"

section \<open>The steps of a division\<close>

datatype arrangeError =
    PlanRefused kv_plan_error
  | CardLeftAlone "string list"
  | SetFailed string int
  | ReadBackFailed
  | NotConfirmed kv_confirm_error
  | RecordFailed string int
  | GrowthIncomplete arrangeError

definition forgetReading :: "string \<Rightarrow> cardWorld \<Rightarrow> cardWorld" where
  "forgetReading pod w = w\<lparr>cwReadings := readings_forget pod (cwReadings w)\<rparr>"

definition podRefOf :: "'q corePod \<Rightarrow> podRef" where
  "podRefOf pod = \<lparr>refPodName = podName pod, refPodIP = podIP pod\<rparr>"

fun writeKVLimits ::
  "cardOutside \<Rightarrow> 'q corePod \<Rightarrow> podLedger \<Rightarrow> plannedKVLimit list \<Rightarrow> cardWorld \<Rightarrow>
     plannedKVLimit list \<times> arrangeError option \<times> cardWorld" where
  "writeKVLimits out pod ledger [] w = ([], None, w)"
| "writeKVLimits out pod ledger (l # ls) w =
     (let (failed, w1) = setKVLimit out (limModelName l) (kvLimitBytes l)
                           (''kv-plan'', limClaimName l, kvLimitBytes l, observedAt ledger) w
      in if failed
         then ([], Some (SetFailed (limModelName l) (kvLimitBytes l)), forgetReading (podName pod) w1)
         else (let (written, err, w2) = writeKVLimits out pod ledger ls w1 in (l # written, err, w2)))"

definition writeAndConfirmKVLimits ::
  "cardOutside \<Rightarrow> 'q corePod \<Rightarrow> podLedger \<Rightarrow> plannedKVLimit list \<Rightarrow> cardWorld \<Rightarrow>
     plannedKVLimit list \<times> arrangeError option \<times> cardWorld" where
  "writeAndConfirmKVLimits out pod ledger limits w =
     (if limits = [] then ([], None, w)
      else
        (case writeKVLimits out pod ledger limits w of
           (written, Some err, w1) \<Rightarrow> (written, Some err, w1)
         | (written, None, w1) \<Rightarrow>
             (let w2 = forgetReading (podName pod) w1
              in case onSnapshot out w2 of
                   None \<Rightarrow> (limits, Some ReadBackFailed, called w2)
                 | Some snapshot \<Rightarrow>
                     (let w3 = (if snapshot \<noteq> None
                                then w2\<lparr>cwReadings := readings_replace (podRefOf pod) snapshot (cwReadings w2)\<rparr>
                                else w2)
                      in (limits, map_option NotConfirmed (confirmKVLimits (snapshot_models snapshot) limits),
                          called w3)))))"

definition heldBefore :: "plannedKVLimit \<Rightarrow> int" where
  "heldBefore l =
     (let before = limKVCapacityBytes l;
          before' = (if limKVRecordedBytes l > 0 \<and> limKVRecordedBytes l < before
                     then limKVRecordedBytes l else before)
      in clampKVLimit before' (limKVInitialCapacityBytes l))"

fun takeBackKVLimits ::
  "cardOutside \<Rightarrow> podLedger \<Rightarrow> plannedKVLimit list \<Rightarrow> cardWorld \<Rightarrow> cardWorld" where
  "takeBackKVLimits out ledger [] w = w"
| "takeBackKVLimits out ledger (l # ls) w =
     (if heldBefore l \<le> kvLimitBytes l then takeBackKVLimits out ledger ls w
      else
        (let (failed, w1) = setKVLimit out (limModelName l) (heldBefore l)
                              (''kv-plan-back'', limClaimName l, heldBefore l, observedAt ledger) w
         in if failed then w1 else takeBackKVLimits out ledger ls w1))"

fun recordInstances ::
  "string \<Rightarrow> int \<Rightarrow> modelClaimInstance list \<Rightarrow> bool \<times> modelClaimInstance list" where
  "recordInstances pod limit [] = (False, [])"
| "recordInstances pod limit (i # is) =
     (let (changed, is') = recordInstances pod limit is
      in if instPod i = pod \<and> instKVLimitBytes i \<noteq> limit
         then (True, i\<lparr>instKVLimitBytes := limit\<rparr> # is') else (changed, i # is'))"

text \<open>The try of \<open>recordKVLimit\<close>, made again while the update is refused as a conflict, for as many
  tries as the client library allows. \<^const>\<open>True\<close> stands for an error.\<close>

fun recordKVLimitTry ::
  "cardOutside \<Rightarrow> nat \<Rightarrow> string \<Rightarrow> string \<Rightarrow> int \<Rightarrow> cardWorld \<Rightarrow> bool \<times> cardWorld" where
  "recordKVLimitTry out 0 claim pod limit w = (True, w)"
| "recordKVLimitTry out (Suc n) claim pod limit w =
     (case claimStatus w claim of
        None \<Rightarrow> (True, called w)
      | Some instances \<Rightarrow>
          if \<not> onGet out w claim then (True, called w)
          else
            (let (changed, instances') = recordInstances pod limit instances
             in if \<not> changed then (False, called w)
                else
                  (let a = onStatusUpdate out w claim;
                       w1 = called (if a = Updated \<or> a = UpdateLost
                                    then w\<lparr>claimStatus := (claimStatus w)(claim \<mapsto> instances')\<rparr> else w)
                   in if a = UpdateConflict then recordKVLimitTry out n claim pod limit w1
                      else (a \<noteq> Updated, w1))))"

definition recordKVLimit ::
  "cardOutside \<Rightarrow> string \<Rightarrow> string \<Rightarrow> int \<Rightarrow> cardWorld \<Rightarrow> bool \<times> cardWorld" where
  "recordKVLimit out claim pod limit w = recordKVLimitTry out (conflictTries out) claim pod limit w"

fun recordAll ::
  "cardOutside \<Rightarrow> string \<Rightarrow> plannedKVLimit list \<Rightarrow> cardWorld \<Rightarrow> arrangeError option \<times> cardWorld" where
  "recordAll out pod [] w = (None, w)"
| "recordAll out pod (l # ls) w =
     (let (failed, w1) = recordKVLimit out (limClaimName l) pod (kvLimitBytes l) w
      in if failed then (Some (RecordFailed (limClaimName l) (kvLimitBytes l)), w1)
         else recordAll out pod ls w1)"

definition announcements :: "plannedKVLimit list \<Rightarrow> plannedKVLimit list \<Rightarrow> claimEvent list" where
  "announcements limits written =
     map (\<lambda>l. KVLimitSet (limClaimName l) (limModelName l) (kvLimitBytes l) (limKVCapacityBytes l)
               (int (length limits))) written"

text \<open>The division from its first record on.\<close>

definition recordAndGrow ::
  "cardOutside \<Rightarrow> 'q corePod \<Rightarrow> podLedger \<Rightarrow> division \<Rightarrow> plannedKVLimit list \<Rightarrow> cardWorld \<Rightarrow>
     plannedKVLimit list option \<times> arrangeError option \<times> cardWorld" where
  "recordAndGrow out pod ledger why limits w =
     (case recordAll out (podName pod)
             (filter lowersRecord limits @ filter (\<lambda>l. \<not> lowersRecord l) limits) w of
        (Some err, w1) \<Rightarrow> (None, Some err, w1)
      | (None, w1) \<Rightarrow>
          (let (shrinking, growing) = shrinksAndGrows limits;
               (_, growErr, w2) = writeAndConfirmKVLimits out pod ledger growing w1;
               written = (if growErr = None then shrinking @ growing else shrinking);
               w3 = (if announce why
                     then w2\<lparr>cwEvents := cwEvents w2 @ announcements limits written\<rparr> else w2)
           in (Some limits, map_option GrowthIncomplete growErr, w3)))"

text \<open>The division from its first write on.\<close>

definition carryOut ::
  "cardOutside \<Rightarrow> 'q corePod \<Rightarrow> podLedger \<Rightarrow> division \<Rightarrow> plannedKVLimit list \<Rightarrow> cardWorld \<Rightarrow>
     plannedKVLimit list option \<times> arrangeError option \<times> cardWorld" where
  "carryOut out pod ledger why limits w =
     (case writeAndConfirmKVLimits out pod ledger (fst (shrinksAndGrows limits)) w of
        (written, Some err, w1) \<Rightarrow>
          (None, Some err, forgetReading (podName pod) (takeBackKVLimits out ledger written w1))
      | (_, None, w1) \<Rightarrow> recordAndGrow out pod ledger why limits w1)"

definition arrangeCard ::
  "cardOutside \<Rightarrow> string \<Rightarrow> 'q corePod \<Rightarrow> podLedger \<Rightarrow> engineOnPod list \<Rightarrow> division \<Rightarrow> cardWorld \<Rightarrow>
     (plannedKVLimit list option \<times> arrangeError option \<times> cardWorld) option" where
  "arrangeCard out ns pod ledger es why w =
     (case planKVLimits (plannableBytes ledger) es of
        None \<Rightarrow> None
      | Some (Inl err) \<Rightarrow> Some (None, Some (PlanRefused err), w)
      | Some (Inr limits) \<Rightarrow>
          (let w1 = warnKVCapacityBelowFloor out ns (podName pod) es w;
               (needed, owed) = needsDividing es limits (minimumChangeBytes why) (whyOwedBefore why)
           in Some (if onlyWhenNeeded why \<and> \<not> needed then (Some limits, Some (CardLeftAlone owed), w1)
                    else if minimumChangeBytes why > 0 \<and> \<not> worthWriting limits (minimumChangeBytes why)
                    then (Some limits, Some (CardLeftAlone owed), w1)
                    else carryOut out pod ledger why limits w1)))"

datatype makeRoomError = NotArranged arrangeError | LeftOutOfPlan string string

definition newcomerLimit :: "string \<Rightarrow> string \<Rightarrow> plannedKVLimit list \<Rightarrow> makeRoomError + int" where
  "newcomerLimit claim pod limits =
     (case find (\<lambda>l. limClaimName l = claim) limits of
        Some l \<Rightarrow> Inr (kvLimitBytes l)
      | None \<Rightarrow> Inl (LeftOutOfPlan claim pod))"

definition makeRoomOnPod ::
  "cardOutside \<Rightarrow> 'q modelClaim \<Rightarrow> perGPUBytes \<Rightarrow> 'q corePod \<Rightarrow> podLedger \<Rightarrow> cardWorld \<Rightarrow>
     ((makeRoomError + int) \<times> cardWorld) option" where
  "makeRoomOnPod out pm perGPU pod ledger w =
     (let newcomer = recordedEngine (clmName pm) (servedModelName pm) perGPU 0
      in case arrangeCard out (clmNamespace pm) pod ledger (engines ledger @ [newcomer]) placementDivision w of
           None \<Rightarrow> None
         | Some (limits, err, w') \<Rightarrow>
             Some (case err of
                     Some e \<Rightarrow>
                       (case e of
                          GrowthIncomplete _ \<Rightarrow> newcomerLimit (clmName pm) (podName pod) (the limits)
                        | _ \<Rightarrow> Inl (NotArranged e))
                   | None \<Rightarrow> newcomerLimit (clmName pm) (podName pod) (the limits), w'))"

section \<open>What a division promises\<close>

text \<open>The record of a claim's instance on a pod, as the loops that hold an engine read it.\<close>

definition recordOn :: "string \<Rightarrow> modelClaimInstance list option \<Rightarrow> int option" where
  "recordOn pod instances =
     Option.bind instances (\<lambda>is. map_option instKVLimitBytes (find (\<lambda>i. instPod i = pod) is))"

text \<open>What an engine costs beside the KV it keeps, and what it may come to under its record. An
  engine that has no instance yet is not counted.\<close>

definition costBesideKV :: "engineOnPod \<Rightarrow> int" where
  "costBesideKV e = heldBytes e - plannedKVHeldBytes e"

definition promisedBytes :: "string \<Rightarrow> cardMoment \<Rightarrow> engineOnPod \<Rightarrow> int" where
  "promisedBytes pod m e =
     (case recordOn pod (snd m (claimName e)) of Some r \<Rightarrow> costBesideKV e + r | None \<Rightarrow> 0)"

text \<open>A moment at which no byte of the card is promised twice: no engine is held to more than its
  record, and the records fit the card.\<close>

definition heldWithinRecord :: "string \<Rightarrow> cardMoment \<Rightarrow> engineOnPod \<Rightarrow> bool" where
  "heldWithinRecord pod m e =
     (case (fst m (modelName e), recordOn pod (snd m (claimName e))) of
        (Some c, Some r) \<Rightarrow> c \<le> r
      | _ \<Rightarrow> True)"

definition cardSafe :: "int \<Rightarrow> engineOnPod list \<Rightarrow> string \<Rightarrow> cardMoment \<Rightarrow> bool" where
  "cardSafe hbm es pod m \<longleftrightarrow>
     list_all (heldWithinRecord pod m) es \<and> sum_list (map (promisedBytes pod m) es) \<le> hbm"

text \<open>The account was read off the card as it stands: each engine's limit and record.\<close>

definition accountTrue :: "engineOnPod list \<Rightarrow> string \<Rightarrow> cardWorld \<Rightarrow> bool" where
  "accountTrue es pod w \<longleftrightarrow>
     list_all (\<lambda>e. segments w (modelName e)
                     = (if kvCapacityBytes e < 0 then None else Some (kvCapacityBytes e)) \<and>
                   recordOn pod (claimStatus w (claimName e)) \<in> {None, Some (kvRecordedBytes e)}) es"

text \<open>What a division relies on of the runtime: a snapshot reports the limit in force of a segment
  as its capacity, and an engine without a segment as having none.\<close>

definition honestRuntime :: "cardOutside \<Rightarrow> bool" where
  "honestRuntime out \<longleftrightarrow>
     (\<forall>w snapshot m. onSnapshot out w = Some snapshot \<longrightarrow> m \<in> set (snapshot_models snapshot) \<longrightarrow>
        0 \<le> mdlKVCapacityBytes m \<longrightarrow> segments w (mdlModelName m) = Some (mdlKVCapacityBytes m))"

text \<open>The world went from one state to another only through moments that satisfy \<open>Q\<close>.\<close>

definition through :: "(cardMoment \<Rightarrow> bool) \<Rightarrow> cardWorld \<Rightarrow> cardWorld \<Rightarrow> bool" where
  "through Q w w' \<longleftrightarrow>
     Q (moment w') \<and> (\<exists>ms. cwPast w' = cwPast w @ ms \<and> list_all Q ms)"

text \<open>A plan as a function of the engine.\<close>

definition planOf :: "int \<Rightarrow> engineOnPod list \<Rightarrow> plannedKVLimit list \<Rightarrow> (engineOnPod \<Rightarrow> plannedKVLimit) \<Rightarrow> bool" where
  "planOf hbm es ls pl \<longleftrightarrow>
     set ls = pl ` set es \<and> distinct (map limClaimName ls) \<and>
     (\<forall>e \<in> set es. limClaimName (pl e) = claimName e \<and> limModelName (pl e) = modelName e \<and>
        limKVCapacityBytes (pl e) = kvCapacityBytes e \<and> limKVRecordedBytes (pl e) = kvRecordedBytes e \<and>
        plannedKVHeldBytes e \<le> kvLimitBytes (pl e) \<and> 0 \<le> plannedKVHeldBytes e \<and> 0 \<le> heldBytes e) \<and>
     (\<Sum>e\<leftarrow>es. costBesideKV e + kvLimitBytes (pl e)) \<le> hbm"

text \<open>The limits in force are at most \<open>bound\<close>, and only engines with a known limit have any.\<close>

definition limitsAtMost :: "(engineOnPod \<Rightarrow> int) \<Rightarrow> engineOnPod list \<Rightarrow> cardMoment \<Rightarrow> bool" where
  "limitsAtMost bound es m \<longleftrightarrow>
     (\<forall>e \<in> set es. \<forall>x. fst m (modelName e) = Some x \<longrightarrow> 0 \<le> kvCapacityBytes e \<and> x \<le> bound e)"

text \<open>The instances that have a record are the ones that had one, and each record satisfies \<open>R\<close>.\<close>

definition recordsSatisfy ::
  "string \<Rightarrow> (engineOnPod \<Rightarrow> int \<Rightarrow> bool) \<Rightarrow> engineOnPod list \<Rightarrow> (string \<rightharpoonup> modelClaimInstance list) \<Rightarrow> cardMoment \<Rightarrow> bool" where
  "recordsSatisfy pod R es st0 m \<longleftrightarrow>
     (\<forall>e \<in> set es. (recordOn pod (snd m (claimName e)) = None \<longleftrightarrow> recordOn pod (st0 (claimName e)) = None) \<and>
        (\<forall>x. recordOn pod (snd m (claimName e)) = Some x \<longrightarrow> R e x))"

definition shrinkPhase :: "engineOnPod list \<Rightarrow> (string \<rightharpoonup> modelClaimInstance list) \<Rightarrow> cardMoment \<Rightarrow> bool" where
  "shrinkPhase es st0 m \<longleftrightarrow> limitsAtMost kvCapacityBytes es m \<and> snd m = st0"

abbreviation planLimit :: "(engineOnPod \<Rightarrow> plannedKVLimit) \<Rightarrow> engineOnPod \<Rightarrow> int" where
  "planLimit pl e \<equiv> kvLimitBytes (pl e)"

definition lowerPhase ::
  "string \<Rightarrow> engineOnPod list \<Rightarrow> (engineOnPod \<Rightarrow> plannedKVLimit) \<Rightarrow> (string \<rightharpoonup> modelClaimInstance list) \<Rightarrow> cardMoment \<Rightarrow> bool" where
  "lowerPhase pod es pl st0 m \<longleftrightarrow>
     limitsAtMost kvCapacityBytes es m \<and> limitsAtMost (planLimit pl) es m \<and>
     recordsSatisfy pod (\<lambda>e x. x = kvRecordedBytes e \<or> (x = planLimit pl e \<and> x < kvRecordedBytes e)) es st0 m"

definition raisePhase ::
  "string \<Rightarrow> engineOnPod list \<Rightarrow> (engineOnPod \<Rightarrow> plannedKVLimit) \<Rightarrow> (string \<rightharpoonup> modelClaimInstance list) \<Rightarrow> cardMoment \<Rightarrow> bool" where
  "raisePhase pod es pl st0 m \<longleftrightarrow>
     limitsAtMost kvCapacityBytes es m \<and> limitsAtMost (planLimit pl) es m \<and>
     recordsSatisfy pod (\<lambda>e x. x = planLimit pl e \<or> (x = kvRecordedBytes e \<and> x \<le> planLimit pl e)) es st0 m"

definition growPhase ::
  "string \<Rightarrow> engineOnPod list \<Rightarrow> (engineOnPod \<Rightarrow> plannedKVLimit) \<Rightarrow> (string \<rightharpoonup> modelClaimInstance list) \<Rightarrow> cardMoment \<Rightarrow> bool" where
  "growPhase pod es pl st0 m \<longleftrightarrow>
     limitsAtMost (planLimit pl) es m \<and> recordsSatisfy pod (\<lambda>e x. x = planLimit pl e) es st0 m"

text \<open>How a division ends. Only one that fails at a shrink leaves the records as they were, and only
  one that fails at a record ends between the phases.\<close>

definition divisionEnd ::
  "string \<Rightarrow> engineOnPod list \<Rightarrow> (engineOnPod \<Rightarrow> plannedKVLimit) \<Rightarrow> (string \<rightharpoonup> modelClaimInstance list) \<Rightarrow>
     arrangeError option \<Rightarrow> cardMoment \<Rightarrow> bool" where
  "divisionEnd pod es pl st0 err m =
     (case err of
        None \<Rightarrow> growPhase pod es pl st0 m \<and>
                (\<forall>e \<in> set es. fst m (modelName e) \<noteq> None \<longrightarrow> fst m (modelName e) = Some (planLimit pl e))
      | Some (GrowthIncomplete _) \<Rightarrow> growPhase pod es pl st0 m
      | Some (RecordFailed _ _) \<Rightarrow> lowerPhase pod es pl st0 m \<or> raisePhase pod es pl st0 m
      | Some _ \<Rightarrow> shrinkPhase es st0 m)"

text \<open>What is returned with each end.\<close>

definition planReturned :: "plannedKVLimit list \<Rightarrow> arrangeError option \<Rightarrow> plannedKVLimit list option" where
  "planReturned ls err = (case err of None \<Rightarrow> Some ls | Some (GrowthIncomplete _) \<Rightarrow> Some ls | _ \<Rightarrow> None)"

text \<open>A card of 100 bytes whose engine \<open>a\<close> holds more than its share, a runtime that takes every
  write, and an API server that takes every update.\<close>

definition exLopsided :: "engineOnPod list" where
  "exLopsided =
     [exEngine ''b'' 3, (exEngine ''a'' 0)\<lparr>kvCapacityBytes := 40, kvRecordedBytes := 40\<rparr>]"

definition exHeldTo :: "int \<Rightarrow> modelClaimInstance" where
  "exHeldTo limit =
     \<lparr>instPod = ''p'', instPort = 8000, instPhase = ''Active'', instKVLimitBytes = limit, instReason = []\<rparr>"

definition exWorld :: cardWorld where
  "exWorld =
     \<lparr>segments = [''a'' \<mapsto> 40, ''b'' \<mapsto> 10],
      claimStatus = [''a'' \<mapsto> [exHeldTo 40], ''b'' \<mapsto> [exHeldTo 10], ''c'' \<mapsto> []],
      cwReadings = newRuntimeReadings, cwWarned = Map.empty, cwEvents = [], cwCalls = 0, cwPast = []\<rparr>"

definition exReported :: "cardWorld \<Rightarrow> string \<Rightarrow> runtimeSnapshotModel" where
  "exReported w name = exModel name ''active'' 6 (case segments w name of Some c \<Rightarrow> c | None \<Rightarrow> - 1)"

definition exOutside :: cardOutside where
  "exOutside =
     \<lparr>onSetKVLimit = (\<lambda>_ _ _ _. Written),
      onSnapshot = (\<lambda>w. Some (Some \<lparr>snapObservedAt = 7, snapAccelerators = [],
                     snapModels = [exReported w ''a'', exReported w ''b''], snapCachedArtifacts = []\<rparr>)),
      onGet = (\<lambda>_ _. True), onStatusUpdate = (\<lambda>_ _. Updated), conflictTries = 5, nowAt = (\<lambda>_. 0)\<rparr>"

definition exCardLedger :: podLedger where
  "exCardLedger = emptyLedger\<lparr>judgeable := True, hbmUsableBytes := 100, engines := exLopsided\<rparr>"

text \<open>The card of \<open>exCardLedger\<close> with a third model placed on it.\<close>

definition exNewcomer :: "int modelClaim" where
  "exNewcomer = exClaim ''c'' 10 2 []"

section \<open>Going through moments\<close>

lemma through_refl: "Q (moment w) \<Longrightarrow> through Q w w"
  by (simp add: through_def)

lemma through_trans: "through Q w w1 \<Longrightarrow> through Q w1 w2 \<Longrightarrow> through Q w w2"
  by (auto simp: through_def)

lemma through_mono: "through Q w w' \<Longrightarrow> (\<And>m. Q m \<Longrightarrow> R m) \<Longrightarrow> through R w w'"
  by (auto simp: through_def list_all_iff)

lemma through_end: "through Q w w' \<Longrightarrow> Q (moment w')"
  by (simp add: through_def)

lemma through_called:
  "cwPast w' = cwPast w \<Longrightarrow> Q (moment w') \<Longrightarrow> through Q w (called w')"
  by (simp add: through_def called_def moment_def)

lemma through_quiet:
  "moment w' = moment w1 \<Longrightarrow> cwPast w' = cwPast w1 \<Longrightarrow> through Q w w1 \<Longrightarrow> through Q w w'"
  by (simp add: through_def)

lemma moment_called [simp]: "moment (called w) = moment w"
  by (simp add: moment_def called_def)

lemma moment_upd [simp]:
  "moment (w\<lparr>cwWarned := x\<rparr>) = moment w" "moment (w\<lparr>cwEvents := y\<rparr>) = moment w"
  "moment (w\<lparr>cwReadings := z\<rparr>) = moment w"
  by (simp_all add: moment_def)

lemma moment_forgetReading [simp]: "moment (forgetReading pod w) = moment w"
  "cwPast (forgetReading pod w) = cwPast w"
  by (simp_all add: moment_def forgetReading_def)

lemma segments_called [simp]:
  "segments (called w) = segments w" "claimStatus (called w) = claimStatus w"
  "cwPast (called w) = cwPast w @ [moment w]"
  by (simp_all add: called_def)

lemma setKVLimit_through:
  assumes "setKVLimit out model limit op w = (failed, w')" and "Q (moment w)"
    and "segments w model \<noteq> None \<Longrightarrow> Q ((segments w)(model \<mapsto> limit), claimStatus w)"
  shows "through Q w w'"
  using assms by (auto simp: setKVLimit_def Let_def moment_def intro!: through_called split: if_splits)

lemma setKVLimit_frame:
  assumes "setKVLimit out model limit op w = (failed, w')"
  shows "claimStatus w' = claimStatus w" and "n \<noteq> model \<Longrightarrow> segments w' n = segments w n"
    and "segments w' n = None \<longleftrightarrow> segments w n = None"
  using assms by (auto simp: setKVLimit_def Let_def split: if_splits)

lemma warnKVCapacityBelowFloor_quiet:
  "moment (warnKVCapacityBelowFloor out ns pod es w) = moment w \<and>
   (\<exists>k. cwPast (warnKVCapacityBelowFloor out ns pod es w) = cwPast w @ replicate k (moment w))"
proof (induction es arbitrary: w)
  case (Cons e es)
  have step: "moment (warnKVCapacityBelowFloor out ns pod es (called v)) = moment w \<and>
      (\<exists>k. cwPast (warnKVCapacityBelowFloor out ns pod es (called v)) = cwPast w @ replicate k (moment w))"
    if v: "moment v = moment w" "cwPast v = cwPast w" for v
  proof -
    obtain k where "cwPast (warnKVCapacityBelowFloor out ns pod es (called v))
        = cwPast (called v) @ replicate k (moment w)" 
      using Cons.IH [of "called v"] v(1) by (metis moment_called)
    then show ?thesis using Cons.IH [of "called v"] v
      by (auto intro!: exI [of _ "Suc k"])
  qed
  obtain isDue warned where d: "limitWarningDue (floorWarningKey ns (claimName e) pod) (nowAt out w) (cwWarned w)
      = (isDue, warned)" by fastforce
  show ?case
    using Cons.IH [of w] Cons.IH [of "w\<lparr>cwWarned := warned\<rparr>"]
    by (simp add: d Let_def step)
qed (auto intro: exI [of _ 0])

lemma warnKVCapacityBelowFloor_through:
  "Q (moment w) \<Longrightarrow> through Q w (warnKVCapacityBelowFloor out ns pod es w)"
  using warnKVCapacityBelowFloor_quiet [of out ns pod es w] by (auto simp: through_def list_all_iff)

section \<open>Writing records\<close>

lemma recordInstances_recordOn:
  "recordOn pod (Some (snd (recordInstances pod limit is))) = map_option (\<lambda>_. limit) (recordOn pod (Some is))"
  by (induction "is") (auto simp: recordOn_def case_prod_beta Let_def)

lemma recordInstances_unchanged:
  "\<not> fst (recordInstances pod limit is) \<Longrightarrow> snd (recordInstances pod limit is) = is"
  by (induction "is") (auto simp: case_prod_beta Let_def split: if_splits)

lemma recordKVLimitTry_result:
  "recordKVLimitTry out n claim pod limit w = (failed, w') \<Longrightarrow>
     segments w' = segments w \<and>
     (claimStatus w' = claimStatus w \<or>
      (\<exists>is. claimStatus w claim = Some is \<and>
            claimStatus w' = (claimStatus w)(claim \<mapsto> snd (recordInstances pod limit is)))) \<and>
     (\<not> failed \<longrightarrow> recordOn pod (claimStatus w' claim)
                     = map_option (\<lambda>_. limit) (recordOn pod (claimStatus w claim))) \<and>
     (Q (moment w) \<longrightarrow> (claimStatus w claim \<noteq> None \<longrightarrow>
        Q (segments w, (claimStatus w)(claim \<mapsto> snd (recordInstances pod limit (the (claimStatus w claim)))))) \<longrightarrow>
      through Q w w')"
proof (induction n arbitrary: w)
  case 0
  then show ?case by (auto simp: through_refl)
next
  case (Suc n)
  show ?case
  proof (cases "claimStatus w claim")
    case None
    then show ?thesis using Suc.prems by (auto simp: recordOn_def intro: through_called)
  next
    case (Some "is")
    obtain changed is' where r: "recordInstances pod limit is = (changed, is')" by fastforce
    have un: "\<not> changed \<Longrightarrow> is' = is" using recordInstances_unchanged [of pod limit "is"] r by simp
    have on: "recordOn pod (Some is') = map_option (\<lambda>_. limit) (recordOn pod (Some is))"
      using recordInstances_recordOn [of pod limit "is"] r by simp
    show ?thesis
    proof (cases "onGet out w claim \<and> changed \<and> onStatusUpdate out w claim = UpdateConflict")
      case True
      then have "recordKVLimitTry out n claim pod limit (called w) = (failed, w')"
        using Suc.prems Some r by (simp add: Let_def)
      note ih = Suc.IH [OF this]
      have "through Q w (called w)" if "Q (moment w)" using that by (simp add: through_called)
      then show ?thesis using ih Some r by (auto simp: moment_def intro: through_trans)
    next
      case False
      then show ?thesis using Suc.prems Some r un on
        by (cases "onStatusUpdate out w claim")
           (auto simp: Let_def moment_def fun_upd_def intro!: through_called split: if_splits)
    qed
  qed
qed

lemma recordKVLimit_frame:
  assumes "recordKVLimit out claim pod limit w = (failed, w')"
  shows "segments w' = segments w" and "c \<noteq> claim \<Longrightarrow> claimStatus w' c = claimStatus w c"
    and "\<not> failed \<Longrightarrow> recordOn pod (claimStatus w' claim)
           = map_option (\<lambda>_. limit) (recordOn pod (claimStatus w claim))"
  using recordKVLimitTry_result [OF assms [unfolded recordKVLimit_def], of "\<lambda>_. True"] by auto

lemma recordAll_append:
  "recordAll out pod (xs @ ys) w =
     (case recordAll out pod xs w of
        (Some err, w1) \<Rightarrow> (Some err, w1)
      | (None, w1) \<Rightarrow> recordAll out pod ys w1)"
  by (induction xs arbitrary: w) (auto split: prod.split)

text \<open>Records are written one claim at a time. A condition that holds of the card now, and that each
  of these writes keeps, holds at every moment.\<close>

lemma recordAll_through:
  assumes "recordAll out pod ls w = (err, w')" and "Q (moment w)"
    and keeps: "\<And>l seg st is. l \<in> set ls \<Longrightarrow> Q (seg, st) \<Longrightarrow> st (limClaimName l) = Some is \<Longrightarrow>
                 Q (seg, st(limClaimName l \<mapsto> snd (recordInstances pod (kvLimitBytes l) is)))"
  shows "through Q w w'"
  using assms
proof (induction ls arbitrary: w)
  case Nil
  then show ?case by (simp add: through_refl)
next
  case (Cons l ls)
  obtain failed w1 where r: "recordKVLimit out (limClaimName l) pod (kvLimitBytes l) w = (failed, w1)"
    by fastforce
  have t: "through Q w w1"
    using recordKVLimitTry_result [OF r [unfolded recordKVLimit_def], of Q] Cons.prems(2)
      Cons.prems(3) [of l "segments w" "claimStatus w"] by (auto simp: moment_def)
  show ?case
  proof (cases failed)
    case False
    then show ?thesis using Cons.prems r t Cons.IH [of w1] through_end [OF t]
      by (auto intro: through_trans)
  qed (use Cons.prems r t in auto)
qed

lemma recordAll_frame:
  "recordAll out pod ls w = (err, w') \<Longrightarrow>
     segments w' = segments w \<and> (\<forall>c. c \<notin> limClaimName ` set ls \<longrightarrow> claimStatus w' c = claimStatus w c)"
proof (induction ls arbitrary: w)
  case (Cons l ls)
  obtain failed w1 where r: "recordKVLimit out (limClaimName l) pod (kvLimitBytes l) w = (failed, w1)"
    by fastforce
  note f = recordKVLimit_frame [OF r]
  show ?case
  proof (cases failed)
    case False
    then have "recordAll out pod ls w1 = (err, w')" using Cons.prems r by simp
    from Cons.IH [OF this] show ?thesis using f by simp
  qed (use Cons.prems r f in simp)
qed simp

lemma recordAll_done:
  "recordAll out pod ls w = (None, w') \<Longrightarrow> distinct (map limClaimName ls) \<Longrightarrow> l \<in> set ls \<Longrightarrow>
     recordOn pod (claimStatus w' (limClaimName l))
       = map_option (\<lambda>_. kvLimitBytes l) (recordOn pod (claimStatus w (limClaimName l)))"
proof (induction ls arbitrary: w)
  case (Cons a ls)
  obtain w1 where r: "recordKVLimit out (limClaimName a) pod (kvLimitBytes a) w = (False, w1)"
    and rest: "recordAll out pod ls w1 = (None, w')"
    using Cons.prems(1) by (auto split: prod.splits if_splits)
  note a = recordKVLimit_frame [OF r]
  show ?case
  proof (cases "l = a")
    case True
    then show ?thesis using a recordAll_frame [OF rest] Cons.prems(2) by simp
  next
    case False
    then have "l \<in> set ls" using Cons.prems(3) by simp
    moreover have "limClaimName l \<noteq> limClaimName a"
      using imageI [OF calculation, of limClaimName] Cons.prems(2) by auto
    ultimately show ?thesis using Cons.IH [OF rest] Cons.prems(2) a(2) by simp
  qed
qed simp

lemma recordAll_value:
  "recordAll out pod ls w = (None, w') \<Longrightarrow> distinct (map limClaimName ls) \<Longrightarrow> l \<in> set ls \<Longrightarrow>
     recordOn pod (claimStatus w' (limClaimName l)) = Some x \<Longrightarrow> x = kvLimitBytes l"
  by (cases "recordOn pod (claimStatus w (limClaimName l))") (auto dest: recordAll_done)

section \<open>Writing limits\<close>

lemma writeKVLimits_through:
  assumes "writeKVLimits out pod ledger ls w = (written, err, w')" and "Q (moment w)"
    and keeps: "\<And>l seg st. l \<in> set ls \<Longrightarrow> Q (seg, st) \<Longrightarrow> seg (limModelName l) \<noteq> None \<Longrightarrow>
                 Q (seg(limModelName l \<mapsto> kvLimitBytes l), st)"
  shows "through Q w w' \<and> set written \<subseteq> set ls"
  using assms
proof (induction ls arbitrary: w written err w')
  case Nil
  then show ?case by (simp add: through_refl)
next
  case (Cons l ls)
  obtain failed w1 where r: "setKVLimit out (limModelName l) (kvLimitBytes l)
      (''kv-plan'', limClaimName l, kvLimitBytes l, observedAt ledger) w = (failed, w1)" by fastforce
  have t: "through Q w w1"
    using setKVLimit_through [OF r, of Q] Cons.prems(2) Cons.prems(3) [of l "segments w" "claimStatus w"]
    by (simp add: moment_def)
  show ?case
  proof (cases failed)
    case True
    then have "written = []" "w' = forgetReading (podName pod) w1" using Cons.prems(1) r by simp_all
    then show ?thesis using through_quiet [OF _ _ t, of w'] by simp
  next
    case False
    obtain ws err' w2 where k: "writeKVLimits out pod ledger ls w1 = (ws, err', w2)" using prod_cases3 by blast
    then have "w' = w2" "written = l # ws" using Cons.prems(1) r False by simp_all
    moreover have "through Q w1 w2 \<and> set ws \<subseteq> set ls"
      using Cons.IH [OF k] Cons.prems(3) through_end [OF t] by simp
    ultimately show ?thesis using t by (auto intro: through_trans)
  qed
qed

lemma writeKVLimits_frame:
  "writeKVLimits out pod ledger ls w = (written, err, w') \<Longrightarrow>
     claimStatus w' = claimStatus w \<and>
     (\<forall>n. n \<notin> limModelName ` set ls \<longrightarrow> segments w' n = segments w n) \<and>
     (\<forall>n. segments w' n = None \<longleftrightarrow> segments w n = None)"
proof (induction ls arbitrary: w written err w')
  case (Cons l ls)
  obtain failed w1 where r: "setKVLimit out (limModelName l) (kvLimitBytes l)
      (''kv-plan'', limClaimName l, kvLimitBytes l, observedAt ledger) w = (failed, w1)" by fastforce
  note f = setKVLimit_frame [OF r]
  show ?case
  proof (cases failed)
    case True
    then show ?thesis using Cons.prems r f by (auto simp: forgetReading_def)
  next
    case False
    obtain ws err' w2 where k: "writeKVLimits out pod ledger ls w1 = (ws, err', w2)" using prod_cases3 by blast
    then have "w' = w2" using Cons.prems r False by simp
    then show ?thesis using Cons.IH [OF k] f by simp
  qed
qed simp

lemma writeAndConfirm_through:
  assumes w: "writeAndConfirmKVLimits out pod ledger ls w = (written, err, w')" and q: "Q (moment w)"
    and keeps: "\<And>l seg st. l \<in> set ls \<Longrightarrow> Q (seg, st) \<Longrightarrow> seg (limModelName l) \<noteq> None \<Longrightarrow>
                 Q (seg(limModelName l \<mapsto> kvLimitBytes l), st)"
  shows "through Q w w' \<and> set written \<subseteq> set ls"
proof (cases "ls = []")
  case False
  obtain ws e w1 where k: "writeKVLimits out pod ledger ls w = (ws, e, w1)" using prod_cases3 by blast
  have t: "through Q w w1" "set ws \<subseteq> set ls" using writeKVLimits_through [OF k q keeps] by blast+
  have c: "through Q w (called v)" if v: "moment v = moment w1" "cwPast v = cwPast w1" for v
    using through_trans [OF t(1) through_called [of v w1 Q]] v through_end [OF t(1)] by simp
  show ?thesis using w k t False
    by (auto simp: writeAndConfirmKVLimits_def Let_def intro!: c split: option.splits if_splits)
qed (use w q in \<open>simp add: writeAndConfirmKVLimits_def through_refl\<close>)

lemma writeAndConfirm_frame:
  assumes w: "writeAndConfirmKVLimits out pod ledger ls w = (written, err, w')"
  shows "claimStatus w' = claimStatus w"
    and "n \<notin> limModelName ` set ls \<Longrightarrow> segments w' n = segments w n"
    and "segments w' n = None \<longleftrightarrow> segments w n = None"
proof -
  obtain ws e w1 where k: "writeKVLimits out pod ledger ls w = (ws, e, w1)" using prod_cases3 by blast
  have "claimStatus w' = claimStatus w1 \<and> segments w' = segments w1"
    using w k by (cases "ls = []")
      (auto simp: writeAndConfirmKVLimits_def Let_def forgetReading_def split: option.splits if_splits)
  then show "claimStatus w' = claimStatus w"
    and "n \<notin> limModelName ` set ls \<Longrightarrow> segments w' n = segments w n"
    and "segments w' n = None \<longleftrightarrow> segments w n = None"
    using writeKVLimits_frame [OF k] by simp_all
qed

lemma confirm_None_capacity:
  "confirmKVLimits models ls = None \<Longrightarrow> l \<in> set ls \<Longrightarrow>
     \<exists>m \<in> set models. mdlModelName m = limModelName l \<and> mdlKVCapacityBytes m = kvLimitBytes l"
proof (induction models ls rule: confirmKVLimits.induct)
  case (2 models l' ls)
  then show ?case
    by (auto split: option.splits if_splits dest!: find_Some_iff [THEN iffD1] dest: nth_mem)
qed simp

text \<open>A step that is confirmed is in force.\<close>

lemma writeAndConfirm_done:
  assumes w: "writeAndConfirmKVLimits out pod ledger ls w = (written, None, w')"
    and h: "honestRuntime out" and l: "l \<in> set ls" "0 \<le> kvLimitBytes l"
  shows "segments w' (limModelName l) = Some (kvLimitBytes l)"
proof -
  obtain ws e w1 where k: "writeKVLimits out pod ledger ls w = (ws, e, w1)" using prod_cases3 by blast
  define w2 where "w2 = forgetReading (podName pod) w1"
  have ne: "ls \<noteq> []" using l(1) by auto
  have e: "e = None" using w k ne by (simp add: writeAndConfirmKVLimits_def split: option.splits)
  then obtain snapshot where s: "onSnapshot out w2 = Some snapshot"
    and c: "confirmKVLimits (snapshot_models snapshot) ls = None" and w': "segments w' = segments w2"
    using w k ne by (auto simp: writeAndConfirmKVLimits_def Let_def w2_def split: option.splits if_splits)
  obtain m where "m \<in> set (snapshot_models snapshot)" "mdlModelName m = limModelName l"
    "mdlKVCapacityBytes m = kvLimitBytes l" using confirm_None_capacity [OF c l(1)] by blast
  then show ?thesis using h s l(2) w' unfolding honestRuntime_def by metis
qed

lemma takeBack_through:
  assumes "Q (moment w)"
    and "\<And>l seg st. l \<in> set ls \<Longrightarrow> Q (seg, st) \<Longrightarrow> seg (limModelName l) \<noteq> None \<Longrightarrow>
           Q (seg(limModelName l \<mapsto> heldBefore l), st)"
  shows "through Q w (takeBackKVLimits out ledger ls w)"
  using assms
proof (induction ls arbitrary: w)
  case Nil
  then show ?case by (simp add: through_refl)
next
  case (Cons l ls)
  obtain failed w1 where r: "setKVLimit out (limModelName l) (heldBefore l)
      (''kv-plan-back'', limClaimName l, heldBefore l, observedAt ledger) w = (failed, w1)" by fastforce
  have t: "through Q w w1"
    using setKVLimit_through [OF r, of Q] Cons.prems(1) Cons.prems(2) [of l "segments w" "claimStatus w"]
    by (simp add: moment_def)
  have ih: "through Q v (takeBackKVLimits out ledger ls v)" if "Q (moment v)" for v
    using Cons.IH [OF that] Cons.prems(2) by simp
  show ?case using r t ih [of w] ih [of w1] Cons.prems(1) through_end [OF t]
    by (auto intro: through_trans)
qed

lemma takeBack_status: "claimStatus (takeBackKVLimits out ledger ls w) = claimStatus w"
proof (induction ls arbitrary: w)
  case (Cons l ls)
  obtain failed w1 where r: "setKVLimit out (limModelName l) (heldBefore l)
      (''kv-plan-back'', limClaimName l, heldBefore l, observedAt ledger) w = (failed, w1)" by fastforce
  show ?case using Cons [of w] Cons [of w1] r setKVLimit_frame(1) [OF r] by simp
qed simp

section \<open>A plan, engine by engine\<close>

lemma plan_is_function:
  assumes s: "card_sane hbm es" and p: "planKVLimits hbm es = Some (Inr ls)" and d: "distinct (map claimName es)"
  shows "\<exists>pl. planOf hbm es ls pl"
proof -
  let ?o = "sort_key claimName es"
  define pl where "pl = (\<lambda>e. the (map_of (zip ?o ls) e))"
  note en = plan_entries [OF s p]
  have dist: "distinct ?o" using d by (simp add: distinct_map)
  have nth: "pl (?o ! k) = ls ! k" if "k < length es" for k
    using map_of_zip_nth [of ?o ls k] that en(1) dist by (simp add: pl_def)
  have ls: "ls = map pl ?o" using nth en(1) by (intro nth_equalityI) simp_all
  have f: "limClaimName (pl e) = claimName e \<and> limModelName (pl e) = modelName e \<and>
        limKVCapacityBytes (pl e) = kvCapacityBytes e \<and> limKVRecordedBytes (pl e) = kvRecordedBytes e \<and>
        plannedKVHeldBytes e \<le> kvLimitBytes (pl e) \<and> 0 \<le> plannedKVHeldBytes e \<and> 0 \<le> heldBytes e"
    if e: "e \<in> set es" for e
  proof -
    obtain k where k: "k < length es" "?o ! k = e" using e by (metis in_set_conv_nth length_sort set_sort)
    have "pl e = clampPlanned (plannedLimit (planExtras hbm ?o ! k) e)"
      "kvLimitBytes (pl e) = clampKVLimit (plannedKVHeldBytes e + planExtras hbm ?o ! k) (kvInitialCapacityBytes e)"
      "capacityCoversHeld e" "engine_sane e"
      using en(3,4,5,6) [of k] nth [OF k(1)] k by simp_all
    moreover have "0 \<le> planExtras hbm ?o ! k" using planExtras_range(1) [of k ?o hbm] k(1) en(2) by simp
    ultimately show ?thesis using clamp_ge [of e] plannedKVHeld_range [of e] held_range [of e]
      by (simp add: clampPlanned_def plannedLimit_def)
  qed
  have "sum_list (map2 chargedBytes ?o ls) = (\<Sum>e\<leftarrow>?o. costBesideKV e + kvLimitBytes (pl e))"
    by (simp add: ls zip_map2 zip_same_conv_map chargedBytes_def costBesideKV_def algebra_simps comp_def)
  then have "(\<Sum>e\<leftarrow>es. costBesideKV e + kvLimitBytes (pl e)) \<le> hbm"
    using plan_within_card [OF s p] by simp
  moreover have "map limClaimName ls = map claimName ?o" using f by (simp add: ls)
  then have "distinct (map limClaimName ls)" using d by (simp del: map_map)
  moreover have "set ls = pl ` set es" by (simp add: ls)
  ultimately show ?thesis using f unfolding planOf_def by blast
qed

section \<open>The phases of a division\<close>

text \<open>Every phase is safe, since no byte is promised twice before the division or by its plan.\<close>

lemma promised_by_plan:
  assumes "planOf hbm es ls pl" and "recordsSatisfy pod (\<lambda>e x. x \<le> planLimit pl e) es st0 m"
  shows "sum_list (map (promisedBytes pod m) es) \<le> hbm"
proof -
  have "promisedBytes pod m e \<le> costBesideKV e + planLimit pl e" if "e \<in> set es" for e
    using assms that by (auto simp: planOf_def recordsSatisfy_def promisedBytes_def costBesideKV_def split: option.split)
  then have "sum_list (map (promisedBytes pod m) es) \<le> (\<Sum>e\<leftarrow>es. costBesideKV e + planLimit pl e)"
    by (intro sum_list_map_mono_int) simp
  then show ?thesis using assms(1) by (simp add: planOf_def)
qed

lemma promised_as_before:
  assumes "accountTrue es pod w" and "cardSafe hbm es pod (moment w)"
    and "recordsSatisfy pod (\<lambda>e x. x \<le> kvRecordedBytes e) es (claimStatus w) m"
  shows "sum_list (map (promisedBytes pod m) es) \<le> hbm"
proof -
  have "promisedBytes pod m e \<le> promisedBytes pod (moment w) e" if e: "e \<in> set es" for e
  proof -
    have "recordOn pod (claimStatus w (claimName e)) \<in> {None, Some (kvRecordedBytes e)}"
      "(recordOn pod (snd m (claimName e)) = None) = (recordOn pod (claimStatus w (claimName e)) = None)"
      "\<And>x. recordOn pod (snd m (claimName e)) = Some x \<Longrightarrow> x \<le> kvRecordedBytes e"
      using assms(1,3) e by (auto simp: accountTrue_def list_all_iff recordsSatisfy_def)
    then show ?thesis by (auto simp: promisedBytes_def moment_def split: option.split)
  qed
  then have "sum_list (map (promisedBytes pod m) es) \<le> sum_list (map (promisedBytes pod (moment w)) es)"
    by (intro sum_list_map_mono_int) simp
  then show ?thesis using assms(2) by (simp add: cardSafe_def)
qed

lemma capacity_within_record:
  assumes "accountTrue es pod w" and "cardSafe hbm es pod (moment w)" and "e \<in> set es"
    and "0 \<le> kvCapacityBytes e" and "recordOn pod (claimStatus w (claimName e)) \<noteq> None"
  shows "kvCapacityBytes e \<le> kvRecordedBytes e"
proof -
  have "segments w (modelName e) = Some (kvCapacityBytes e)"
    "recordOn pod (claimStatus w (claimName e)) = Some (kvRecordedBytes e)"
    using assms(1,3,4,5) by (auto simp: accountTrue_def list_all_iff)
  then show ?thesis using assms(2,3)
    by (auto simp: cardSafe_def list_all_iff heldWithinRecord_def moment_def)
qed

lemma cardSafe_intro:
  assumes "limitsAtMost bound es m" and "recordsSatisfy pod R es st0 m"
    and "\<And>e r. e \<in> set es \<Longrightarrow> 0 \<le> kvCapacityBytes e \<Longrightarrow> recordOn pod (st0 (claimName e)) \<noteq> None \<Longrightarrow> R e r \<Longrightarrow> bound e \<le> r"
    and "sum_list (map (promisedBytes pod m) es) \<le> hbm"
  shows "cardSafe hbm es pod m"
proof -
  have "heldWithinRecord pod m e" if e: "e \<in> set es" for e
  proof -
    have "c \<le> r" if "fst m (modelName e) = Some c" "recordOn pod (snd m (claimName e)) = Some r" for c r
    proof -
      have "0 \<le> kvCapacityBytes e" "c \<le> bound e" using assms(1) e that(1) by (auto simp: limitsAtMost_def)
      moreover have "recordOn pod (st0 (claimName e)) \<noteq> None" "R e r"
        using assms(2) e that(2) by (auto simp: recordsSatisfy_def)
      ultimately show ?thesis using assms(3) [OF e] by force
    qed
    then show ?thesis by (auto simp: heldWithinRecord_def split: option.split)
  qed
  then show ?thesis using assms(4) by (simp add: cardSafe_def list_all_iff)
qed

lemma recordsSatisfy_mono:
  "recordsSatisfy pod R es st0 m \<Longrightarrow> (\<And>e x. R e x \<Longrightarrow> R' e x) \<Longrightarrow> recordsSatisfy pod R' es st0 m"
  by (auto simp: recordsSatisfy_def)

lemma recordsSatisfy_start:
  "accountTrue es pod w \<Longrightarrow> recordsSatisfy pod (\<lambda>e x. x = kvRecordedBytes e) es (claimStatus w) (seg, claimStatus w)"
  by (auto simp: accountTrue_def list_all_iff recordsSatisfy_def)

lemma phases_safe:
  assumes a: "accountTrue es pod w" and s: "cardSafe hbm es pod (moment w)" and p: "planOf hbm es ls pl"
  shows "shrinkPhase es (claimStatus w) m \<Longrightarrow> cardSafe hbm es pod m"
    and "lowerPhase pod es pl (claimStatus w) m \<Longrightarrow> cardSafe hbm es pod m"
    and "raisePhase pod es pl (claimStatus w) m \<Longrightarrow> cardSafe hbm es pod m"
    and "growPhase pod es pl (claimStatus w) m \<Longrightarrow> cardSafe hbm es pod m"
proof -
  note cap = capacity_within_record [OF a s]
  { assume m: "shrinkPhase es (claimStatus w) m"
    then have r: "recordsSatisfy pod (\<lambda>e x. x = kvRecordedBytes e) es (claimStatus w) m"
      using recordsSatisfy_start [OF a, of "fst m"] by (cases m) (auto simp: shrinkPhase_def)
    show "cardSafe hbm es pod m"
      by (rule cardSafe_intro [OF _ r _ promised_as_before [OF a s recordsSatisfy_mono [OF r]]])
         (use m cap in \<open>auto simp: shrinkPhase_def\<close>) }
  { assume m: "lowerPhase pod es pl (claimStatus w) m"
    let ?R = "\<lambda>e x. x = kvRecordedBytes e \<or> (x = planLimit pl e \<and> x < kvRecordedBytes e)"
    let ?b = "\<lambda>e. min (kvCapacityBytes e) (planLimit pl e)"
    have b: "limitsAtMost ?b es m" and r: "recordsSatisfy pod ?R es (claimStatus w) m"
      using m by (auto simp: lowerPhase_def limitsAtMost_def)
    show "cardSafe hbm es pod m"
      by (rule cardSafe_intro [OF b r _ promised_as_before [OF a s recordsSatisfy_mono [OF r]]])
         (use cap in force)+ }
  { assume m: "raisePhase pod es pl (claimStatus w) m"
    let ?R = "\<lambda>e x. x = planLimit pl e \<or> (x = kvRecordedBytes e \<and> x \<le> planLimit pl e)"
    let ?b = "\<lambda>e. min (kvCapacityBytes e) (planLimit pl e)"
    have b: "limitsAtMost ?b es m" and r: "recordsSatisfy pod ?R es (claimStatus w) m"
      using m by (auto simp: raisePhase_def limitsAtMost_def)
    show "cardSafe hbm es pod m"
      by (rule cardSafe_intro [OF b r _ promised_by_plan [OF p recordsSatisfy_mono [OF r]]])
         (use cap in force)+ }
  { assume m: "growPhase pod es pl (claimStatus w) m"
    then have b: "limitsAtMost (planLimit pl) es m"
      and r: "recordsSatisfy pod (\<lambda>e x. x = planLimit pl e) es (claimStatus w) m"
      by (simp_all add: growPhase_def)
    show "cardSafe hbm es pod m"
      by (rule cardSafe_intro [OF b r _ promised_by_plan [OF p recordsSatisfy_mono [OF r]]]) simp_all }
qed

section \<open>A division goes through its phases in order\<close>

lemma planOf_engine:
  assumes "planOf hbm es ls pl" and "l \<in> set ls"
  obtains e where "e \<in> set es" and "l = pl e" and "limClaimName l = claimName e"
    and "limModelName l = modelName e" and "0 \<le> kvLimitBytes l"
  using assms by (fastforce simp: planOf_def)

lemma shrinksAndGrows_eq:
  "shrinksAndGrows ls = (filter shrinks ls, filter (\<lambda>l. writable l \<and> \<not> shrinks l) ls)"
proof -
  have "shrinks l \<Longrightarrow> writable l" for l by (simp add: shrinks_def writable_def)
  then have "filter (\<lambda>l. writable l \<and> shrinks l) ls = filter shrinks ls" by (intro filter_cong) auto
  then show ?thesis by (simp add: shrinksAndGrows_def writeOrder_parts conj_commute) (auto intro: filter_cong)
qed

lemma heldBefore_le: "heldBefore l \<le> limKVCapacityBytes l"
proof -
  have "clampKVLimit x c \<le> y" if "x \<le> y" for x y c using clamp_le [of x c] that by linarith
  then show ?thesis by (auto simp: heldBefore_def Let_def)
qed

lemma limitsAtMost_write:
  assumes "limitsAtMost bound es (seg, st)" and "seg n \<noteq> None"
    and "\<And>e. e \<in> set es \<Longrightarrow> modelName e = n \<Longrightarrow> x \<le> bound e"
  shows "limitsAtMost bound es (seg(n \<mapsto> x), st)"
  using assms by (auto simp: limitsAtMost_def)

lemma recordsSatisfy_write:
  assumes "recordsSatisfy pod R es st0 (seg, st)" and "st c = Some is"
    and "\<And>e. e \<in> set es \<Longrightarrow> claimName e = c \<Longrightarrow> R e x"
  shows "recordsSatisfy pod R es st0 (seg, st(c \<mapsto> snd (recordInstances pod x is)))"
  using assms by (auto simp: recordsSatisfy_def recordInstances_recordOn)

lemma limitsAtMost_segments:
  "limitsAtMost bound es (seg, st) \<Longrightarrow> limitsAtMost bound es (seg, st')"
  by (simp add: limitsAtMost_def)

text \<open>The first step, and what takes it back.\<close>

lemma shrink_step:
  assumes p: "planOf hbm es ls pl" and dm: "inj_on modelName (set es)"
    and q: "shrinkPhase es st0 (moment w)"
    and r: "writeAndConfirmKVLimits out pod ledger (filter shrinks ls) w = (written, err, w1)"
  shows "through (shrinkPhase es st0) w w1"
    and "through (shrinkPhase es st0) w (takeBackKVLimits out ledger written w1)"
proof -
  have bound: "x \<le> kvCapacityBytes e"
    if l: "l \<in> set ls" "x \<le> limKVCapacityBytes l" "e \<in> set es" "modelName e = limModelName l" for l x e
  proof -
    obtain e' where "e' \<in> set es" "l = pl e'" "limModelName l = modelName e'"
      using planOf_engine [OF p l(1)] by metis
    moreover have "e' = e" using dm calculation l(3,4) by (auto simp: inj_on_def)
    ultimately show ?thesis using p l(2) by (auto simp: planOf_def)
  qed
  have w: "through (shrinkPhase es st0) w w1 \<and> set written \<subseteq> set (filter shrinks ls)"
    by (rule writeAndConfirm_through [where Q = "shrinkPhase es st0", OF r q])
       (auto simp: shrinkPhase_def shrinks_def intro!: limitsAtMost_write bound)
  then show t: "through (shrinkPhase es st0) w w1" by blast
  have "through (shrinkPhase es st0) w1 (takeBackKVLimits out ledger written w1)"
    by (rule takeBack_through [where Q = "shrinkPhase es st0", OF through_end [OF t]])
       (use w in \<open>auto simp: shrinkPhase_def intro!: limitsAtMost_write bound [OF _ heldBefore_le]\<close>)
  then show "through (shrinkPhase es st0) w (takeBackKVLimits out ledger written w1)"
    by (rule through_trans [OF t])
qed

lemma shrinks_confirmed:
  assumes p: "planOf hbm es ls pl" and h: "honestRuntime out" and a: "accountTrue es pod w0"
    and q: "shrinkPhase es (claimStatus w0) (moment w)"
    and r: "writeAndConfirmKVLimits out thePod ledger (filter shrinks ls) w = (written, None, w1)"
    and t: "shrinkPhase es (claimStatus w0) (moment w1)"
  shows "lowerPhase pod es pl (claimStatus w0) (moment w1)"
proof -
  have "x \<le> planLimit pl e" if e: "e \<in> set es" and x: "segments w1 (modelName e) = Some x" for e x
  proof (cases "shrinks (pl e)")
    case True
    have "pl e \<in> set (filter shrinks ls)" "0 \<le> planLimit pl e" "limModelName (pl e) = modelName e"
      using True p e by (fastforce simp: planOf_def)+
    then show ?thesis using writeAndConfirm_done [OF r h, of "pl e"] x by simp
  next
    case False
    have "x \<le> kvCapacityBytes e" "0 \<le> kvCapacityBytes e"
      using t e x by (auto simp: shrinkPhase_def limitsAtMost_def moment_def)
    then show ?thesis using False p e by (auto simp: shrinks_def planOf_def)
  qed
  then have "limitsAtMost (planLimit pl) es (moment w1)" "limitsAtMost kvCapacityBytes es (moment w1)"
    using t by (auto simp: limitsAtMost_def moment_def shrinkPhase_def)
  moreover have "claimStatus w1 = claimStatus w0" using t by (simp add: shrinkPhase_def moment_def)
  ultimately show ?thesis
    using recordsSatisfy_mono [OF recordsSatisfy_start [OF a, of "segments w1"]]
    by (simp add: lowerPhase_def moment_def)
qed

text \<open>The records, the ones that go down first.\<close>

lemma lower_step:
  assumes p: "planOf hbm es ls pl" and dc: "inj_on claimName (set es)"
    and q: "lowerPhase pod es pl st0 (moment w)"
    and r: "recordAll out pod (filter lowersRecord ls) w = (err, w1)"
  shows "through (lowerPhase pod es pl st0) w w1"
    and "err = None \<Longrightarrow> raisePhase pod es pl st0 (moment w1)"
proof -
  have same: "e' = e" if "e \<in> set es" "e' \<in> set es" "claimName e = claimName e'" for e e'
    using dc that by (auto simp: inj_on_def)
  show t: "through (lowerPhase pod es pl st0) w w1"
  proof (rule recordAll_through [where Q = "lowerPhase pod es pl st0", OF r q])
    fix l seg st "is" assume l: "l \<in> set (filter lowersRecord ls)" and m: "lowerPhase pod es pl st0 (seg, st)"
      and st: "st (limClaimName l) = Some is"
    then obtain e' where e': "e' \<in> set es" "l = pl e'" "limClaimName l = claimName e'"
      using planOf_engine [OF p, of l] by auto
    have "kvLimitBytes l = planLimit pl e \<and> kvLimitBytes l < kvRecordedBytes e"
      if "e \<in> set es" "claimName e = limClaimName l" for e
      using same [OF that(1) e'(1)] that e' l p by (auto simp: lowersRecord_def planOf_def)
    then show "lowerPhase pod es pl st0 (seg, st(limClaimName l \<mapsto> snd (recordInstances pod (kvLimitBytes l) is)))"
      using m st by (auto simp: lowerPhase_def intro: limitsAtMost_segments recordsSatisfy_write)
  qed
  assume err: "err = None"
  have "x = planLimit pl e \<or> (x = kvRecordedBytes e \<and> x \<le> planLimit pl e)"
    if e: "e \<in> set es" and x: "recordOn pod (claimStatus w1 (claimName e)) = Some x" for e x
  proof (cases "lowersRecord (pl e)")
    case True
    have pe: "pl e \<in> set (filter lowersRecord ls)" "limClaimName (pl e) = claimName e"
      "distinct (map limClaimName (filter lowersRecord ls))"
      using True p e by (auto simp: planOf_def distinct_map_filter)
    then show ?thesis using recordAll_value [OF r [unfolded err] pe(3,1)] x by simp
  next
    case False
    then have "kvRecordedBytes e \<le> planLimit pl e" using p e by (auto simp: planOf_def lowersRecord_def)
    then show ?thesis using through_end [OF t] e x
      by (auto simp: lowerPhase_def recordsSatisfy_def moment_def)
  qed
  then show "raisePhase pod es pl st0 (moment w1)"
    using through_end [OF t] by (auto simp: lowerPhase_def raisePhase_def recordsSatisfy_def moment_def)
qed

lemma raise_step:
  assumes p: "planOf hbm es ls pl" and dc: "inj_on claimName (set es)"
    and q: "raisePhase pod es pl st0 (moment w)"
    and r: "recordAll out pod (filter (\<lambda>l. \<not> lowersRecord l) ls) w = (err, w1)"
  shows "through (raisePhase pod es pl st0) w w1"
    and "err = None \<Longrightarrow> growPhase pod es pl st0 (moment w1)"
proof -
  have same: "e' = e" if "e \<in> set es" "e' \<in> set es" "claimName e = claimName e'" for e e'
    using dc that by (auto simp: inj_on_def)
  show t: "through (raisePhase pod es pl st0) w w1"
  proof (rule recordAll_through [where Q = "raisePhase pod es pl st0", OF r q])
    fix l seg st "is" assume l: "l \<in> set (filter (\<lambda>l. \<not> lowersRecord l) ls)"
      and m: "raisePhase pod es pl st0 (seg, st)" and st: "st (limClaimName l) = Some is"
    then obtain e' where e': "e' \<in> set es" "l = pl e'" "limClaimName l = claimName e'"
      using planOf_engine [OF p, of l] by auto
    have "kvLimitBytes l = planLimit pl e" if "e \<in> set es" "claimName e = limClaimName l" for e
      using same [OF that(1) e'(1)] that e' by auto
    then show "raisePhase pod es pl st0 (seg, st(limClaimName l \<mapsto> snd (recordInstances pod (kvLimitBytes l) is)))"
      using m st by (auto simp: raisePhase_def intro: limitsAtMost_segments recordsSatisfy_write)
  qed
  assume err: "err = None"
  have "x = planLimit pl e"
    if e: "e \<in> set es" and x: "recordOn pod (claimStatus w1 (claimName e)) = Some x" for e x
  proof (cases "lowersRecord (pl e)")
    case False
    have pe: "pl e \<in> set (filter (\<lambda>l. \<not> lowersRecord l) ls)" "limClaimName (pl e) = claimName e"
      "distinct (map limClaimName (filter (\<lambda>l. \<not> lowersRecord l) ls))"
      using False p e by (auto simp: planOf_def distinct_map_filter)
    then show ?thesis using recordAll_value [OF r [unfolded err] pe(3,1)] x by simp
  next
    case True
    then have "planLimit pl e < kvRecordedBytes e" using p e by (auto simp: planOf_def lowersRecord_def)
    then show ?thesis using through_end [OF t] e x
      by (fastforce simp: raisePhase_def recordsSatisfy_def moment_def)
  qed
  then show "growPhase pod es pl st0 (moment w1)"
    using through_end [OF t] by (auto simp: raisePhase_def growPhase_def recordsSatisfy_def moment_def)
qed

lemma grow_step:
  assumes p: "planOf hbm es ls pl" and dm: "inj_on modelName (set es)"
    and q: "growPhase pod es pl st0 (moment w)"
    and r: "writeAndConfirmKVLimits out thePod ledger (filter (\<lambda>l. writable l \<and> \<not> shrinks l) ls) w = (written, err, w1)"
  shows "through (growPhase pod es pl st0) w w1"
proof -
  have "kvLimitBytes l = planLimit pl e"
    if l: "l \<in> set ls" "e \<in> set es" "modelName e = limModelName l" for l e
  proof -
    obtain e' where "e' \<in> set es" "l = pl e'" "limModelName l = modelName e'"
      using planOf_engine [OF p l(1)] by metis
    moreover have "e' = e" using dm calculation l(2,3) by (auto simp: inj_on_def)
    ultimately show ?thesis by simp
  qed
  then have "through (growPhase pod es pl st0) w w1 \<and>
      set written \<subseteq> set (filter (\<lambda>l. writable l \<and> \<not> shrinks l) ls)"
    by (intro writeAndConfirm_through [where Q = "growPhase pod es pl st0", OF r q])
       (auto simp: growPhase_def recordsSatisfy_def intro!: limitsAtMost_write)
  then show ?thesis by blast
qed

lemma confirm_error_kind:
  assumes "writeAndConfirmKVLimits out pod ledger ls w = (written, Some err, w1)"
  shows "(\<nexists>e. err = GrowthIncomplete e) \<and> (\<nexists>c x. err = RecordFailed c x)"
proof -
  have "writeKVLimits out pod ledger ls w = (ws, Some err, w') \<Longrightarrow>
     (\<nexists>e. err = GrowthIncomplete e) \<and> (\<nexists>c x. err = RecordFailed c x)" for ws w'
  proof (induction ls arbitrary: w ws)
    case (Cons l ls)
    then show ?case by (auto split: prod.splits if_splits)
  qed simp
  then show ?thesis using assms
    by (auto simp: writeAndConfirmKVLimits_def Let_def split: prod.splits option.splits if_splits)
qed

lemma recordAll_error_kind:
  "recordAll out pod ls w = (Some err, w1) \<Longrightarrow> \<exists>c x. err = RecordFailed c x"
  by (induction ls arbitrary: w) (auto split: prod.splits if_splits)

text \<open>A division whose two steps are confirmed holds every engine with a segment to its plan.\<close>

lemma confirmed_limits:
  assumes p: "planOf hbm es ls pl" and dm: "inj_on modelName (set es)" and h: "honestRuntime out"
    and a: "accountTrue es pod w"
    and s: "writeAndConfirmKVLimits out thePod ledger (filter shrinks ls) w = (ws, None, w1)"
    and k: "segments w2 = segments w1"
    and g: "writeAndConfirmKVLimits out thePod ledger (filter (\<lambda>l. writable l \<and> \<not> shrinks l) ls) w2 = (gs, None, w3)"
    and e: "e \<in> set es" "segments w3 (modelName e) \<noteq> None"
  shows "segments w3 (modelName e) = Some (planLimit pl e)"
proof -
  have pe: "pl e \<in> set ls" "limModelName (pl e) = modelName e" "0 \<le> planLimit pl e"
    "limKVCapacityBytes (pl e) = kvCapacityBytes e"
    using p e(1) by (fastforce simp: planOf_def)+
  have other: "modelName e \<notin> limModelName ` set (filter P ls)" if "\<not> P (pl e)" for P
  proof
    assume "modelName e \<in> limModelName ` set (filter P ls)"
    then obtain l where l: "l \<in> set ls" "P l" "limModelName l = modelName e" by auto
    obtain e' where "e' \<in> set es" "l = pl e'" "limModelName l = modelName e'"
      using planOf_engine [OF p l(1)] by metis
    moreover have "e' = e" using dm e(1) l(3) calculation by (auto simp: inj_on_def)
    ultimately show False using l(2) that by simp
  qed
  note fs = writeAndConfirm_frame [OF s] and fg = writeAndConfirm_frame [OF g]
  have "segments w (modelName e) \<noteq> None" using fs(3) fg(3) k e(2) by simp
  then have cap: "segments w (modelName e) = Some (kvCapacityBytes e)" "0 \<le> kvCapacityBytes e"
    using a e(1) by (auto simp: accountTrue_def list_all_iff split: if_splits)
  show ?thesis
  proof (cases "shrinks (pl e)")
    case True
    then have "segments w1 (modelName e) = Some (planLimit pl e)"
      using writeAndConfirm_done [OF s h, of "pl e"] pe by simp
    then show ?thesis using fg(2) [OF other] True k by simp
  next
    case False
    show ?thesis
    proof (cases "writable (pl e)")
      case True
      then show ?thesis using writeAndConfirm_done [OF g h, of "pl e"] False pe by simp
    next
      case nw: False
      then have "segments w3 (modelName e) = segments w (modelName e)"
        using fs(2) [OF other] fg(2) [OF other] False k by simp
      then show ?thesis using cap nw pe by (auto simp: writable_def)
    qed
  qed
qed

lemma records_phases:
  assumes p: "planOf hbm es ls pl" and dc: "inj_on claimName (set es)"
    and q: "lowerPhase pod es pl (claimStatus w0) (moment w)"
    and a: "accountTrue es pod w0" and s: "cardSafe hbm es pod (moment w0)"
    and r: "recordAll out pod (filter lowersRecord ls @ filter (\<lambda>l. \<not> lowersRecord l) ls) w = (err, w')"
  shows "through (cardSafe hbm es pod) w w'"
    and "err = None \<Longrightarrow> growPhase pod es pl (claimStatus w0) (moment w')"
    and "err \<noteq> None \<Longrightarrow> divisionEnd pod es pl (claimStatus w0) err (moment w') \<and> planReturned ls err = None"
proof -
  let ?safe = "cardSafe hbm es pod" and ?st = "claimStatus w0"
  note safe = phases_safe [OF a s p]
  obtain e1 w1 where r1: "recordAll out pod (filter lowersRecord ls) w = (e1, w1)" by fastforce
  note t1 = lower_step [OF p dc q r1]
  have "through ?safe w w' \<and> (if err = None then growPhase pod es pl ?st (moment w')
          else lowerPhase pod es pl ?st (moment w') \<or> raisePhase pod es pl ?st (moment w'))"
  proof (cases e1)
    case (Some e)
    then have "err = Some e \<and> w' = w1" using r r1 by (simp add: recordAll_append)
    then show ?thesis using through_mono [OF t1(1) safe(2)] through_end [OF t1(1)] by simp
  next
    case None
    then have r2: "recordAll out pod (filter (\<lambda>l. \<not> lowersRecord l) ls) w1 = (err, w')"
      using r r1 by (simp add: recordAll_append)
    note t2 = raise_step [OF p dc t1(2) [OF None] r2]
    show ?thesis
      using through_trans [OF through_mono [OF t1(1) safe(2)] through_mono [OF t2(1) safe(3)]] t2(2) through_end [OF t2(1)]
      by simp
  qed
  moreover have "err \<noteq> None \<Longrightarrow> \<exists>c x. err = Some (RecordFailed c x)"
    using recordAll_error_kind r by fastforce
  ultimately show "through ?safe w w'" and "err = None \<Longrightarrow> growPhase pod es pl ?st (moment w')"
    and "err \<noteq> None \<Longrightarrow> divisionEnd pod es pl ?st err (moment w') \<and> planReturned ls err = None"
    by (auto simp: divisionEnd_def planReturned_def)
qed

lemma recordAndGrow_phases:
  assumes p: "planOf hbm es ls pl" and dc: "inj_on claimName (set es)" and dm: "inj_on modelName (set es)"
    and h: "honestRuntime out" and a: "accountTrue es (podName pod) w" and s: "cardSafe hbm es (podName pod) (moment w)"
    and s1: "writeAndConfirmKVLimits out pod ledger (filter shrinks ls) w = (written, None, w1)"
    and q: "lowerPhase (podName pod) es pl (claimStatus w) (moment w1)"
    and c: "recordAndGrow out pod ledger why ls w1 = (res, err, w')"
  shows "through (cardSafe hbm es (podName pod)) w1 w' \<and>
         divisionEnd (podName pod) es pl (claimStatus w) err (moment w') \<and> res = planReturned ls err"
proof -
  obtain e2 w2 where s2: "recordAll out (podName pod)
      (filter lowersRecord ls @ filter (\<lambda>l. \<not> lowersRecord l) ls) w1 = (e2, w2)" by fastforce
  note t2 = records_phases [OF p dc q a s s2]
  show ?thesis
  proof (cases e2)
    case (Some e)
    then have "res = None \<and> err = e2 \<and> w' = w2" using c s2 by (simp add: recordAndGrow_def)
    then show ?thesis using t2(1,3) Some by simp
  next
    case None
    let ?growing = "filter (\<lambda>l. writable l \<and> \<not> shrinks l) ls"
    obtain gs e3 w3 where s3: "writeAndConfirmKVLimits out pod ledger ?growing w2 = (gs, e3, w3)"
      using prod_cases3 by blast
    note t3 = grow_step [OF p dm t2(2) [OF None] s3]
    have past: "through (cardSafe hbm es (podName pod)) w1 w3"
      by (rule through_trans [OF t2(1) through_mono [OF t3 phases_safe(4) [OF a s p]]])
    have r: "res = Some ls \<and> err = map_option GrowthIncomplete e3 \<and> moment w' = moment w3 \<and> cwPast w' = cwPast w3"
      using c s2 s3 None by (auto simp: recordAndGrow_def shrinksAndGrows_eq Let_def split: if_splits)
    have "\<forall>e \<in> set es. segments w3 (modelName e) \<noteq> None \<longrightarrow> segments w3 (modelName e) = Some (planLimit pl e)"
      if "e3 = None"
      using confirmed_limits [OF p dm h a s1 _ s3 [unfolded that]] recordAll_frame [OF s2] by blast
    then show ?thesis using r through_end [OF t3] through_quiet [OF _ _ past, of w']
      by (cases e3) (auto simp: divisionEnd_def planReturned_def moment_def)
  qed
qed

lemma carryOut_phases:
  assumes p: "planOf hbm es ls pl" and dc: "inj_on claimName (set es)" and dm: "inj_on modelName (set es)"
    and h: "honestRuntime out" and a: "accountTrue es (podName pod) w" and s: "cardSafe hbm es (podName pod) (moment w)"
    and c: "carryOut out pod ledger why ls w = (res, err, w')"
  shows "through (cardSafe hbm es (podName pod)) w w'"
    and "divisionEnd (podName pod) es pl (claimStatus w) err (moment w')"
    and "res = planReturned ls err"
proof -
  let ?safe = "cardSafe hbm es (podName pod)" and ?st = "claimStatus w"
  note safe = phases_safe [OF a s p]
  have q: "shrinkPhase es ?st (moment w)"
    using a by (auto simp: shrinkPhase_def limitsAtMost_def moment_def accountTrue_def list_all_iff split: if_splits)
  obtain written e1 w1 where s1: "writeAndConfirmKVLimits out pod ledger (filter shrinks ls) w = (written, e1, w1)"
    using prod_cases3 by blast
  note t1 = shrink_step [OF p dm q s1]
  have "through ?safe w w' \<and> divisionEnd (podName pod) es pl ?st err (moment w') \<and> res = planReturned ls err"
  proof (cases e1)
    case (Some e)
    then have r: "res = None" "err = Some e"
      "w' = forgetReading (podName pod) (takeBackKVLimits out ledger written w1)"
      using c s1 by (simp_all add: carryOut_def shrinksAndGrows_eq)
    moreover have "through ?safe w w'"
      using through_mono [OF t1(2) safe(1)] r(3) through_quiet [of w' "takeBackKVLimits out ledger written w1"] by simp
    moreover have "shrinkPhase es ?st (moment w')" using through_end [OF t1(2)] r(3) by simp
    ultimately show ?thesis using confirm_error_kind [of out pod ledger "filter shrinks ls" w written e w1] s1 Some
      by (auto simp: divisionEnd_def planReturned_def split: arrangeError.split)
  next
    case None
    then have "recordAndGrow out pod ledger why ls w1 = (res, err, w')"
      using c s1 by (simp add: carryOut_def shrinksAndGrows_eq)
    moreover have "lowerPhase (podName pod) es pl ?st (moment w1)"
      by (rule shrinks_confirmed [OF p h a q s1 [unfolded None] through_end [OF t1(1)]])
    moreover have "through ?safe w w1" by (rule through_mono [OF t1(1) safe(1)])
    ultimately show ?thesis using recordAndGrow_phases [OF p dc dm h a s s1 [unfolded None]]
      by (blast intro: through_trans)
  qed
  then show "through ?safe w w'" and "divisionEnd (podName pod) es pl ?st err (moment w')"
    and "res = planReturned ls err"
    by blast+
qed

lemma pred_option_le: "(\<And>x. v = Some x \<Longrightarrow> P x) \<Longrightarrow> pred_option P v"
  by (cases v) auto

lemma growPhase_meaning:
  assumes "growPhase pod es pl st0 (moment w)" and "e \<in> set es"
  shows "pred_option (\<lambda>x. x \<le> planLimit pl e) (segments w (modelName e)) \<and>
         recordOn pod (claimStatus w (claimName e)) \<in> {None, Some (planLimit pl e)}"
  using assms by (auto simp: growPhase_def limitsAtMost_def recordsSatisfy_def moment_def intro: pred_option_le)

lemma recordPhase_meaning:
  assumes "lowerPhase pod es pl st0 (moment w) \<or> raisePhase pod es pl st0 (moment w)" and "e \<in> set es"
  shows "pred_option (\<lambda>x. x \<le> planLimit pl e) (segments w (modelName e))"
  using assms by (auto simp: lowerPhase_def raisePhase_def limitsAtMost_def moment_def intro!: pred_option_le)

lemma shrinkPhase_meaning:
  assumes "shrinkPhase es st0 (moment w)"
  shows "claimStatus w = st0 \<and> (\<forall>e \<in> set es. pred_option (\<lambda>x. x \<le> kvCapacityBytes e) (segments w (modelName e)))"
  using assms by (auto simp: shrinkPhase_def limitsAtMost_def moment_def intro!: pred_option_le)

section \<open>A card arranged, from its plan on\<close>

lemma accountTrue_moment:
  "moment w' = moment w \<Longrightarrow> accountTrue es pod w' = accountTrue es pod w"
  by (simp add: accountTrue_def moment_def)

lemma arrangeCard_cases:
  assumes "card_sane (plannableBytes ledger) es" and "distinct (map claimName es)"
  obtains (refused) err where "arrangeCard out ns pod ledger es why w = Some (None, Some (PlanRefused err), w)"
  | (alone) ls owed w1 where "planKVLimits (plannableBytes ledger) es = Some (Inr ls)"
      and "arrangeCard out ns pod ledger es why w = Some (Some ls, Some (CardLeftAlone owed), w1)"
      and "w1 = warnKVCapacityBelowFloor out ns (podName pod) es w"
  | (carried) ls pl w1 where "planKVLimits (plannableBytes ledger) es = Some (Inr ls)"
      and "planOf (plannableBytes ledger) es ls pl"
      and "arrangeCard out ns pod ledger es why w = Some (carryOut out pod ledger why ls w1)"
      and "w1 = warnKVCapacityBelowFloor out ns (podName pod) es w"
proof -
  obtain r where r: "planKVLimits (plannableBytes ledger) es = Some r"
    using planKVLimits_eq_reference [OF assms(1)] by blast
  show thesis
  proof (cases r)
    case (Inl err)
    then show ?thesis using refused [of err] r by (simp add: arrangeCard_def)
  next
    case (Inr ls)
    obtain pl where pl: "planOf (plannableBytes ledger) es ls pl"
      using plan_is_function [OF assms(1) _ assms(2)] r Inr by blast
    obtain needed owed where n: "needsDividing es ls (minimumChangeBytes why) (whyOwedBefore why) = (needed, owed)"
      by fastforce
    show ?thesis
    proof (cases "onlyWhenNeeded why \<and> \<not> needed \<or>
                  minimumChangeBytes why > 0 \<and> \<not> worthWriting ls (minimumChangeBytes why)")
      case True
      then show ?thesis using r Inr n by (intro alone [of ls owed]) (auto simp: arrangeCard_def Let_def)
    next
      case False
      then show ?thesis using r Inr n pl by (intro carried [of ls pl]) (auto simp: arrangeCard_def Let_def)
    qed
  qed
qed

lemma exOutside_honest: "honestRuntime exOutside"
  by (auto simp: honestRuntime_def exOutside_def exReported_def exModel_def snapshot_models_def split: option.splits)

lemma exLopsided_facts:
  "card_sane (plannableBytes exCardLedger) exLopsided" "distinct (map claimName exLopsided)"
  "distinct (map modelName exLopsided)" "accountTrue exLopsided (podName exCandidate) exWorld"
  "cardSafe (plannableBytes exCardLedger) exLopsided (podName exCandidate) (moment exWorld)"
  by code_simp+

section \<open>Properties\<close>

text \<open>C1. Dividing a card is safe at every moment, whatever call fails and whether or not a failed
  call took effect. If no engine is held to more than its record and the records fit the card when
  the division starts, that is so after every write, every read-back and every record on the way,
  and when the division returns, which it always does.\<close>

theorem arrangement_never_promises_twice:
  assumes "card_sane (plannableBytes ledger) es" and "distinct (map claimName es)"
    and "distinct (map modelName es)" and "honestRuntime out" and "accountTrue es (podName pod) w"
    and "cardSafe (plannableBytes ledger) es (podName pod) (moment w)"
  shows "\<exists>res err w'. arrangeCard out ns pod ledger es why w = Some (res, err, w') \<and>
           through (cardSafe (plannableBytes ledger) es (podName pod)) w w'"
proof -
  let ?safe = "cardSafe (plannableBytes ledger) es (podName pod)"
  have warned: "through ?safe w (warnKVCapacityBelowFloor out ns (podName pod) es w)"
    using assms(6) by (rule warnKVCapacityBelowFloor_through)
  show ?thesis
    using assms(1,2)
  proof (cases rule: arrangeCard_cases [where out = out and ns = ns and pod = pod and why = why and w = w])
    case (refused err)
    then show ?thesis using assms(6) by (auto intro: through_refl)
  next
    case (alone ls owed w1)
    then show ?thesis using warned by auto
  next
    case (carried ls pl w1)
    have m: "moment w1 = moment w" using carried(4) warnKVCapacityBelowFloor_quiet by blast
    obtain res err w' where c: "carryOut out pod ledger why ls w1 = (res, err, w')" using prod_cases3 by blast
    have "through (cardSafe (plannableBytes ledger) es (podName pod)) w1 w'"
      using carryOut_phases(1) [OF carried(2) _ _ assms(4) _ _ c] assms m
      by (simp add: distinct_map accountTrue_moment [OF m])
    then show ?thesis using carried(3) c warned carried(4)
      by (auto intro: through_trans)
  qed
qed

theorem arrangement_never_promises_twice_witness:
  "\<exists>res err w'. arrangeCard exOutside ''ns'' exCandidate exCardLedger exLopsided compositionDivision exWorld
       = Some (res, err, w') \<and>
     through (cardSafe (plannableBytes exCardLedger) exLopsided (podName exCandidate)) exWorld w'"
  by (rule arrangement_never_promises_twice [OF exLopsided_facts(1-3) exOutside_honest exLopsided_facts(4-5)])

text \<open>C18. What a division leaves behind, by how it ends. One that succeeds holds every engine that
  has a segment to its planned limit, and every instance on the card records its plan. One that
  could not grow every engine has made every record, and no engine is held to more than its plan. One
  that fails at a record leaves no engine held to more than its plan. One that fails before leaves
  every record as it was, and no engine is held to more than before.\<close>

theorem arrangement_ends_as_reported:
  assumes "card_sane (plannableBytes ledger) es" and "distinct (map claimName es)"
    and "distinct (map modelName es)" and "honestRuntime out" and "accountTrue es (podName pod) w"
    and "cardSafe (plannableBytes ledger) es (podName pod) (moment w)"
    and "arrangeCard out ns pod ledger es why w = Some (res, err, w')"
  shows "case err of
           None \<Rightarrow> (\<exists>ls. planKVLimits (plannableBytes ledger) es = Some (Inr ls) \<and> res = Some ls \<and>
             (\<forall>l \<in> set ls. segments w' (limModelName l) \<in> {None, Some (kvLimitBytes l)} \<and>
                recordOn (podName pod) (claimStatus w' (limClaimName l)) \<in> {None, Some (kvLimitBytes l)}))
         | Some (GrowthIncomplete _) \<Rightarrow> (\<exists>ls. planKVLimits (plannableBytes ledger) es = Some (Inr ls) \<and> res = Some ls \<and>
             (\<forall>l \<in> set ls. pred_option (\<lambda>x. x \<le> kvLimitBytes l) (segments w' (limModelName l)) \<and>
                recordOn (podName pod) (claimStatus w' (limClaimName l)) \<in> {None, Some (kvLimitBytes l)}))
         | Some (RecordFailed _ _) \<Rightarrow> (\<exists>ls. planKVLimits (plannableBytes ledger) es = Some (Inr ls) \<and>
             (\<forall>l \<in> set ls. pred_option (\<lambda>x. x \<le> kvLimitBytes l) (segments w' (limModelName l))))
         | Some _ \<Rightarrow> claimStatus w' = claimStatus w \<and>
             (\<forall>e \<in> set es. pred_option (\<lambda>x. x \<le> kvCapacityBytes e) (segments w' (modelName e)))"
proof -
  have start: "\<forall>e \<in> set es. pred_option (\<lambda>x. x \<le> kvCapacityBytes e) (segments w (modelName e))"
    using assms(5) by (auto simp: accountTrue_def list_all_iff split: if_splits)
  show ?thesis
    using assms(1,2)
  proof (cases rule: arrangeCard_cases [where out = out and ns = ns and pod = pod and why = why and w = w])
    case (refused e)
    then show ?thesis using assms(7) start by simp
  next
    case (alone ls owed w1)
    have "moment w1 = moment w" using alone(3) warnKVCapacityBelowFloor_quiet by blast
    then show ?thesis using alone(2) assms(7) start by (simp add: moment_def)
  next
    case (carried ls pl w1)
    have m: "moment w1 = moment w" using carried(4) warnKVCapacityBelowFloor_quiet by blast
    have c: "carryOut out pod ledger why ls w1 = (res, err, w')" using carried(3) assms(7) by simp
    note ph = carryOut_phases [OF carried(2) _ _ assms(4) _ _ c]
    have e: "divisionEnd (podName pod) es pl (claimStatus w1) err (moment w')"
      and r: "res = planReturned ls err"
      using ph(2,3) assms m by (simp_all add: distinct_map accountTrue_moment [OF m])
    have each: "\<forall>l \<in> set ls. P (limModelName l) (limClaimName l) (kvLimitBytes l)"
      if "\<forall>e \<in> set es. P (modelName e) (claimName e) (planLimit pl e)" for P
      using carried(2) that by (auto simp: planOf_def)
    note grown = each [of "\<lambda>m c x. pred_option (\<lambda>y. y \<le> x) (segments w' m) \<and>
        recordOn (podName pod) (claimStatus w' c) \<in> {None, Some x}"]
    note exact = each [of "\<lambda>m c x. segments w' m \<in> {None, Some x} \<and>
        recordOn (podName pod) (claimStatus w' c) \<in> {None, Some x}"]
    note bound = each [of "\<lambda>m c x. pred_option (\<lambda>y. y \<le> x) (segments w' m)"]
    have st: "claimStatus w1 = claimStatus w" using m by (simp add: moment_def)
    show ?thesis
    proof (cases err)
      case None
      have "\<forall>e \<in> set es. segments w' (modelName e) \<in> {None, Some (planLimit pl e)}"
        using e None by (auto simp: divisionEnd_def moment_def)
      moreover have "growPhase (podName pod) es pl (claimStatus w1) (moment w')"
        using e None by (simp add: divisionEnd_def)
      ultimately have "\<forall>e \<in> set es. segments w' (modelName e) \<in> {None, Some (planLimit pl e)} \<and>
          recordOn (podName pod) (claimStatus w' (claimName e)) \<in> {None, Some (planLimit pl e)}"
        using growPhase_meaning by blast
      from exact [OF this] show ?thesis using None r carried(1) by (simp add: planReturned_def)
    next
      case (Some x)
      show ?thesis
      proof (cases x)
        case (GrowthIncomplete y)
        then have "growPhase (podName pod) es pl (claimStatus w1) (moment w')"
          using e Some by (simp add: divisionEnd_def)
        from grown [OF ballI, OF growPhase_meaning [OF this]] show ?thesis
          using GrowthIncomplete Some r carried(1) by (simp add: planReturned_def)
      next
        case (RecordFailed c y)
        then have "lowerPhase (podName pod) es pl (claimStatus w1) (moment w') \<or>
            raisePhase (podName pod) es pl (claimStatus w1) (moment w')"
          using e Some by (simp add: divisionEnd_def)
        from bound [OF ballI, OF recordPhase_meaning [OF this]] show ?thesis
          using RecordFailed Some carried(1) by simp
      qed (use e Some st shrinkPhase_meaning [of es "claimStatus w" w'] in \<open>simp_all add: divisionEnd_def\<close>)
    qed
  qed
qed

theorem arrangement_ends_as_reported_witness:
  "\<exists>res w'. arrangeCard exOutside ''ns'' exCandidate exCardLedger exLopsided compositionDivision exWorld
       = Some (res, None, w') \<and>
     (\<exists>ls. planKVLimits 100 exLopsided = Some (Inr ls) \<and> res = Some ls \<and>
        (\<forall>l \<in> set ls. segments w' (limModelName l) \<in> {None, Some (kvLimitBytes l)} \<and>
           recordOn ''p'' (claimStatus w' (limClaimName l)) \<in> {None, Some (kvLimitBytes l)}))"
proof -
  let ?r = "arrangeCard exOutside ''ns'' exCandidate exCardLedger exLopsided compositionDivision exWorld"
  have "map_option (\<lambda>(res, err, w'). err) ?r = Some None" by code_simp
  then obtain res w' where r: "?r = Some (res, None, w')" by auto
  have "plannableBytes exCardLedger = 100" "podName exCandidate = ''p''" by code_simp+
  then show ?thesis
    using arrangement_ends_as_reported [OF exLopsided_facts(1-3) exOutside_honest exLopsided_facts(4-5) r] r
    by simp
qed

text \<open>C4. Room is made before a model is placed. When a division for a newcomer returns its limit, the
  limit covers the KV floor the claim declared, and the card holds the newcomer: its footprint and
  limit, together with what every engine beside it may come to under its record, fit the card.\<close>

theorem room_is_made_for_newcomer:
  assumes "newcomer = recordedEngine (clmName pm) (servedModelName pm) perGPU 0"
    and "card_sane (plannableBytes ledger) (engines ledger @ [newcomer])"
    and "distinct (map claimName (engines ledger @ [newcomer]))"
    and "distinct (map modelName (engines ledger @ [newcomer]))"
    and "honestRuntime out" and "accountTrue (engines ledger @ [newcomer]) (podName pod) w"
    and "cardSafe (plannableBytes ledger) (engines ledger @ [newcomer]) (podName pod) (moment w)"
    and "makeRoomOnPod out pm perGPU pod ledger w = Some (Inr limit, w')"
  shows "kvFloorBytes perGPU \<le> limit \<and>
         maximumFootprintBytes perGPU + limit
           + sum_list (map (promisedBytes (podName pod) (moment w')) (engines ledger)) \<le> plannableBytes ledger"
proof -
  let ?es = "engines ledger @ [newcomer]" and ?hbm = "plannableBytes ledger"
  obtain res err where a: "arrangeCard out (clmNamespace pm) pod ledger ?es placementDivision w = Some (res, err, w')"
    and l: "newcomerLimit (clmName pm) (podName pod) (the res) = Inr limit"
    and ok: "err = None \<or> (\<exists>x. err = Some (GrowthIncomplete x))"
    using assms(1,8) by (auto simp: makeRoomOnPod_def split: option.splits prod.splits arrangeError.splits)
  show ?thesis
    using assms(2,3)
  proof (cases rule: arrangeCard_cases [where out = out and ns = "clmNamespace pm" and pod = pod
        and why = placementDivision and w = w])
    case (carried ls pl w1)
    have m: "moment w1 = moment w" using carried(4) warnKVCapacityBelowFloor_quiet by blast
    have c: "carryOut out pod ledger placementDivision ls w1 = (res, err, w')" using carried(3) a by simp
    have inj: "inj_on claimName (set ?es)" "inj_on modelName (set ?es)"
      using assms(3,4) unfolding distinct_map by blast+
    have "accountTrue ?es (podName pod) w1" "cardSafe ?hbm ?es (podName pod) (moment w1)"
      using assms(6,7) by (simp_all only: accountTrue_moment [OF m] m)
    then have e: "divisionEnd (podName pod) ?es pl (claimStatus w1) err (moment w')"
      and "res = planReturned ls err"
      using carryOut_phases(2,3) [OF carried(2) inj assms(5) _ _ c] by blast+
    then have r: "the res = ls" using ok by (auto simp: planReturned_def)
    have g: "growPhase (podName pod) ?es pl (claimStatus w1) (moment w')"
      using e ok by (auto simp: divisionEnd_def)
    obtain x where x: "find (\<lambda>l. limClaimName l = clmName pm) ls = Some x" "limit = kvLimitBytes x"
      using l r by (auto simp: newcomerLimit_def split: option.splits)
    then have "x \<in> set ls" "limClaimName x = clmName pm" by (auto simp: find_Some_iff)
    then obtain e' where e': "e' \<in> set ?es" "x = pl e'" "claimName e' = clmName pm"
      using planOf_engine [OF carried(2), of x] by metis
    have "claimName newcomer = clmName pm" by (simp add: assms(1) recordedEngine_def)
    then have "e' = newcomer" using e' by (intro inj_onD [OF inj(1)]) simp_all
    then have lim: "limit = planLimit pl newcomer" using x e' by simp
    have cost: "costBesideKV newcomer = maximumFootprintBytes perGPU" "plannedKVHeldBytes newcomer = kvFloorBytes perGPU"
      using card_sane_engine [OF assms(2), of newcomer]
      by (simp_all add: costBesideKV_def held_exact plannedKVHeldBytes_def kvHeldBytes_def assms(1) recordedEngine_def
            effectiveKVFloorBytes_def engine_sane_def)
    have "promisedBytes (podName pod) (moment w') e \<le> costBesideKV e + planLimit pl e" if "e \<in> set (engines ledger)" for e
      using growPhase_meaning [OF g, of e] carried(2) that
      by (auto simp: promisedBytes_def moment_def planOf_def costBesideKV_def)
    then have "sum_list (map (promisedBytes (podName pod) (moment w')) (engines ledger))
        \<le> (\<Sum>e\<leftarrow>engines ledger. costBesideKV e + planLimit pl e)"
      by (intro sum_list_map_mono_int) simp
    moreover have "(\<Sum>e\<leftarrow>engines ledger. costBesideKV e + planLimit pl e) + costBesideKV newcomer + limit \<le> ?hbm"
      using carried(2) lim by (simp add: planOf_def)
    moreover have "kvFloorBytes perGPU \<le> limit" using carried(2) lim cost by (simp add: planOf_def)
    ultimately show ?thesis using cost by linarith
  qed (use a ok in auto)
qed

theorem room_is_made_for_newcomer_witness:
  "\<exists>limit w'. makeRoomOnPod exOutside exNewcomer \<lparr>maximumFootprintBytes = 10, kvFloorBytes = 2\<rparr> exCandidate exCardLedger exWorld
       = Some (Inr limit, w') \<and> 2 \<le> limit \<and>
     10 + limit + sum_list (map (promisedBytes ''p'' (moment w')) exLopsided) \<le> 100"
proof -
  let ?g = "\<lparr>maximumFootprintBytes = 10, kvFloorBytes = 2\<rparr>"
  let ?r = "makeRoomOnPod exOutside exNewcomer ?g exCandidate exCardLedger exWorld"
  let ?n = "recordedEngine (clmName exNewcomer) (servedModelName exNewcomer) ?g 0"
  have "case ?r of Some (Inr _, _) \<Rightarrow> True | _ \<Rightarrow> False" by code_simp
  then obtain limit w' where r: "?r = Some (Inr limit, w')" by (auto split: option.splits sum.splits prod.splits)
  have "card_sane (plannableBytes exCardLedger) (engines exCardLedger @ [?n])"
    "distinct (map claimName (engines exCardLedger @ [?n]))" "distinct (map modelName (engines exCardLedger @ [?n]))"
    "accountTrue (engines exCardLedger @ [?n]) (podName exCandidate) exWorld"
    "cardSafe (plannableBytes exCardLedger) (engines exCardLedger @ [?n]) (podName exCandidate) (moment exWorld)"
    by code_simp+
  from room_is_made_for_newcomer [OF refl this(1-3) exOutside_honest this(4,5) r] r
  show ?thesis by (simp add: exCardLedger_def exCandidate_def plannableBytes_def emptyLedger_def i64_id)
qed

end
