(* ===== verification/Placement.thy ===== *)
theory Placement
  imports KvPlan "HOL-Library.Product_Lexorder"
begin

text \<open>
  Choosing a card for a model (\<^verbatim>\<open>src/pkg/controller/modelclaim/placement.go\<close>) and whose turn it is
  (\<^verbatim>\<open>priority.go\<close>).

  \<open>admissibleCandidates\<close> is the gate, \<open>selectPodForActivationWithState\<close> the ranking behind it, and
  \<open>placementTurnBlocker\<close> the order among claims that wait. The cost of a \<^verbatim>\<open>LocalityProvider\<close>, the
  label selector of a claim, and the feasibility and backoff answers are parameters.
\<close>

section \<open>The gate\<close>

datatype refusalReason =
    CouldNotBeJudged "holeReason option"
  | WrongTopology int int
  | OffersAtMost int
  | FreeNow int

record podRefusal =
  rfPod :: string
  rfRoomBytes :: int
  rfKnown :: bool
  rfCouldHold :: bool
  rfReason :: refusalReason

definition fitsTopology :: "'q quantityOps \<Rightarrow> 'q corePod \<Rightarrow> podLedger \<Rightarrow> int \<Rightarrow> bool" where
  "fitsTopology q pod l instanceGPUs \<longleftrightarrow>
     instanceGPUs = 0 \<or> podGPUCount q pod > 0 \<or> accelerators l = 0 \<or> accelerators l = instanceGPUs"

text \<open>A pod missing from the map of accounts reads as the zero account.\<close>

definition ledgerOf :: "(string \<rightharpoonup> podLedger) \<Rightarrow> string \<Rightarrow> podLedger" where
  "ledgerOf ledgers name = (case ledgers name of Some l \<Rightarrow> l | None \<Rightarrow> emptyLedger)"

definition judgeCandidate ::
  "'q quantityOps \<Rightarrow> (string \<rightharpoonup> podLedger) \<Rightarrow> int \<Rightarrow> int \<Rightarrow> 'q corePod \<Rightarrow> podRefusal option" where
  "judgeCandidate q ledgers minimumReserve instanceGPUs pod =
     (let l = ledgerOf ledgers (podName pod)
      in if \<not> unread l \<and> \<not> podHasGPUs q pod (accelerators l) then None
         else if \<not> judgeable l
         then Some \<lparr>rfPod = podName pod, rfRoomBytes = 0, rfKnown = False, rfCouldHold = False,
                    rfReason = CouldNotBeJudged (blocked l)\<rparr>
         else if \<not> fitsTopology q pod l instanceGPUs
         then Some \<lparr>rfPod = podName pod, rfRoomBytes = 0, rfKnown = False, rfCouldHold = False,
                    rfReason = WrongTopology (accelerators l) instanceGPUs\<rparr>
         else if maximumRoomBytes l < minimumReserve
         then (let room = max (maximumRoomBytes l) 0
               in Some \<lparr>rfPod = podName pod, rfRoomBytes = room, rfKnown = True, rfCouldHold = False,
                        rfReason = OffersAtMost room\<rparr>)
         else if heldRoomBytes l < minimumReserve
         then (let room = max (heldRoomBytes l) 0
               in Some \<lparr>rfPod = podName pod, rfRoomBytes = room, rfKnown = True, rfCouldHold = True,
                        rfReason = FreeNow room\<rparr>)
         else None)"

fun admissibleCandidates ::
  "'q quantityOps \<Rightarrow> 'q corePod list \<Rightarrow> (string \<rightharpoonup> podLedger) \<Rightarrow> int \<Rightarrow> int \<Rightarrow>
     'q corePod list \<times> podRefusal list" where
  "admissibleCandidates q [] ledgers need gpus = ([], [])"
| "admissibleCandidates q (pod # pods) ledgers need gpus =
     (let (ok, refused) = admissibleCandidates q pods ledgers need gpus
      in case judgeCandidate q ledgers need gpus pod of
           None \<Rightarrow> (pod # ok, refused)
         | Some r \<Rightarrow> (ok, r # refused))"

fun tooLargeLoop ::
  "'q quantityOps \<Rightarrow> 'q corePod list \<Rightarrow> (string \<rightharpoonup> podLedger) \<Rightarrow> int \<Rightarrow> int \<Rightarrow> int \<times> bool" where
  "tooLargeLoop q [] ledgers need largest = (largest, True)"
| "tooLargeLoop q (pod # pods) ledgers need largest =
     (let l = ledgerOf ledgers (podName pod)
      in if \<not> podHasGPUs q pod (accelerators l) \<or> hbmUsableBytes l \<le> 0 \<or> hbmUsableBytes l \<ge> need
         then (0, False)
         else tooLargeLoop q pods ledgers need (max largest (hbmUsableBytes l)))"

definition tooLargeForEveryCard ::
  "'q quantityOps \<Rightarrow> 'q corePod list \<Rightarrow> (string \<rightharpoonup> podLedger) \<Rightarrow> int \<Rightarrow> int \<times> bool" where
  "tooLargeForEveryCard q candidates ledgers need =
     (if candidates = [] then (0, False) else tooLargeLoop q candidates ledgers need 0)"

definition withoutPod :: "'q corePod list \<Rightarrow> string \<Rightarrow> 'q corePod list" where
  "withoutPod pods name = filter (\<lambda>p. podName p \<noteq> name) pods"

text \<open>The refusal a summary names, by its index, as the loop of \<open>summarizeRefusals\<close> finds it.\<close>

fun roomiestRefusal :: "podRefusal \<Rightarrow> podRefusal list \<Rightarrow> podRefusal" where
  "roomiestRefusal best [] = best"
| "roomiestRefusal best (r # rs) =
     roomiestRefusal
       (if \<not> rfKnown r then best
        else if \<not> rfKnown best \<or> (rfCouldHold r \<and> \<not> rfCouldHold best) then r
        else if rfCouldHold r = rfCouldHold best \<and> rfRoomBytes r > rfRoomBytes best then r
        else best) rs"

definition summarizeRefusals :: "podRefusal list \<Rightarrow> int \<Rightarrow> int \<times> (refusalReason \<times> nat) option" where
  "summarizeRefusals rs need =
     (need, case rs of [] \<Rightarrow> None | r # _ \<Rightarrow> Some (rfReason (roomiestRefusal r rs), length rs - 1))"

section \<open>The ranking\<close>

definition rankByRoom ::
  "(string \<Rightarrow> podPlacementState) \<Rightarrow> (string \<rightharpoonup> podLedger) \<Rightarrow> (string \<Rightarrow> podPlacementState)" where
  "rankByRoom states ledgers name =
     (case ledgers name of
        None \<Rightarrow> states name
      | Some l \<Rightarrow> if \<not> judgeable l then states name
                  else (states name)\<lparr>MaximumRoomBytes := maximumRoomBytes l, MaximumRoomKnown := True\<rparr>)"

definition placementStateLess :: "podPlacementState \<Rightarrow> podPlacementState \<Rightarrow> bool" where
  "placementStateLess a b =
     (if ArtifactCached a \<noteq> ArtifactCached b then ArtifactCached a
      else if SnapshotKnown a \<noteq> SnapshotKnown b then SnapshotKnown a
      else if MemoryKnown a \<noteq> MemoryKnown b then MemoryKnown a
      else if MaximumRoomKnown a \<noteq> MaximumRoomKnown b then MaximumRoomKnown a
      else if SnapshotKnown a \<and> AwakeCount a \<noteq> AwakeCount b then AwakeCount a < AwakeCount b
      else if MaximumRoomKnown a \<and> MaximumRoomBytes a \<noteq> MaximumRoomBytes b
           then MaximumRoomBytes a > MaximumRoomBytes b
      else if MemoryKnown a \<and> HBMFreeBytes a \<noteq> HBMFreeBytes b then HBMFreeBytes a > HBMFreeBytes b
      else if SnapshotKnown a \<and> psKVUsedBytes a \<noteq> psKVUsedBytes b then psKVUsedBytes a < psKVUsedBytes b
      else if SnapshotKnown a \<and> ModelCount a \<noteq> ModelCount b then ModelCount a < ModelCount b
      else False)"

definition rankLess ::
  "'c::linorder \<Rightarrow> int \<Rightarrow> string \<Rightarrow> 'c \<Rightarrow> int \<Rightarrow> string \<Rightarrow> bool" where
  "rankLess loc load name bLoc bLoad bName =
     (if loc \<noteq> bLoc then loc < bLoc else if load \<noteq> bLoad then load < bLoad else name < bName)"

definition ranksAhead ::
  "(string \<Rightarrow> 'c::linorder) \<Rightarrow> (string \<Rightarrow> int) \<Rightarrow> (string \<Rightarrow> podPlacementState) \<Rightarrow>
     'q corePod \<Rightarrow> 'q corePod \<Rightarrow> bool" where
  "ranksAhead cost load states p b \<longleftrightarrow>
     placementStateLess (states (podName p)) (states (podName b)) \<or>
     (\<not> placementStateLess (states (podName b)) (states (podName p)) \<and>
      rankLess (cost (podNodeName p)) (load (podName p)) (podName p)
               (cost (podNodeName b)) (load (podName b)) (podName b))"

fun selectPodLoop ::
  "(string \<Rightarrow> 'c::linorder) \<Rightarrow> (string \<Rightarrow> int) \<Rightarrow> (string \<Rightarrow> podPlacementState) \<Rightarrow> (string \<Rightarrow> bool) \<Rightarrow>
     'q corePod list \<Rightarrow> 'q corePod option \<Rightarrow> 'q corePod option" where
  "selectPodLoop cost load states alreadyOn [] best = best"
| "selectPodLoop cost load states alreadyOn (p # ps) best =
     (if alreadyOn (podName p) then selectPodLoop cost load states alreadyOn ps best
      else selectPodLoop cost load states alreadyOn ps
             (case best of
                None \<Rightarrow> Some p
              | Some b \<Rightarrow> if ranksAhead cost load states p b then Some p else Some b))"

definition selectPodForActivationWithState ::
  "'q corePod list \<Rightarrow> (string \<Rightarrow> bool) \<Rightarrow> (string \<Rightarrow> int) \<Rightarrow> (string \<Rightarrow> 'c::linorder) \<Rightarrow>
     (string \<Rightarrow> podPlacementState) \<Rightarrow> 'q corePod option" where
  "selectPodForActivationWithState candidates alreadyOn load cost states =
     selectPodLoop cost load states alreadyOn candidates None"

section \<open>Whose turn it is\<close>

text \<open>\<^verbatim>\<open>sort.SliceStable\<close> by descending priority, then age, then name.\<close>

definition placementPriorityKey :: "'q modelClaim \<Rightarrow> int \<times> int \<times> string" where
  "placementPriorityKey c = (- specPriority c, clmCreationTimestamp c, clmName c)"

definition placementPriorityFirst :: "'q modelClaim list \<Rightarrow> 'q modelClaim list" where
  "placementPriorityFirst cs = sort_key placementPriorityKey cs"

definition candidatePodsForClaim ::
  "'q quantityOps \<Rightarrow> ('q modelClaim \<Rightarrow> 'q corePod \<Rightarrow> bool) \<Rightarrow> 'q modelClaim \<Rightarrow> 'q corePod list \<Rightarrow>
     'q corePod list option" where
  "candidatePodsForClaim q selects claim candidates =
     (case modelParallelism claim of
        Inl _ \<Rightarrow> None
      | Inr par \<Rightarrow>
          Some (filter (\<lambda>p. selects claim p \<and> \<not> (isVLLMModel claim \<and> \<not> podSupportsVLLMParallelism q p par))
                  candidates))"

definition priorityEligible ::
  "'q quantityOps \<Rightarrow> ('q modelClaim \<Rightarrow> 'q corePod \<Rightarrow> bool) \<Rightarrow> 'q modelClaim \<Rightarrow> 'q corePod list \<Rightarrow> bool" where
  "priorityEligible q selects claim candidates =
     (if clmDeletionTimestamp claim \<noteq> None \<or> statusInstances claim \<noteq> [] \<or> desiredReplicas claim \<le> 0 then False
      else case perGPUBytesOf q (Some claim) of
             Inl _ \<Rightarrow> False
           | Inr _ \<Rightarrow> (case candidatePodsForClaim q selects claim candidates of
                         None \<Rightarrow> False | Some shared \<Rightarrow> shared \<noteq> []))"

fun firstBlocker ::
  "string \<Rightarrow> ('q modelClaim \<Rightarrow> bool) \<Rightarrow> ('q modelClaim \<Rightarrow> bool) \<Rightarrow> ('q modelClaim \<Rightarrow> bool) \<Rightarrow>
     'q modelClaim list \<Rightarrow> 'q modelClaim option" where
  "firstBlocker current held waits feasible [] = None"
| "firstBlocker current held waits feasible (c # cs) =
     (if clmName c = current then None
      else if held c then Some c
      else if waits c then firstBlocker current held waits feasible cs
      else if feasible c then Some c
      else firstBlocker current held waits feasible cs)"

definition placementTurnBlocker ::
  "'q quantityOps \<Rightarrow> ('q modelClaim \<Rightarrow> 'q corePod \<Rightarrow> bool) \<Rightarrow> ('q modelClaim \<Rightarrow> bool) \<Rightarrow>
     ('q modelClaim \<Rightarrow> bool) \<Rightarrow> ('q modelClaim \<Rightarrow> bool) \<Rightarrow> 'q modelClaim \<Rightarrow> 'q corePod list \<Rightarrow>
     'q modelClaim list \<Rightarrow> 'q modelClaim option" where
  "placementTurnBlocker q selects held waits feasible current candidates claims =
     (if statusInstances current \<noteq> [] then None
      else if held current then None
      else if \<not> feasible current then None
      else firstBlocker (clmName current) held waits feasible
             (placementPriorityFirst
                (current # filter (\<lambda>c. clmNamespace c = clmNamespace current \<and> clmName c \<noteq> clmName current \<and>
                                       priorityEligible q selects c candidates) claims)))"

section \<open>Reference keys\<close>

text \<open>The key whose lexicographic order is the ranking: a figure counts only where it is known.\<close>

definition stateKey :: "podPlacementState \<Rightarrow> bool \<times> bool \<times> bool \<times> bool \<times> int \<times> int \<times> int \<times> int \<times> int" where
  "stateKey s =
     (\<not> ArtifactCached s, \<not> SnapshotKnown s, \<not> MemoryKnown s, \<not> MaximumRoomKnown s,
      if SnapshotKnown s then AwakeCount s else 0,
      if MaximumRoomKnown s then - MaximumRoomBytes s else 0,
      if MemoryKnown s then - HBMFreeBytes s else 0,
      if SnapshotKnown s then psKVUsedBytes s else 0,
      if SnapshotKnown s then ModelCount s else 0)"

definition rankKey ::
  "(string \<Rightarrow> 'c::linorder) \<Rightarrow> (string \<Rightarrow> int) \<Rightarrow> (string \<Rightarrow> podPlacementState) \<Rightarrow> 'q corePod \<Rightarrow>
     (bool \<times> bool \<times> bool \<times> bool \<times> int \<times> int \<times> int \<times> int \<times> int) \<times> 'c \<times> int \<times> string" where
  "rankKey cost load states p =
     (stateKey (states (podName p)), cost (podNodeName p), load (podName p), podName p)"

section \<open>The ranking is a linear order\<close>

lemma placementStateLess_key: "placementStateLess a b \<longleftrightarrow> stateKey a < stateKey b"
  by (simp add: placementStateLess_def stateKey_def less_prod_simp) auto

lemma rankLess_key: "rankLess l n s l' n' s' \<longleftrightarrow> (l, n, s) < (l', n', s')"
  by (auto simp: rankLess_def less_prod_simp)

lemma ranksAhead_key: "ranksAhead cost load states p b \<longleftrightarrow> rankKey cost load states p < rankKey cost load states b"
  by (auto simp: ranksAhead_def placementStateLess_key rankLess_key rankKey_def less_prod_simp not_less)

lemma selectPodLoop_least:
  "selectPodLoop cost load states alreadyOn ps best = Some r \<Longrightarrow>
     (r \<in> set ps \<and> \<not> alreadyOn (podName r) \<or> best = Some r) \<and>
     (\<forall>b. best = Some b \<longrightarrow> rankKey cost load states r \<le> rankKey cost load states b) \<and>
     (\<forall>p \<in> set ps. \<not> alreadyOn (podName p) \<longrightarrow> rankKey cost load states r \<le> rankKey cost load states p)"
proof (induction ps arbitrary: best)
  case (Cons p ps)
  show ?case
  proof (cases "alreadyOn (podName p)")
    case True
    then show ?thesis using Cons by auto
  next
    case False
    define best' where "best' = (case best of None \<Rightarrow> Some p
              | Some b \<Rightarrow> if ranksAhead cost load states p b then Some p else Some b)"
    have "selectPodLoop cost load states alreadyOn ps best' = Some r"
      using Cons.prems False by (simp add: best'_def)
    note IH = Cons.IH [OF this]
    have b': "best' = Some p \<or> best' = best" "\<exists>b. best' = Some b \<and> rankKey cost load states b \<le> rankKey cost load states p"
      "\<And>b. best = Some b \<Longrightarrow> \<exists>b''. best' = Some b'' \<and> rankKey cost load states b'' \<le> rankKey cost load states b"
      by (auto simp: best'_def ranksAhead_key not_less split: option.splits)
    show ?thesis using IH b' False by (auto dest: order_trans)
  qed
qed simp

lemma selectPodLoop_None:
  "selectPodLoop cost load states alreadyOn ps best = None \<longleftrightarrow>
     best = None \<and> (\<forall>p \<in> set ps. alreadyOn (podName p))"
  by (induction ps arbitrary: best) (auto split: option.splits)

section \<open>The gate and the divider agree\<close>

lemma admissible_iff:
  "fst (admissibleCandidates q pods ledgers need gpus) = filter (\<lambda>p. judgeCandidate q ledgers need gpus p = None) pods"
  by (induction pods) (auto simp: Let_def split: prod.splits option.splits)

lemma refusals_iff:
  "snd (admissibleCandidates q pods ledgers need gpus) = List.map_filter (judgeCandidate q ledgers need gpus) pods"
  by (induction pods) (auto simp: Let_def map_filter_simps split: prod.splits option.splits)

lemma admitted_card:
  assumes "judgeCandidate q ledgers need gpus pod = None" and "podHasGPUs q pod (accelerators (ledgerOf ledgers (podName pod)))"
  shows "judgeable (ledgerOf ledgers (podName pod)) \<and> need \<le> heldRoomBytes (ledgerOf ledgers (podName pod)) \<and>
         need \<le> maximumRoomBytes (ledgerOf ledgers (podName pod)) \<and> fitsTopology q pod (ledgerOf ledgers (podName pod)) gpus"
  using assms by (auto simp: judgeCandidate_def Let_def split: if_splits)

lemma held_total_exact:
  assumes "ledger_sums l" and "card_sane hbm (engines l)"
  shows "totalHeldBytes l = sum_list (map heldBytes (engines l))"
proof -
  have "sum_list (map heldBytes (engines l)) \<le> 2 * pebi * int (length (engines l))"
    using assms(2) by (intro sum_list_bound_int) (simp add: card_sane_def held_range)
  also have "\<dots> \<le> 2 * pebi * 1024"
    using assms(2) by (intro mult_left_mono) (simp_all add: card_sane_def pebi_def)
  finally have "sum_list (map heldBytes (engines l)) \<le> 2 * pebi * 1024" .
  moreover have "0 \<le> sum_list (map heldBytes (engines l))"
    using assms(2) by (intro sum_list_nonneg_int) (simp add: card_sane_def held_range)
  ultimately show ?thesis using assms(1) by (simp add: ledger_sums_def i64_id pebi_def)
qed

lemma newcomer_held:
  assumes "engine_sane (recordedEngine n s g 0)"
  shows "heldBytes (recordedEngine n s g 0) = perGPU_minimumReserveBytes g"
  using assms
  by (simp add: heldBytes_def kvHeldBytes_def effectiveKVFloorBytes_def perGPU_minimumReserveBytes_def
      recordedEngine_def engine_sane_def)

lemma find_none_all: "(\<forall>x \<in> set xs. \<not> P x) \<Longrightarrow> find P xs = None"
  by (simp add: find_None_iff)

lemma newcomer_declares:
  "1 \<le> maximumFootprintBytes g \<Longrightarrow> 1 \<le> kvFloorBytes g \<Longrightarrow>
     declaresCost (recordedEngine n s g 0) \<and> capacityCoversHeld (recordedEngine n s g 0)"
  by (simp add: declaresCost_def capacityCoversHeld_def clampKVLimit_def recordedEngine_def)

section \<open>Turns\<close>

lemma firstBlocker_Some:
  "firstBlocker n held waits feasible cs = Some b \<Longrightarrow>
     clmName b \<noteq> n \<and> (held b \<or> feasible b \<and> \<not> waits b) \<and>
     (\<exists>ys zs. cs = ys @ b # zs \<and> (\<forall>y \<in> set ys. clmName y \<noteq> n))"
proof (induction cs)
  case (Cons c cs)
  show ?case
  proof (cases "firstBlocker n held waits feasible cs = Some b \<and> clmName c \<noteq> n \<and> c \<noteq> b")
    case True
    then obtain ys zs where "cs = ys @ b # zs" "\<forall>y \<in> set ys. clmName y \<noteq> n" using Cons.IH by blast
    then have "\<exists>ys zs. c # cs = ys @ b # zs \<and> (\<forall>y \<in> set ys. clmName y \<noteq> n)"
      using True by (intro exI [of _ "c # ys"] exI [of _ zs]) simp
    then show ?thesis using True Cons.IH by blast
  next
    case False
    then have "c = b \<and> clmName c \<noteq> n \<and> (held b \<or> feasible b \<and> \<not> waits b) \<or>
               firstBlocker n held waits feasible cs = Some b \<and> clmName c \<noteq> n \<and> c = b"
      using Cons.prems by (auto split: if_splits)
    then show ?thesis using Cons.IH by (fastforce intro: exI [of _ "[]"])
  qed
qed simp

lemma sort_key_prefix_le:
  "sort_key k xs = ys @ b # zs \<Longrightarrow> c \<in> set xs \<Longrightarrow> c \<notin> set ys \<Longrightarrow> k b \<le> k c"
proof -
  assume s: "sort_key k xs = ys @ b # zs" and c: "c \<in> set xs" "c \<notin> set ys"
  have "sorted (map k (ys @ b # zs))" using s sorted_sort_key [of k xs] by simp
  moreover have "c \<in> set (b # zs)" using s c set_sort [of k xs] by auto
  ultimately show "k b \<le> k c" by (auto simp: sorted_append)
qed

section \<open>Properties\<close>



text \<open>C29. The pod chosen is the best one: nothing is chosen exactly when the model already runs on
  every candidate, and otherwise the choice is a candidate it does not run on yet that ranks ahead
  of every other such candidate, in whatever order the candidates are listed.\<close>

theorem selected_pod_is_best:
  assumes "distinct (map podName candidates)"
  shows "(selectPodForActivationWithState candidates alreadyOn load cost states = None \<longleftrightarrow>
            (\<forall>p \<in> set candidates. alreadyOn (podName p))) \<and>
         (\<forall>r. selectPodForActivationWithState candidates alreadyOn load cost states = Some r \<longrightarrow>
            r \<in> set candidates \<and> \<not> alreadyOn (podName r) \<and>
            (\<forall>p \<in> set candidates. \<not> alreadyOn (podName p) \<and> p \<noteq> r \<longrightarrow> ranksAhead cost load states r p))"
proof -
  have inj: "\<And>p r. p \<in> set candidates \<Longrightarrow> r \<in> set candidates \<Longrightarrow> p \<noteq> r \<Longrightarrow>
               rankKey cost load states r \<noteq> rankKey cost load states p"
    using assms by (auto simp: rankKey_def distinct_map inj_on_def)
  show ?thesis
    using selectPodLoop_least [of cost load states alreadyOn candidates None] inj
    by (auto simp: selectPodForActivationWithState_def selectPodLoop_None ranksAhead_key order_less_le)
qed

theorem selected_pod_is_best_witness:
  "let roomy = emptyPlacementState\<lparr>SnapshotKnown := True, MaximumRoomKnown := True, MaximumRoomBytes := 9\<rparr>;
       tight = roomy\<lparr>MaximumRoomBytes := 5\<rparr>;
       states = (\<lambda>n. if n = ''b'' then roomy else tight);
       a = exCandidate\<lparr>podName := ''a''\<rparr>; b = exCandidate\<lparr>podName := ''b''\<rparr>
   in selectPodForActivationWithState [a, b] (\<lambda>_. False) (\<lambda>_. 0) (\<lambda>_. 0 :: int) states = Some b \<and>
      ranksAhead (\<lambda>_. 0 :: int) (\<lambda>_. 0) states b a"
proof -
  let ?roomy = "emptyPlacementState\<lparr>SnapshotKnown := True, MaximumRoomKnown := True, MaximumRoomBytes := 9\<rparr>"
  let ?states = "\<lambda>n. if n = ''b'' then ?roomy else ?roomy\<lparr>MaximumRoomBytes := 5\<rparr>"
  let ?a = "exCandidate\<lparr>podName := ''a''\<rparr>" and ?b = "exCandidate\<lparr>podName := ''b''\<rparr>"
  have "selectPodForActivationWithState [?a, ?b] (\<lambda>_. False) (\<lambda>_. 0) (\<lambda>_. 0 :: int) ?states = Some ?b"
    by (simp add: selectPodForActivationWithState_def ranksAhead_def placementStateLess_def emptyPlacementState_def)
  moreover have "distinct (map podName [?a, ?b])" "?a \<noteq> ?b" by (simp_all add: exCandidate_def)
  ultimately show ?thesis
    using selected_pod_is_best [of "[?a, ?b]" "\<lambda>_. False" "\<lambda>_. 0" "\<lambda>_. 0 :: int" ?states] by (simp add: Let_def)
qed

text \<open>A claim only ever waits for one that comes before it: a blocker has a higher priority, or
  the same and is older, or was created together and has the smaller name, and it holds a
  reservation or can be placed now. So no two claims wait for each other.\<close>

theorem turn_blocker_comes_first:
  assumes "placementTurnBlocker q selects held waits feasible current candidates claims = Some b"
  shows "placementPriorityKey b < placementPriorityKey current \<and> (held b \<or> feasible b \<and> \<not> waits b) \<and>
         b \<in> set claims"
proof -
  define w where "w = current # filter (\<lambda>c. clmNamespace c = clmNamespace current \<and> clmName c \<noteq> clmName current \<and>
                                  priorityEligible q selects c candidates) claims"
  have fb: "firstBlocker (clmName current) held waits feasible (sort_key placementPriorityKey w) = Some b"
    using assms by (simp add: placementTurnBlocker_def placementPriorityFirst_def w_def split: if_splits)
  obtain ys zs where s: "sort_key placementPriorityKey w = ys @ b # zs"
    and ys: "\<forall>y \<in> set ys. clmName y \<noteq> clmName current"
    and b: "clmName b \<noteq> clmName current" "held b \<or> feasible b \<and> \<not> waits b"
    using firstBlocker_Some [OF fb] by blast
  have "current \<in> set w" "current \<notin> set ys" using ys by (auto simp: w_def)
  then have "placementPriorityKey b \<le> placementPriorityKey current" by (rule sort_key_prefix_le [OF s])
  moreover have "placementPriorityKey b \<noteq> placementPriorityKey current"
    using b(1) by (simp add: placementPriorityKey_def)
  moreover have "b \<in> set (sort_key placementPriorityKey w)" by (simp add: s)
  then have "b \<in> set w" by simp
  then have "b \<in> set claims" using b(1) by (auto simp: w_def)
  ultimately show ?thesis using b by simp
qed

theorem turn_blocker_comes_first_witness:
  "placementTurnBlocker intQuantity (\<lambda>_ _. True) (\<lambda>_. False) (\<lambda>_. False) (\<lambda>_. True)
     (exClaim ''b'' 30 10 []) [exCandidate] [exClaim ''a'' 20 4 [], exClaim ''b'' 30 10 []] = Some (exClaim ''a'' 20 4 []) \<and>
   placementPriorityKey (exClaim ''a'' 20 4 []) < placementPriorityKey (exClaim ''b'' 30 10 [])"
proof -
  have "placementTurnBlocker intQuantity (\<lambda>_ _. True) (\<lambda>_. False) (\<lambda>_. False) (\<lambda>_. True)
     (exClaim ''b'' 30 10 []) [exCandidate] [exClaim ''a'' 20 4 [], exClaim ''b'' 30 10 []] = Some (exClaim ''a'' 20 4 [])"
    by code_simp
  then show ?thesis using turn_blocker_comes_first by blast
qed

end
