(* ===== verification/MakeRoom.thy ===== *)
theory MakeRoom
  imports Placement
begin

text \<open>
  Making room for a claim that no card has room for
  (\<^verbatim>\<open>src/pkg/controller/modelclaim/makeroom.go\<close>, with \<open>sleepsMakeRoom\<close>, \<open>idleEngines\<close> and
  \<open>roomCanBeMadeOn\<close> of \<^verbatim>\<open>wake.go\<close>): the cards held for claims, what engines held asleep, and the
  plans that put idle engines to sleep.

  The reservations are a Go map that is ranged over, so they are an association list with one entry
  per card. Each operation runs under a lock and is one step. When the pool policy last saw an engine
  busy, and when a claim was last routed, are parameters.
\<close>

section \<open>Cards held for claims\<close>

record cardReservation =
  resClaim :: string
  resBytes :: int
  resUntil :: int
  protectsWake :: bool

type_synonym cardReservations = "((string \<times> string) \<times> cardReservation) list"

definition reservationLifetime :: int where
  "reservationLifetime = 120000000000"

definition reservations_prune :: "int \<Rightarrow> cardReservations \<Rightarrow> cardReservations" where
  "reservations_prune now held = filter (\<lambda>(_, r). now < resUntil r) held"

definition holdWithWakeProtection ::
  "string \<times> string \<Rightarrow> string \<Rightarrow> int \<Rightarrow> int \<Rightarrow> bool \<Rightarrow> cardReservations \<Rightarrow> bool \<times> cardReservations" where
  "holdWithWakeProtection key claim bytes now protects held0 =
     (let held = reservations_prune now held0
      in case map_of held key of
           Some current \<Rightarrow>
             if resClaim current \<noteq> claim then (False, held)
             else if protects \<and> \<not> protectsWake current
             then (True, map (\<lambda>(k, r). (k, if k = key then r\<lparr>protectsWake := True\<rparr> else r)) held)
             else (True, held)
         | None \<Rightarrow>
             (True,
              (key, \<lparr>resClaim = claim, resBytes = bytes, resUntil = now + reservationLifetime, protectsWake = protects\<rparr>)
                # filter (\<lambda>(other, current). \<not> (fst other = fst key \<and> resClaim current = claim)) held))"

definition hold ::
  "string \<times> string \<Rightarrow> string \<Rightarrow> int \<Rightarrow> int \<Rightarrow> cardReservations \<Rightarrow> bool \<times> cardReservations" where
  "hold key claim bytes now held = holdWithWakeProtection key claim bytes now False held"

definition holdPreemption ::
  "string \<times> string \<Rightarrow> string \<Rightarrow> int \<Rightarrow> int \<Rightarrow> cardReservations \<Rightarrow> bool \<times> cardReservations" where
  "holdPreemption key claim bytes now held = holdWithWakeProtection key claim bytes now True held"

definition modelClaimPriority ::
  "'q modelClaim list option \<Rightarrow> string \<Rightarrow> string \<Rightarrow> int option" where
  "modelClaimPriority claims ns name =
     Option.bind claims (\<lambda>cs. map_option specPriority
       (find (\<lambda>c. clmNamespace c = ns \<and> clmName c = name) cs))"

definition reserve :: "int \<Rightarrow> podLedger \<Rightarrow> podLedger" where
  "reserve bytes l = l\<lparr>reservedBytes := i64 (reservedBytes l + bytes)\<rparr>"

text \<open>The loop over the cards held: what each takes off the account of its pod.\<close>

fun takeHeld ::
  "(string \<times> string \<Rightarrow> cardReservation \<Rightarrow> bool) \<Rightarrow> cardReservations \<Rightarrow> (string \<rightharpoonup> podLedger) \<Rightarrow> (string \<rightharpoonup> podLedger)" where
  "takeHeld skips [] ledgers = ledgers"
| "takeHeld skips ((key, r) # held) ledgers =
     takeHeld skips held
       (if skips key r then ledgers
        else case ledgers (snd key) of
               Some l \<Rightarrow> if judgeable l then ledgers(snd key \<mapsto> reserve (resBytes r) l) else ledgers
             | None \<Rightarrow> ledgers)"

definition takePreemptionsFrom ::
  "(string \<rightharpoonup> podLedger) \<Rightarrow> 'q modelClaim list option \<Rightarrow> 'q modelClaim option \<Rightarrow> int \<Rightarrow> cardReservations \<Rightarrow>
     (string \<rightharpoonup> podLedger) \<times> cardReservations" where
  "takePreemptionsFrom ledgers claims waker now held0 =
     (case waker of
        None \<Rightarrow> (ledgers, held0)
      | Some w \<Rightarrow>
          (let held = reservations_prune now held0;
               skips = (\<lambda>key r. fst key \<noteq> clmNamespace w \<or> \<not> protectsWake r \<or>
                          (case modelClaimPriority claims (fst key) (resClaim r) of
                             Some owner \<Rightarrow> specPriority w > owner | None \<Rightarrow> False))
           in (takeHeld skips held ledgers, held)))"

definition heldFor ::
  "string \<Rightarrow> string \<Rightarrow> int \<Rightarrow> cardReservations \<Rightarrow> (string \<times> string) option \<times> cardReservations" where
  "heldFor ns claim now held0 =
     (let held = reservations_prune now held0
      in (map_option fst (find (\<lambda>(key, r). fst key = ns \<and> resClaim r = claim) held), held))"

definition preemptionHeldFor ::
  "string \<Rightarrow> string \<Rightarrow> int \<Rightarrow> cardReservations \<Rightarrow> (string \<times> string) option \<times> cardReservations" where
  "preemptionHeldFor ns claim now held0 =
     (let held = reservations_prune now held0
      in (map_option fst (find (\<lambda>(key, r). fst key = ns \<and> resClaim r = claim \<and> protectsWake r) held), held))"

definition keepWakesOut ::
  "'q modelClaim list option \<Rightarrow> string \<Rightarrow> int \<Rightarrow> podLedger \<Rightarrow> podLedger" where
  "keepWakesOut claims ns priority l =
     fold (\<lambda>e l'. if \<not> asleep e \<or> \<not> wakeReserveAsked e then l'
                  else case modelClaimPriority claims ns (claimName e) of
                         Some waker \<Rightarrow> if waker \<le> priority then withWakeReserve l' (claimName e) False else l'
                       | None \<Rightarrow> l') (engines l) l"

definition keepWakesOutOfPreemption ::
  "(string \<rightharpoonup> podLedger) \<Rightarrow> 'q modelClaim list option \<Rightarrow> 'q modelClaim option \<Rightarrow> int \<Rightarrow> cardReservations \<Rightarrow>
     (string \<rightharpoonup> podLedger) \<times> cardReservations" where
  "keepWakesOutOfPreemption ledgers claims preemptor now held =
     (case preemptor of
        None \<Rightarrow> (ledgers, held)
      | Some p \<Rightarrow>
          (case preemptionHeldFor (clmNamespace p) (clmName p) now held of
             (None, held') \<Rightarrow> (ledgers, held')
           | (Some key, held') \<Rightarrow>
               (case ledgers (snd key) of
                  None \<Rightarrow> (ledgers, held')
                | Some l \<Rightarrow>
                    if \<not> judgeable l then (ledgers, held')
                    else (ledgers(snd key \<mapsto> keepWakesOut claims (fst key) (specPriority p) l), held'))))"

definition release :: "string \<Rightarrow> string \<Rightarrow> cardReservations \<Rightarrow> cardReservations" where
  "release ns claim held = filter (\<lambda>(key, r). \<not> (fst key = ns \<and> resClaim r = claim)) held"

definition takeFrom ::
  "(string \<rightharpoonup> podLedger) \<Rightarrow> string \<Rightarrow> string \<Rightarrow> int \<Rightarrow> cardReservations \<Rightarrow>
     (string \<rightharpoonup> podLedger) \<times> cardReservations" where
  "takeFrom ledgers ns claim now held0 =
     (let held = reservations_prune now held0
      in (takeHeld (\<lambda>key r. fst key \<noteq> ns \<or> resClaim r = claim) held ledgers, held))"

section \<open>What engines held asleep\<close>

record claimFootprint =
  fpUID :: string
  fpBytes :: int

type_synonym sleepingFootprints = "string \<times> string \<rightharpoonup> claimFootprint"

definition noteFootprint :: "'q modelClaim \<Rightarrow> int \<Rightarrow> sleepingFootprints \<Rightarrow> sleepingFootprints" where
  "noteFootprint claim bytes m =
     m((clmNamespace claim, clmName claim) \<mapsto> \<lparr>fpUID = clmUID claim, fpBytes = bytes\<rparr>)"

definition seenAsleep :: "'q modelClaim \<Rightarrow> sleepingFootprints \<Rightarrow> int \<times> bool" where
  "seenAsleep claim m =
     (case m (clmNamespace claim, clmName claim) of
        Some seen \<Rightarrow> if fpUID seen \<noteq> clmUID claim then (0, False) else (fpBytes seen, True)
      | None \<Rightarrow> (0, False))"

definition forgetFootprint :: "string \<times> string \<Rightarrow> sleepingFootprints \<Rightarrow> sleepingFootprints" where
  "forgetFootprint key m = m(key := None)"

section \<open>Engines that may sleep\<close>

record 'q idleEngine =
  idlClaim :: "'q modelClaim"
  idlModel :: runtimeSnapshotModel
  idlPort :: int
  idleSince :: int

definition activeClaimInstancePort :: "'q modelClaim \<Rightarrow> string \<Rightarrow> int option" where
  "activeClaimInstancePort pm pod =
     map_option instPort (find (\<lambda>i. instPod i = pod \<and> instPhase i = ''Active'') (statusInstances pm))"

definition claimForRuntimeSnapshot ::
  "'q modelClaim list \<Rightarrow> runtimeSnapshotModel \<Rightarrow> 'q modelClaim option" where
  "claimForRuntimeSnapshot claims m =
     (case mdlClaimRef m of
        None \<Rightarrow> None
      | Some ref \<Rightarrow>
          if refUID ref = [] then None
          else find (\<lambda>c. clmNamespace c = refNamespace ref \<and> clmName c = refName ref \<and> clmUID c = refUID ref) claims)"

definition poolActivityKey :: "'q corePod \<Rightarrow> runtimeSnapshotModel \<Rightarrow> string" where
  "poolActivityKey pod m = podUID pod @ ''/'' @ snapshotActivityKey m"

text \<open>One engine of the loop of \<open>idleEngines\<close>. \<open>routedSince\<close> reads the claim's Ready condition, and
  \<open>lastActive\<close> the record of the pool policy.\<close>

definition idleEngineOf ::
  "'q modelClaim list \<Rightarrow> ('q modelClaim \<Rightarrow> int) \<Rightarrow> (string \<Rightarrow> int option) \<Rightarrow> int \<Rightarrow> string \<Rightarrow> 'q corePod \<Rightarrow> int \<Rightarrow>
     runtimeSnapshotModel \<Rightarrow> 'q idleEngine option" where
  "idleEngineOf claims routedSince lastActive now forClaim pod idleFor m =
     (if mdlPhase m \<noteq> ''active'' \<or> \<not> mdlAlive m \<or> \<not> mdlReady m \<or> \<not> mdlRequestMetricsObserved m \<or>
         mdlRequestsRunning m > 0 \<or> mdlRequestsWaiting m > 0 then None
      else case claimForRuntimeSnapshot claims m of
             None \<Rightarrow> None
           | Some claim \<Rightarrow>
               if clmName claim = forClaim \<or> \<not> isVLLMModel claim then None
               else case activeClaimInstancePort claim (podName pod) of
                      None \<Rightarrow> None
                    | Some port \<Rightarrow>
                        (case lastActive (poolActivityKey pod m) of
                           None \<Rightarrow> None
                         | Some seen \<Rightarrow>
                             (let since1 = (case mdlLastTransition m of Some t \<Rightarrow> if t > seen then t else seen | None \<Rightarrow> seen);
                                  since = (if routedSince claim > since1 then routedSince claim else since1)
                              in if now - since < idleFor then None
                                 else Some \<lparr>idlClaim = claim, idlModel = m, idlPort = port, idleSince = since\<rparr>)))"

definition idleEngines ::
  "'q modelClaim list \<Rightarrow> ('q modelClaim \<Rightarrow> int) \<Rightarrow> (string \<Rightarrow> int option) \<Rightarrow> int \<Rightarrow> string \<Rightarrow> 'q corePod \<Rightarrow> int \<Rightarrow>
     runtimeSnapshot option \<Rightarrow> 'q idleEngine list" where
  "idleEngines claims routedSince lastActive now forClaim pod idleFor snapshot =
     sort_key (\<lambda>i. (idleSince i, clmName (idlClaim i)))
       (List.map_filter (idleEngineOf claims routedSince lastActive now forClaim pod idleFor) (snapshot_models snapshot))"

definition idleEnginesAtOrBelowPriority :: "'q idleEngine list \<Rightarrow> int \<Rightarrow> 'q idleEngine list" where
  "idleEnginesAtOrBelowPriority idle priority = filter (\<lambda>i. specPriority (idlClaim i) \<le> priority) idle"

section \<open>Plans\<close>

text \<open>The engines of an account by claim; a later engine of the same claim replaces an earlier one.\<close>

definition chargedEngines :: "podLedger \<Rightarrow> (string \<rightharpoonup> engineOnPod)" where
  "chargedEngines l = map_of (rev (map (\<lambda>e. (claimName e, e)) (engines l)))"

fun sleepsMakeRoomLoop ::
  "(string \<rightharpoonup> engineOnPod) \<Rightarrow> sleepingFootprints \<Rightarrow> 'q idleEngine list \<Rightarrow> int \<Rightarrow> int \<Rightarrow> bool" where
  "sleepsMakeRoomLoop charged fps [] floors holding = False"
| "sleepsMakeRoomLoop charged fps (i # is) floors holding =
     (case charged (clmName (idlClaim i)) of
        None \<Rightarrow> sleepsMakeRoomLoop charged fps is floors holding
      | Some e \<Rightarrow>
          (let a = fst (seenAsleep (idlClaim i) fps);
               floors' = i64 (floors + i64 (engine_minimumReserveBytes e - a));
               holding' = i64 (holding + i64 (heldBytes e - a))
           in if floors' \<ge> 0 \<and> holding' \<ge> 0 then True
              else sleepsMakeRoomLoop charged fps is floors' holding'))"

definition sleepsMakeRoom :: "sleepingFootprints \<Rightarrow> podLedger \<Rightarrow> 'q idleEngine list \<Rightarrow> int \<Rightarrow> bool" where
  "sleepsMakeRoom fps l sleepers need =
     (let floors = i64 (maximumRoomBytes l - need); holding = i64 (heldRoomBytes l - need)
      in if floors \<ge> 0 \<and> holding \<ge> 0 then True
         else sleepsMakeRoomLoop (chargedEngines l) fps sleepers floors holding)"

definition roomCanBeMadeOn :: "bool \<Rightarrow> string \<Rightarrow> podLedger \<Rightarrow> bool" where
  "roomCanBeMadeOn keepsNone forClaim l \<longleftrightarrow>
     \<not> reservedBytes l > 0 \<and> keepsNone \<and>
     \<not> list_ex (\<lambda>e. claimName e \<noteq> forClaim \<and> asleep e \<and> sleepingFootprintBytes e = 0) (engines l)"

record 'q roomPlan =
  planPod :: "'q corePod"
  planSleeps :: "'q idleEngine list"
  planKnown :: bool
  planRoomNow :: int

fun planRoomLoop ::
  "(string \<rightharpoonup> engineOnPod) \<Rightarrow> sleepingFootprints \<Rightarrow> int \<Rightarrow> 'q idleEngine list \<Rightarrow> int \<Rightarrow> int \<Rightarrow> 'q roomPlan \<Rightarrow>
     'q roomPlan option" where
  "planRoomLoop charged fps seat [] floors holding plan = None"
| "planRoomLoop charged fps seat (i # is) floors holding plan =
     (case charged (clmName (idlClaim i)) of
        None \<Rightarrow> planRoomLoop charged fps seat is floors holding plan
      | Some e \<Rightarrow>
          (let plan' = plan\<lparr>planSleeps := planSleeps plan @ [i]\<rparr>;
               (a, known) = seenAsleep (idlClaim i) fps;
               floors' = i64 (floors + i64 (engine_minimumReserveBytes e - a));
               holding' = i64 (holding + i64 (heldBytes e - a))
           in if \<not> known then Some plan'
              else if floors' \<ge> seat \<and> holding' \<ge> seat then Some (plan'\<lparr>planKnown := True\<rparr>)
              else planRoomLoop charged fps seat is floors' holding' plan'))"

definition planRoom ::
  "'q quantityOps \<Rightarrow> sleepingFootprints \<Rightarrow> bool \<Rightarrow> bool \<Rightarrow> 'q modelClaim \<Rightarrow> 'q corePod \<Rightarrow> podLedger \<Rightarrow> int \<Rightarrow>
     'q idleEngine list \<Rightarrow> 'q roomPlan option" where
  "planRoom q fps keepsNone wakeWaits pm pod l seat idle =
     (if \<not> judgeable l \<or> \<not> podHasGPUs q pod (accelerators l) \<or> \<not> fitsTopology q pod l (instanceGPUCount pm) then None
      else if \<not> roomCanBeMadeOn keepsNone (clmName pm) l \<or> wakeWaits then None
      else if \<not> sleepsMakeRoom fps l idle seat then None
      else planRoomLoop (chargedEngines l) fps seat idle (maximumRoomBytes l) (heldRoomBytes l)
             \<lparr>planPod = pod, planSleeps = [], planKnown = False, planRoomNow = heldRoomBytes l\<rparr>)"

text \<open>\<open>betterPlan\<close> reads the first sleeper of both plans, which a plan that was found always has.\<close>

definition betterPlan :: "'q roomPlan \<Rightarrow> 'q roomPlan \<Rightarrow> bool" where
  "betterPlan plan than =
     (if planKnown plan \<noteq> planKnown than then planKnown plan
      else if planKnown plan \<and> length (planSleeps plan) \<noteq> length (planSleeps than)
      then length (planSleeps plan) < length (planSleeps than)
      else if \<not> planKnown plan \<and> planRoomNow plan \<noteq> planRoomNow than
      then planRoomNow plan > planRoomNow than
      else idleSince (hd (planSleeps plan)) < idleSince (hd (planSleeps than)))"

fun bestPlan :: "'q roomPlan option \<Rightarrow> 'q roomPlan option list \<Rightarrow> 'q roomPlan option" where
  "bestPlan best [] = best"
| "bestPlan best (None # ps) = bestPlan best ps"
| "bestPlan best (Some plan # ps) =
     bestPlan (case best of
                 None \<Rightarrow> Some plan
               | Some b \<Rightarrow> if betterPlan plan b then Some plan else best) ps"

text \<open>What is done for a claim whose turn it may be: the card of the best plan is held for it and the
  first engine of the plan put to sleep. \<open>sleepOk\<close> says whether the runtime took the sleep.\<close>

definition makeRoomToPlace ::
  "string \<Rightarrow> string \<Rightarrow> int \<Rightarrow> int \<Rightarrow> bool \<Rightarrow> ('q corePod \<times> 'q roomPlan option) list \<Rightarrow> ('q roomPlan \<Rightarrow> bool) \<Rightarrow>
     cardReservations \<Rightarrow> 'q roomPlan option \<times> cardReservations" where
  "makeRoomToPlace ns claim seat now isFirst plans sleepOk held =
     (if \<not> isFirst then (None, held)
      else
        (let (card, held1) = heldFor ns claim now held;
             considered = filter (\<lambda>(pod, _). case card of Some key \<Rightarrow> podName pod = snd key | None \<Rightarrow> True) plans
         in case bestPlan None (map snd considered) of
              None \<Rightarrow> (None, release ns claim held1)
            | Some plan \<Rightarrow>
                (let (ok, held2) = hold (ns, podName (planPod plan)) claim seat now held1
                 in if \<not> ok then (None, held2)
                    else if \<not> sleepOk plan then (None, release ns claim held2)
                    else (Some plan, held2))))"

section \<open>What holds promise\<close>

text \<open>At most one card of a namespace is held for a claim, and no card is held for longer than a
  reservation lasts.\<close>

definition reservations_ok :: "int \<Rightarrow> cardReservations \<Rightarrow> bool" where
  "reservations_ok now held \<longleftrightarrow>
     distinct (map fst held) \<and>
     distinct (map (\<lambda>(key, r). (fst key, resClaim r)) held) \<and>
     (\<forall>(key, r) \<in> set held. resUntil r \<le> now + reservationLifetime)"

text \<open>The operations on the reservations in any order, as time passes.\<close>

inductive reservation_run :: "int \<Rightarrow> cardReservations \<Rightarrow> bool" where
  start: "reservation_run now []"
| tick: "reservation_run now held \<Longrightarrow> now \<le> now' \<Longrightarrow> reservation_run now' held"
| held: "reservation_run now held \<Longrightarrow>
     reservation_run now (snd (holdWithWakeProtection key claim bytes now protects held))"
| pruned: "reservation_run now held \<Longrightarrow> reservation_run now (reservations_prune now held)"
| released: "reservation_run now held \<Longrightarrow> reservation_run now (release ns claim held)"

text \<open>An account in which the named engines sleep without a wake reserve, each at a given footprint.\<close>

definition asleepAt :: "(string \<rightharpoonup> int) \<Rightarrow> engineOnPod \<Rightarrow> engineOnPod" where
  "asleepAt g e =
     (case g (claimName e) of
        Some a \<Rightarrow> e\<lparr>asleep := True, sleepingFootprintBytes := a, withoutWakeReserve := True, wakeReserveAsked := False\<rparr>
      | None \<Rightarrow> e)"

definition withAsleep :: "(string \<rightharpoonup> int) \<Rightarrow> podLedger \<Rightarrow> podLedger" where
  "withAsleep g l =
     (let es = map (asleepAt g) (engines l)
      in l\<lparr>engines := es, totalMinimumReserveBytes := i64 (sum_list (map engine_minimumReserveBytes es)),
           totalHeldBytes := i64 (sum_list (map heldBytes es))\<rparr>)"

definition footprintsOf :: "sleepingFootprints \<Rightarrow> 'q idleEngine list \<Rightarrow> (string \<rightharpoonup> int)" where
  "footprintsOf fps sleeps = map_of (map (\<lambda>i. (clmName (idlClaim i), fst (seenAsleep (idlClaim i) fps))) sleeps)"

definition footprints_sane :: "sleepingFootprints \<Rightarrow> bool" where
  "footprints_sane fps \<longleftrightarrow> (\<forall>f \<in> ran fps. 0 \<le> fpBytes f \<and> fpBytes f \<le> pebi)"

text \<open>Sums of charges stay far from the ends of an int64.\<close>

definition sleepers_sane :: "engineOnPod list \<Rightarrow> (string \<rightharpoonup> int) \<Rightarrow> bool" where
  "sleepers_sane es g \<longleftrightarrow>
     length es \<le> 1024 \<and> (\<forall>e \<in> set es. engine_sane e) \<and> (\<forall>a \<in> ran g. 0 \<le> a \<and> a \<le> pebi)"

text \<open>The room of an account whose engines sleep as given, without wrap-around.\<close>

abbreviation floorsRoom :: "int \<Rightarrow> engineOnPod list \<Rightarrow> (string \<rightharpoonup> int) \<Rightarrow> int" where
  "floorsRoom h es g \<equiv> h - sum_list (map (engine_minimumReserveBytes \<circ> asleepAt g) es)"

abbreviation holdingRoom :: "int \<Rightarrow> engineOnPod list \<Rightarrow> (string \<rightharpoonup> int) \<Rightarrow> int" where
  "holdingRoom h es g \<equiv> h - sum_list (map (heldBytes \<circ> asleepAt g) es)"

text \<open>A pod whose card is full, with one idle engine that was seen asleep before.\<close>

definition exBusyCard :: podLedger where
  "exBusyCard =
     emptyLedger\<lparr>judgeable := True, hbmUsableBytes := 100, accelerators := 1, engines := [exEngine ''a'' 0, exEngine ''b'' 3],
       totalMinimumReserveBytes := 48, totalHeldBytes := 52\<rparr>"

definition exIdle :: "int idleEngine" where
  "exIdle = \<lparr>idlClaim = exClaim ''a'' 20 4 [], idlModel = exModel ''a'' ''active'' 6 10, idlPort = 8000, idleSince = 0\<rparr>"

definition exFootprints :: sleepingFootprints where
  "exFootprints = [(''ns'', ''a'') \<mapsto> \<lparr>fpUID = ''a'', fpBytes = 3\<rparr>]"

section \<open>Reservations\<close>

lemma reservations_ok_filter:
  "reservations_ok now held \<Longrightarrow> reservations_ok now (filter P held)"
  by (auto simp: reservations_ok_def distinct_map_filter)

lemma reservations_ok_hold:
  assumes "reservations_ok now held"
  shows "reservations_ok now (snd (holdWithWakeProtection key claim bytes now protects held))"
proof -
  let ?h = "reservations_prune now held"
  let ?f = "\<lambda>(k, r). (k, if k = key then r\<lparr>protectsWake := True\<rparr> else r)"
  have h: "reservations_ok now ?h" using reservations_ok_filter [OF assms] by (simp add: reservations_prune_def)
  have f1: "map fst (map ?f ?h) = map fst ?h" by (simp add: case_prod_beta comp_def)
  have f2: "map (\<lambda>(k, r). (fst k, resClaim r)) (map ?f ?h) = map (\<lambda>(k, r). (fst k, resClaim r)) ?h"
    by (auto simp: case_prod_beta)
  have "\<forall>(k, r) \<in> set (map ?f ?h). resUntil r \<le> now + reservationLifetime"
    using h by (auto simp: reservations_ok_def)
  then have m: "reservations_ok now (map ?f ?h)"
    using h [unfolded reservations_ok_def] unfolding reservations_ok_def f1 f2 by blast
  have "reservations_ok now ((key, \<lparr>resClaim = claim, resBytes = bytes, resUntil = now + reservationLifetime,
        protectsWake = protects\<rparr>) # filter (\<lambda>(other, current). \<not> (fst other = fst key \<and> resClaim current = claim)) ?h)"
    if "map_of ?h key = None"
    using reservations_ok_filter [OF h, of "\<lambda>(other, current). \<not> (fst other = fst key \<and> resClaim current = claim)"] that
    by (auto simp: reservations_ok_def map_of_eq_None_iff)
  then show ?thesis using h m
    by (auto simp: holdWithWakeProtection_def Let_def split: option.split)
qed

lemma reservation_run_ok: "reservation_run now held \<Longrightarrow> reservations_ok now held"
proof (induction rule: reservation_run.induct)
  case (tick now held now')
  then show ?case by (fastforce simp: reservations_ok_def)
next
  case (held now held key claim bytes protects)
  then show ?case using reservations_ok_hold by blast
qed (auto simp: reservations_ok_def reservations_prune_def release_def distinct_map_filter)

lemma holdWithWakeProtection_True:
  assumes "holdWithWakeProtection key claim bytes now protects held = (True, held')" and "reservations_ok now held"
  shows "\<exists>r. map_of held' key = Some r \<and> resClaim r = claim \<and> now < resUntil r \<and> resUntil r \<le> now + reservationLifetime"
proof (cases "map_of (reservations_prune now held) key")
  case None
  then have "map_of held' key = Some \<lparr>resClaim = claim, resBytes = bytes, resUntil = now + reservationLifetime,
      protectsWake = protects\<rparr>"
    using assms(1) by (auto simp: holdWithWakeProtection_def Let_def)
  then show ?thesis by (simp add: reservationLifetime_def)
next
  case (Some r)
  then have r: "(key, r) \<in> set (reservations_prune now held)" by (rule map_of_SomeD)
  then have "now < resUntil r" "resUntil r \<le> now + reservationLifetime"
    using assms(2) by (auto simp: reservations_prune_def reservations_ok_def)
  moreover have "resClaim r = claim" using assms(1) Some
    by (auto simp: holdWithWakeProtection_def Let_def split: if_splits)
  moreover have "map_of (map (\<lambda>(k, v). (k, if k = key then v\<lparr>protectsWake := True\<rparr> else v)) h) key
      = map_option (\<lambda>v. v\<lparr>protectsWake := True\<rparr>) (map_of h key)" for h :: cardReservations
    by (induction h) auto
  ultimately show ?thesis using assms(1) Some
    by (auto simp: holdWithWakeProtection_def Let_def split: if_splits)
qed

lemma map_of_prune:
  "distinct (map fst held) \<Longrightarrow> map_of held key = Some r \<Longrightarrow> now < resUntil r \<Longrightarrow>
     map_of (reservations_prune now held) key = Some r"
  by (auto simp: reservations_prune_def distinct_map_filter intro!: map_of_is_SomeI dest: map_of_SomeD)

lemma find_claim_unique:
  assumes "reservations_ok now held" and "(key, r) \<in> set held" and "P (key, r)"
    and "\<And>k v. P (k, v) \<Longrightarrow> fst k = fst key \<and> resClaim v = resClaim r"
  shows "map_option fst (find P held) = Some key"
proof -
  obtain x where x: "find P held = Some x" using assms(2,3) by (metis find_None_iff not_None_eq)
  then have p: "P x" "x \<in> set held" by (auto simp: find_Some_iff)
  then have eq: "(\<lambda>(k, v). (fst k, resClaim v)) x = (\<lambda>(k, v). (fst k, resClaim v)) (key, r)"
    using assms(4) [of "fst x" "snd x"] by (simp add: case_prod_beta)
  have "inj_on (\<lambda>(k, v). (fst k, resClaim v)) (set held)"
    using assms(1) by (simp add: reservations_ok_def distinct_map)
  then have "x = (key, r)" by (rule inj_onD [OF _ eq p(2) assms(2)])
  then show ?thesis using x by simp
qed

lemma hold_is_found:
  assumes "reservations_ok now held" and "holdWithWakeProtection key claim bytes now protects held = (True, held')"
  shows "fst (heldFor (fst key) claim now held') = Some key"
proof -
  have ok: "reservations_ok now held'" using reservations_ok_hold [OF assms(1), of key claim bytes protects] assms(2) by simp
  obtain r where r: "map_of held' key = Some r" "resClaim r = claim" "now < resUntil r"
    using holdWithWakeProtection_True [OF assms(2,1)] by blast
  have d: "distinct (map fst held')" using ok by (simp add: reservations_ok_def)
  have "reservations_ok now (reservations_prune now held')"
    using reservations_ok_filter [OF ok] by (simp add: reservations_prune_def)
  moreover have "(key, r) \<in> set (reservations_prune now held')"
    using map_of_SomeD [OF map_of_prune [OF d r(1,3)]] .
  ultimately show ?thesis unfolding heldFor_def Let_def fst_conv
    by (rule find_claim_unique) (auto simp: r(2))
qed

lemma released_is_not_held: "fst (heldFor ns claim now (release ns claim held)) = None"
  by (auto simp: heldFor_def release_def reservations_prune_def Let_def find_None_iff)

section \<open>Engines put to sleep\<close>

lemma asleepAt_sane:
  assumes "engine_sane e" and "\<And>a. g (claimName e) = Some a \<Longrightarrow> 0 \<le> a \<and> a \<le> pebi"
  shows "engine_sane (asleepAt g e)"
  using assms by (auto simp: asleepAt_def engine_sane_def split: option.split)

lemma charge_asleepAt:
  "g (claimName e) = Some a \<Longrightarrow> engine_minimumReserveBytes (asleepAt g e) = a \<and> heldBytes (asleepAt g e) = a"
  by (simp add: asleepAt_def engine_minimumReserveBytes_def heldBytes_def)

text \<open>One more engine asleep moves a sum of charges by what that engine gives back.\<close>

lemma sum_one_asleep:
  assumes "distinct (map claimName es)" and "e \<in> set es" and "g (claimName e) = None"
    and "f (asleepAt (g(claimName e \<mapsto> a)) e) = (a::int)"
  shows "sum_list (map (f \<circ> asleepAt (g(claimName e \<mapsto> a))) es) = sum_list (map (f \<circ> asleepAt g) es) - f e + a"
proof -
  obtain xs ys where es: "es = xs @ e # ys" using split_list [OF assms(2)] by blast
  have "claimName e' \<noteq> claimName e" if "e' \<in> set (xs @ ys)" for e'
    using assms(1) imageI [OF that, of claimName] by (auto simp: es)
  then have same: "map (f \<circ> asleepAt (g(claimName e \<mapsto> a))) zs = map (f \<circ> asleepAt g) zs"
    if "set zs \<subseteq> set (xs @ ys)" for zs
    using that by (auto simp: asleepAt_def)
  have "asleepAt g e = e" using assms(3) by (simp add: asleepAt_def)
  then show ?thesis using assms(4) by (simp add: es same)
qed

lemma sum_charges_asleep:
  assumes "distinct (map claimName es)" and "e \<in> set es" and "g (claimName e) = None"
  shows "sum_list (map (engine_minimumReserveBytes \<circ> asleepAt (g(claimName e \<mapsto> a))) es)
           = sum_list (map (engine_minimumReserveBytes \<circ> asleepAt g) es) - engine_minimumReserveBytes e + a"
    and "sum_list (map (heldBytes \<circ> asleepAt (g(claimName e \<mapsto> a))) es)
           = sum_list (map (heldBytes \<circ> asleepAt g) es) - heldBytes e + a"
  by (rule sum_one_asleep [where g = g, OF assms]; simp add: asleepAt_def engine_minimumReserveBytes_def)
     (rule sum_one_asleep [where g = g, OF assms]; simp add: asleepAt_def heldBytes_def)

lemma sum_charges_range:
  assumes "sleepers_sane es g"
  shows "0 \<le> sum_list (map (engine_minimumReserveBytes \<circ> asleepAt g) es) \<and>
         sum_list (map (engine_minimumReserveBytes \<circ> asleepAt g) es) \<le> 2048 * pebi"
    and "0 \<le> sum_list (map (heldBytes \<circ> asleepAt g) es) \<and>
         sum_list (map (heldBytes \<circ> asleepAt g) es) \<le> 2048 * pebi"
proof -
  have s: "engine_sane (asleepAt g e)" if "e \<in> set es" for e
    using assms that by (intro asleepAt_sane) (auto simp: sleepers_sane_def ran_def)
  have "sum_list (map f es) \<le> 2048 * pebi" if "\<And>e. e \<in> set es \<Longrightarrow> f e \<le> 2 * pebi" for f
  proof -
    have "sum_list (map f es) \<le> 2 * pebi * int (length es)" by (rule sum_list_bound_int [OF that])
    also have "\<dots> \<le> 2 * pebi * 1024" using assms by (intro mult_left_mono) (simp_all add: sleepers_sane_def pebi_def)
    finally show ?thesis by simp
  qed
  then show "0 \<le> sum_list (map (engine_minimumReserveBytes \<circ> asleepAt g) es) \<and>
         sum_list (map (engine_minimumReserveBytes \<circ> asleepAt g) es) \<le> 2048 * pebi"
    and "0 \<le> sum_list (map (heldBytes \<circ> asleepAt g) es) \<and>
         sum_list (map (heldBytes \<circ> asleepAt g) es) \<le> 2048 * pebi"
    using reserve_range [OF s] held_range [OF s] by (auto intro!: sum_list_nonneg_int simp: comp_def)
qed

lemma footprintsOf_snoc:
  assumes "clmName (idlClaim i) \<notin> (clmName \<circ> idlClaim) ` set is"
  shows "footprintsOf fps (is @ [i])
           = (footprintsOf fps is)(clmName (idlClaim i) \<mapsto> fst (seenAsleep (idlClaim i) fps))"
proof -
  have "footprintsOf fps is (clmName (idlClaim i)) = None"
    using assms by (auto simp: footprintsOf_def map_of_eq_None_iff comp_def)
  then show ?thesis by (auto simp: footprintsOf_def map_add_def fun_eq_iff split: option.split)
qed

lemma seenAsleep_range: "footprints_sane fps \<Longrightarrow> 0 \<le> fst (seenAsleep c fps) \<and> fst (seenAsleep c fps) \<le> pebi"
  using ranI [of fps "(clmNamespace c, clmName c)"]
  by (auto simp: seenAsleep_def footprints_sane_def pebi_def split: option.splits)

lemma footprintsOf_range:
  assumes "footprints_sane fps" and "a \<in> ran (footprintsOf fps is)"
  shows "0 \<le> a \<and> a \<le> pebi"
proof -
  obtain n where "footprintsOf fps is n = Some a" using assms(2) by (auto simp: ran_def)
  then have "\<exists>i \<in> set is. a = fst (seenAsleep (idlClaim i) fps)"
    unfolding footprintsOf_def by (auto dest!: map_of_SomeD)
  then show ?thesis using seenAsleep_range [OF assms(1)] by auto
qed

lemma planRoomLoop_known:
  assumes "planRoomLoop charged fps seat is floors holding plan = Some plan'" and "planKnown plan'" and "\<not> planKnown plan"
    and "floors = floorsRoom h es (footprintsOf fps (planSleeps plan))"
    and "holding = holdingRoom h es (footprintsOf fps (planSleeps plan))"
    and "distinct (map (clmName \<circ> idlClaim) (planSleeps plan @ is))"
    and charged: "\<And>n e. charged n = Some e \<Longrightarrow> e \<in> set es \<and> claimName e = n"
    and d: "distinct (map claimName es)" and fps: "footprints_sane fps"
    and sane: "length es \<le> 1024" "\<forall>e \<in> set es. engine_sane e" and h: "0 \<le> h" "h \<le> pebi"
  shows "seat \<le> floorsRoom h es (footprintsOf fps (planSleeps plan')) \<and>
         seat \<le> holdingRoom h es (footprintsOf fps (planSleeps plan')) \<and> planSleeps plan' \<noteq> []"
  using assms(1-6)
proof (induction "is" arbitrary: floors holding plan)
  case (Cons i "is")
  show ?case
  proof (cases "charged (clmName (idlClaim i))")
    case None
    then show ?thesis using Cons.IH [of floors holding plan] Cons.prems by simp
  next
    case (Some e)
    note e = charged [OF Some]
    let ?a = "fst (seenAsleep (idlClaim i) fps)" and ?p = "plan\<lparr>planSleeps := planSleeps plan @ [i]\<rparr>"
    let ?g = "footprintsOf fps (planSleeps plan)" and ?g' = "footprintsOf fps (planSleeps plan @ [i])"
    have n: "clmName (idlClaim i) \<notin> (clmName \<circ> idlClaim) ` set (planSleeps plan)" using Cons.prems(6) by auto
    have g': "?g' = ?g(claimName e \<mapsto> ?a)" using footprintsOf_snoc [OF n] e by simp
    have gn: "?g (claimName e) = None" using n e by (auto simp: footprintsOf_def map_of_eq_None_iff comp_def)
    have s: "sleepers_sane es ?g'" using sane footprintsOf_range [OF fps] by (auto simp: sleepers_sane_def)
    note sums = sum_charges_asleep [where g = ?g and a = ?a, OF d conjunct1 [OF e] gn]
    have ar: "0 \<le> ?a" "?a \<le> pebi" using seenAsleep_range [OF fps] by blast+
    have er: "0 \<le> engine_minimumReserveBytes e" "engine_minimumReserveBytes e \<le> 2 * pebi"
      "0 \<le> heldBytes e" "heldBytes e \<le> 2 * pebi"
      using sane(2) e reserve_range [of e] held_range [of e] by auto
    have "i64 (engine_minimumReserveBytes e - ?a) = engine_minimumReserveBytes e - ?a"
      "i64 (heldBytes e - ?a) = heldBytes e - ?a"
      using ar er by (simp_all add: i64_id pebi_def)
    moreover have "i64 (floorsRoom h es ?g') = floorsRoom h es ?g'" "i64 (holdingRoom h es ?g') = holdingRoom h es ?g'"
      using sum_charges_range [OF s] h unfolding pebi_def by (intro i64_id; linarith)+
    moreover have "floors + (engine_minimumReserveBytes e - ?a) = floorsRoom h es ?g'"
      "holding + (heldBytes e - ?a) = holdingRoom h es ?g'"
      unfolding Cons.prems(4,5) g' sums by simp_all
    ultimately have f: "i64 (floors + i64 (engine_minimumReserveBytes e - ?a)) = floorsRoom h es ?g'"
      and k: "i64 (holding + i64 (heldBytes e - ?a)) = holdingRoom h es ?g'"
      by (simp_all only:)
    obtain b known where sa: "seenAsleep (idlClaim i) fps = (b, known)" by fastforce
    note f = f [unfolded sa fst_conv] and k = k [unfolded sa fst_conv]
    have known: "known" using Cons.prems(1,2,3) Some sa by (cases known) (auto simp: Let_def)
    show ?thesis
    proof (cases "seat \<le> floorsRoom h es ?g' \<and> seat \<le> holdingRoom h es ?g'")
      case True
      then have "plan' = ?p\<lparr>planKnown := True\<rparr>" using Cons.prems(1) Some sa known f k by (simp add: Let_def)
      then show ?thesis using True by (simp add: comp_def)
    next
      case False
      then have "planRoomLoop charged fps seat is (floorsRoom h es ?g') (holdingRoom h es ?g') ?p = Some plan'"
        using Cons.prems(1) Some sa known f k by (auto simp: Let_def)
      then show ?thesis using Cons.IH [of _ _ ?p] Cons.prems(2,3,6) by (simp add: comp_def)
    qed
  qed
qed simp

text \<open>When every engine of a plan sleeps at what it was seen to hold asleep, and the account is drawn up
  again, the gate admits the claim.\<close>

lemma known_sleeps_admit:
  assumes loop: "planRoomLoop (chargedEngines l) fps seat idle (maximumRoomBytes l) (heldRoomBytes l) plan0 = Some plan"
    and plan0: "planSleeps plan0 = []" "\<not> planKnown plan0"
    and gate: "judgeable l" "podHasGPUs q pod (accelerators l)" "fitsTopology q pod l gpus" "reservedBytes l = 0"
    and "planKnown plan" and "ledger_sums l" and "card_sane (hbmUsableBytes l) (engines l)"
    and "distinct (map claimName (engines l))" and "distinct (map (clmName \<circ> idlClaim) idle)" and "footprints_sane fps"
  shows "judgeCandidate q [podName pod \<mapsto> withAsleep (footprintsOf fps (planSleeps plan)) l] seat gpus pod = None
         \<and> planSleeps plan \<noteq> []"
proof -
  let ?g = "footprintsOf fps (planSleeps plan)" and ?h = "hbmUsableBytes l" and ?es = "engines l"
  let ?l = "withAsleep ?g l"
  have range: "0 \<le> ?h" "?h \<le> pebi" "length ?es \<le> 1024" "\<forall>e \<in> set ?es. engine_sane e"
    using assms(10) by (simp_all add: card_sane_def)
  have sane: "sleepers_sane ?es g" if "\<forall>a \<in> ran g. 0 \<le> a \<and> a \<le> pebi" for g
    using range that by (simp add: sleepers_sane_def)
  have none: "footprintsOf fps [] = Map.empty" "asleepAt Map.empty = id"
    by (auto simp: footprintsOf_def asleepAt_def)
  have start: "maximumRoomBytes l = floorsRoom ?h ?es (footprintsOf fps [])"
      "heldRoomBytes l = holdingRoom ?h ?es (footprintsOf fps [])"
    using sum_charges_range [OF sane [of Map.empty]] assms(9) range(1,2) gate(4)
    by (simp_all add: maximumRoomBytes_def heldRoomBytes_def ledger_sums_def none i64_id pebi_def)
  have charged: "chargedEngines l n = Some e \<Longrightarrow> e \<in> set ?es \<and> claimName e = n" for n e
    unfolding chargedEngines_def by (auto dest!: map_of_SomeD)
  have room: "seat \<le> floorsRoom ?h ?es ?g \<and> seat \<le> holdingRoom ?h ?es ?g \<and> planSleeps plan \<noteq> []"
    by (rule planRoomLoop_known [OF loop assms(8)])
       (use start plan0 assms(11-13) range charged in \<open>simp_all\<close>)
  have "\<forall>a \<in> ran ?g. 0 \<le> a \<and> a \<le> pebi" using footprintsOf_range [OF assms(13)] by blast
  then have "maximumRoomBytes ?l = floorsRoom ?h ?es ?g" "heldRoomBytes ?l = holdingRoom ?h ?es ?g"
    using sum_charges_range [OF sane [of ?g]] range(1,2) gate(4)
    by (simp_all add: maximumRoomBytes_def heldRoomBytes_def withAsleep_def i64_id pebi_def)
  then show ?thesis using room gate
    by (simp add: judgeCandidate_def ledgerOf_def withAsleep_def fitsTopology_def Let_def)
qed

section \<open>Properties\<close>



text \<open>C34. A plan whose figures are known makes the room it promises. When every engine of the plan
  sleeps at what it was seen to hold asleep, and the account of the card is drawn up again, the gate
  of placement admits the claim to that pod.\<close>

theorem room_plan_makes_room:
  assumes "planRoom q fps keepsNone wakeWaits pm pod l seat idle = Some plan" and "planKnown plan"
    and "ledger_sums l" and "card_sane (hbmUsableBytes l) (engines l)" and "distinct (map claimName (engines l))"
    and "distinct (map (clmName \<circ> idlClaim) idle)" and "footprints_sane fps" and "0 \<le> reservedBytes l"
  shows "judgeCandidate q [podName pod \<mapsto> withAsleep (footprintsOf fps (planSleeps plan)) l] seat (instanceGPUCount pm) pod = None
         \<and> planSleeps plan \<noteq> []"
proof -
  have gate: "judgeable l" "podHasGPUs q pod (accelerators l)" "fitsTopology q pod l (instanceGPUCount pm)" "reservedBytes l = 0"
    and loop: "planRoomLoop (chargedEngines l) fps seat idle (maximumRoomBytes l) (heldRoomBytes l)
        \<lparr>planPod = pod, planSleeps = [], planKnown = False, planRoomNow = heldRoomBytes l\<rparr> = Some plan"
    using assms(1,8) by (auto simp: planRoom_def roomCanBeMadeOn_def split: if_splits)
  show ?thesis by (rule known_sleeps_admit [OF loop _ _ gate assms(2-7)]) simp_all
qed

theorem room_plan_makes_room_witness:
  "\<exists>plan. planRoom intQuantity exFootprints True False (exClaim ''c'' 50 10 []) exCandidate exBusyCard 60 [exIdle] = Some plan \<and>
     judgeCandidate intQuantity [''p'' \<mapsto> withAsleep (footprintsOf exFootprints (planSleeps plan)) exBusyCard] 60 1 exCandidate = None"
proof -
  let ?p = "planRoom intQuantity exFootprints True False (exClaim ''c'' 50 10 []) exCandidate exBusyCard 60 [exIdle]"
  have "case ?p of Some plan \<Rightarrow> planKnown plan | None \<Rightarrow> False" by code_simp
  then obtain plan where p: "?p = Some plan" "planKnown plan" by (auto split: option.splits)
  have f: "ledger_sums exBusyCard" "card_sane (hbmUsableBytes exBusyCard) (engines exBusyCard)"
    "distinct (map claimName (engines exBusyCard))" "distinct (map (clmName \<circ> idlClaim) [exIdle])"
    "0 \<le> reservedBytes exBusyCard" "podName exCandidate = ''p''" "instanceGPUCount (exClaim ''c'' 50 10 []) = 1"
    by code_simp+
  have "footprints_sane exFootprints" by (auto simp: footprints_sane_def exFootprints_def ran_def pebi_def split: if_splits)
  from room_plan_makes_room [OF p f(1-4) this f(5)] p(1) f(6,7) show ?thesis by auto
qed

end
