(* ===== verification/CardDivision.thy ===== *)
theory CardDivision
  imports ArrangeCard MakeRoom
begin

text \<open>
  When a card is divided again
  (\<open>cardDivisionState\<close> of \<^verbatim>\<open>src/pkg/controller/modelclaim/division.go\<close>): the rounds of a card, the
  engines it was last divided for, and the divisions of it that failed in a row.

  Every operation runs under the state's lock, so it is one step. Times are nanoseconds since Go's
  zero time. A card is named by its pod's namespace and name.
\<close>

section \<open>State\<close>

type_synonym cardKey = "string \<times> string"

record cardDivisionState =
  lastRound :: "cardKey \<rightharpoonup> int"
  dividedFor :: "cardKey \<rightharpoonup> string"
  attemptedFor :: "cardKey \<rightharpoonup> string"
  failures :: "cardKey \<rightharpoonup> int"
  lastFailure :: "cardKey \<rightharpoonup> int"
  owedTo :: "cardKey \<rightharpoonup> string list"
  undividedFor :: "cardKey \<rightharpoonup> holeReason option"
  asked :: "cardKey \<Rightarrow> bool"
  lastPruned :: int

definition newCardDivisionState :: cardDivisionState where
  "newCardDivisionState =
     \<lparr>lastRound = Map.empty, dividedFor = Map.empty, attemptedFor = Map.empty, failures = Map.empty,
      lastFailure = Map.empty, owedTo = Map.empty, undividedFor = Map.empty, asked = (\<lambda>_. False),
      lastPruned = 0\<rparr>"

definition stuckDivisionTries :: int where
  "stuckDivisionTries = 3"

definition stuckDivisionWarningEvery :: int where
  "stuckDivisionWarningEvery = 30"

text \<open>Go's value for a key that is not in a map.\<close>

definition mapGet :: "'v \<Rightarrow> ('k \<rightharpoonup> 'v) \<Rightarrow> 'k \<Rightarrow> 'v" where
  "mapGet zero m k = (case m k of Some v \<Rightarrow> v | None \<Rightarrow> zero)"

section \<open>Operations\<close>

definition pruneLocked :: "int \<Rightarrow> cardDivisionState \<Rightarrow> cardDivisionState" where
  "pruneLocked now s =
     (if now - lastPruned s < 30 * DefaultRequeueDuration then s
      else
        (let gone = (\<lambda>key. lastRound s key \<noteq> None \<and> \<not> asked s key)
         in s\<lparr>lastPruned := now,
              lastRound := (\<lambda>c. if gone c then None else lastRound s c),
              dividedFor := (\<lambda>c. if gone c then None else dividedFor s c),
              attemptedFor := (\<lambda>c. if gone c then None else attemptedFor s c),
              failures := (\<lambda>c. if gone c then None else failures s c),
              lastFailure := (\<lambda>c. if gone c then None else lastFailure s c),
              owedTo := (\<lambda>c. if gone c then None else owedTo s c),
              undividedFor := (\<lambda>c. if gone c then None else undividedFor s c),
              asked := (\<lambda>_. False)\<rparr>))"

definition cardDue ::
  "cardKey \<Rightarrow> string \<Rightarrow> int \<Rightarrow> cardDivisionState \<Rightarrow> (bool \<times> bool) \<times> cardDivisionState" where
  "cardDue key composition now s0 =
     (let s = pruneLocked now (s0\<lparr>asked := (asked s0)(key := True)\<rparr>);
          changed = (case dividedFor s key of Some previous \<Rightarrow> previous \<noteq> composition | None \<Rightarrow> False);
          taken = s\<lparr>attemptedFor := (attemptedFor s)(key \<mapsto> composition),
                    lastRound := (lastRound s)(key \<mapsto> now)\<rparr>
      in if changed \<and> mapGet [] (attemptedFor s) key \<noteq> composition then ((True, True), taken)
         else if (case lastRound s key of Some at \<Rightarrow> now - at < DefaultRequeueDuration | None \<Rightarrow> False)
         then ((False, False), s)
         else ((True, changed), taken))"

definition mayBeDue :: "cardKey \<Rightarrow> string \<Rightarrow> int \<Rightarrow> cardDivisionState \<Rightarrow> bool" where
  "mayBeDue key composition now s =
     (if (case dividedFor s key of Some previous \<Rightarrow> previous \<noteq> composition | None \<Rightarrow> False)
         \<and> mapGet [] (attemptedFor s) key \<noteq> composition
      then True
      else (case lastRound s key of Some at \<Rightarrow> now - at \<ge> DefaultRequeueDuration | None \<Rightarrow> True))"

definition noted :: "cardKey \<Rightarrow> cardDivisionState \<Rightarrow> bool" where
  "noted key s \<longleftrightarrow> dividedFor s key \<noteq> None"

definition leftAlone :: "cardKey \<Rightarrow> string \<Rightarrow> string list \<Rightarrow> cardDivisionState \<Rightarrow> cardDivisionState" where
  "leftAlone key composition owed s =
     s\<lparr>dividedFor := (dividedFor s)(key \<mapsto> composition), owedTo := (owedTo s)(key \<mapsto> owed)\<rparr>"

definition owedBefore :: "cardKey \<Rightarrow> cardDivisionState \<Rightarrow> string list" where
  "owedBefore key s = mapGet [] (owedTo s) key"

definition noteOwed :: "cardKey \<Rightarrow> string list \<Rightarrow> cardDivisionState \<Rightarrow> cardDivisionState" where
  "noteOwed key owed s = s\<lparr>owedTo := (owedTo s)(key \<mapsto> owed)\<rparr>"

definition divided :: "cardKey \<Rightarrow> string \<Rightarrow> int \<Rightarrow> cardDivisionState \<Rightarrow> cardDivisionState" where
  "divided key composition now s =
     s\<lparr>dividedFor := (dividedFor s)(key \<mapsto> composition),
       attemptedFor := (attemptedFor s)(key \<mapsto> composition),
       lastRound := (lastRound s)(key \<mapsto> now),
       failures := (failures s)(key := None), lastFailure := (lastFailure s)(key := None),
       owedTo := (owedTo s)(key := None)\<rparr>"

definition leftUndivided ::
  "cardKey \<Rightarrow> holeReason option \<Rightarrow> cardDivisionState \<Rightarrow> bool \<times> cardDivisionState" where
  "leftUndivided key why s0 =
     (let s = s0\<lparr>owedTo := (owedTo s0)(key := None)\<rparr>
      in if mapGet None (undividedFor s) key = why then (False, s)
         else (True, s\<lparr>undividedFor := (undividedFor s)(key \<mapsto> why)\<rparr>))"

definition accountedFor :: "cardKey \<Rightarrow> cardDivisionState \<Rightarrow> cardDivisionState" where
  "accountedFor key s = s\<lparr>undividedFor := (undividedFor s)(key := None)\<rparr>"

definition failedAgain :: "cardKey \<Rightarrow> int \<Rightarrow> cardDivisionState \<Rightarrow> int \<times> cardDivisionState" where
  "failedAgain key now s0 =
     (let s = (case lastFailure s0 key of
                 Some at \<Rightarrow> if now - at > stuckDivisionWarningEvery * DefaultRequeueDuration
                              then s0\<lparr>failures := (failures s0)(key := None)\<rparr> else s0
               | None \<Rightarrow> s0);
          n = i64 (mapGet 0 (failures s) key + 1)
      in (n, s\<lparr>lastFailure := (lastFailure s)(key \<mapsto> now), failures := (failures s)(key \<mapsto> n)\<rparr>))"

section \<open>What a card is divided for\<close>

definition stateOfPhase :: "string \<Rightarrow> bool \<Rightarrow> string" where
  "stateOfPhase phase wake =
     (if phase = ''Sleeping'' then if wake then ''asleep-asked'' else ''asleep''
      else if phase = ''Failed'' then ''failed'' else ''awake'')"

text \<open>\<open>showInt\<close> is Go's \<^verbatim>\<open>%d\<close> of a 64-bit value.\<close>

definition showInt :: "int \<Rightarrow> string" where
  "showInt i = (if i < 0 then ''-'' @ digits (nat (- i)) else digits (nat i))"

definition compositionEntry ::
  "'q quantityOps \<Rightarrow> 'q modelClaim \<Rightarrow> string \<Rightarrow> bool \<Rightarrow> string" where
  "compositionEntry q claim phase wake =
     clmName claim @ ''/'' @ stateOfPhase phase wake @ ''/'' @
     (case specPerGPU claim of
        None \<Rightarrow> ''undeclared''
      | Some p \<Rightarrow> showInt (qValue q (specMaximumFootprint p)) @ ''+'' @ showInt (qValue q (specKVFloor p)))"

fun joinStrings :: "string \<Rightarrow> string list \<Rightarrow> string" where
  "joinStrings sep [] = []"
| "joinStrings sep [x] = x"
| "joinStrings sep (x # y # ys) = x @ sep @ joinStrings sep (y # ys)"

definition cardEntries ::
  "'q quantityOps \<Rightarrow> 'q modelClaim list option \<Rightarrow> 'q corePod \<Rightarrow> string list" where
  "cardEntries q claims pod =
     (case claims of
        None \<Rightarrow> []
      | Some cs \<Rightarrow>
          concat (map (\<lambda>claim. map (\<lambda>i. compositionEntry q claim (instPhase i) (wakeAsked (Some pod) (clmName claim)))
                                  (filter (\<lambda>i. instPod i = podName pod) (statusInstances claim))) cs))"

definition cardComposition ::
  "'q quantityOps \<Rightarrow> 'q modelClaim list option \<Rightarrow> 'q corePod \<Rightarrow> string list \<Rightarrow> string" where
  "cardComposition q claims pod extra = joinStrings '','' (sort (extra @ cardEntries q claims pod))"

section \<open>Dividing the cards of a pool\<close>

text \<open>The state of a pass over the cards: the world each card shares, the segments of each pod's
  runtime, the divisions and the reservations. A card is worked on in the world with the segments of
  its own pod.\<close>

record passState =
  psWorld :: cardWorld
  psSegments :: "string \<Rightarrow> (string \<rightharpoonup> int)"
  psDivisions :: cardDivisionState
  psReservations :: cardReservations

text \<open>What a pass asks of systems outside the repository: the runtime of each pod, the API server, the
  clock, and which pods belong to a pool that keeps no wake reserve.\<close>

record 'q passOutside =
  poQuantity :: "'q quantityOps"
  poCard :: "string \<Rightarrow> cardOutside"
  poClient :: runtimeClient
  poNow :: "passState \<Rightarrow> int"
  poNoReserve :: "string \<Rightarrow> bool"

definition anyCardMayBeDue ::
  "'q quantityOps \<Rightarrow> string \<Rightarrow> int \<Rightarrow> 'q modelClaim list option \<Rightarrow> 'q corePod list \<Rightarrow> cardDivisionState \<Rightarrow> bool" where
  "anyCardMayBeDue q ns now cached candidates s =
     (case cached of
        None \<Rightarrow> True
      | Some cs \<Rightarrow>
          list_ex (\<lambda>pod. cardComposition q (Some cs) pod [] \<noteq> [] \<and>
                         mayBeDue (ns, podName pod) (cardComposition q (Some cs) pod []) now s) candidates)"

text \<open>The cards that are due, each with whether its engines changed, whether it is seen for the first
  time, and what it is to be divided for.\<close>

record 'q dueCard =
  dcPod :: "'q corePod"
  dcChanged :: bool
  dcFirstSeen :: bool
  dcComposition :: string

fun dueCards ::
  "'q passOutside \<Rightarrow> string \<Rightarrow> 'q modelClaim list \<Rightarrow> 'q corePod list \<Rightarrow> passState \<Rightarrow> 'q dueCard list \<times> passState" where
  "dueCards po ns claims [] ps = ([], ps)"
| "dueCards po ns claims (pod # pods) ps =
     (let composition = cardComposition (poQuantity po) (Some claims) pod []
      in if composition = [] then dueCards po ns claims pods ps
         else
           (let ((divide, changed), s) = cardDue (ns, podName pod) composition (poNow po ps) (psDivisions ps);
                ps1 = ps\<lparr>psDivisions := s\<rparr>;
                (cards, ps2) = dueCards po ns claims pods ps1
            in if divide
               then (\<lparr>dcPod = pod, dcChanged = changed, dcFirstSeen = \<not> noted (ns, podName pod) s,
                      dcComposition = composition\<rparr> # cards, ps2)
               else (cards, ps2)))"

definition owedBy :: "podLedger \<Rightarrow> string list" where
  "owedBy l =
     (case planKVLimits (plannableBytes l) (engines l) of
        Some (Inr limits) \<Rightarrow>
          shortEnginesOwedMore (engines l) limits (minimumKVLimitChangeBytes (hbmUsableBytes l))
      | _ \<Rightarrow> [])"

definition warnCardNotDivided ::
  "'q modelClaim list \<Rightarrow> podLedger \<Rightarrow> int \<Rightarrow> claimEvent list" where
  "warnCardNotDivided claims l fails =
     map (\<lambda>c. KVLimitFailed (clmName c) (servedModelName c) fails)
       (filter (\<lambda>c. list_ex (\<lambda>e. claimName e = clmName c) (engines l)) claims)"

definition whyDivide :: "'q dueCard \<Rightarrow> podLedger \<Rightarrow> string list \<Rightarrow> division" where
  "whyDivide dc l owed =
     (if dcChanged dc then compositionDivision
      else if dcFirstSeen dc then firstDivision (hbmUsableBytes l)
      else (loadDivision (hbmUsableBytes l))\<lparr>whyOwedBefore := owed\<rparr>)"

text \<open>The engines a card is planned with. A card that cannot hold every wake reserve put back is
  planned without those.\<close>

definition enginesToDivide :: "podLedger \<Rightarrow> engineOnPod list" where
  "enginesToDivide l =
     (case planKVLimits (plannableBytes l) (engines l) of
        Some (Inr _) \<Rightarrow> engines l
      | _ \<Rightarrow> (case withoutAskedReserves (engines l) of (eased, found) \<Rightarrow> if found then eased else engines l))"

text \<open>The end of a try, as the state of the divisions keeps it.\<close>

definition noteDivision ::
  "cardKey \<Rightarrow> string \<Rightarrow> podLedger \<Rightarrow> int \<Rightarrow> 'q modelClaim list \<Rightarrow> arrangeError option \<Rightarrow> cardDivisionState \<Rightarrow>
     claimEvent list \<times> cardDivisionState" where
  "noteDivision key composition l now claims err s =
     (case err of
        Some (CardLeftAlone owed) \<Rightarrow> ([], leftAlone key composition owed s)
      | Some _ \<Rightarrow>
          (let (fails, s') = failedAgain key now (noteOwed key (owedBy l) s)
           in (if fails mod stuckDivisionWarningEvery = stuckDivisionTries
               then warnCardNotDivided claims l fails else [], s'))
      | None \<Rightarrow> ([], divided key composition now s))"

text \<open>The account of a card that is due: its runtime is read when its turn comes, and room held for a
  claim is taken off.\<close>

definition accountCard ::
  "'q passOutside \<Rightarrow> string \<Rightarrow> 'q modelClaim list \<Rightarrow> 'q corePod \<Rightarrow> passState \<Rightarrow> podLedger \<times> passState" where
  "accountCard po ns claims pod ps0 =
     (let ((snapshot, err), rr) = readings_fresh (poClient po) (podRefOf pod) (cwReadings (psWorld ps0));
          ps1 = ps0\<lparr>psWorld := (psWorld ps0)\<lparr>cwReadings := rr\<rparr>\<rparr>;
          reading = (case (snapshot, err) of (Some s, None) \<Rightarrow> [podName pod \<mapsto> s] | _ \<Rightarrow> Map.empty);
          accounts = podLedgersFrom (poQuantity po) (Some claims) [pod] reading (poNoReserve po);
          (ledgers, held) = takeFrom accounts ns [] (poNow po ps1) (psReservations ps1)
      in (ledgerOf ledgers (podName pod), ps1\<lparr>psReservations := held\<rparr>))"

text \<open>One card that is due.\<close>

definition divideCard ::
  "'q passOutside \<Rightarrow> string \<Rightarrow> 'q modelClaim list \<Rightarrow> 'q dueCard \<Rightarrow> passState \<Rightarrow> passState option" where
  "divideCard po ns claims dc ps0 =
     (let pod = dcPod dc; key = (ns, podName pod);
          (l, ps) = accountCard po ns claims pod ps0
      in if engines l = [] \<or> \<not> podHasGPUs (poQuantity po) pod (accelerators l) then Some ps
         else if \<not> judgeable l
         then Some (ps\<lparr>psDivisions := snd (leftUndivided key (blocked l) (psDivisions ps))\<rparr>)
         else
           (let s = accountedFor key (psDivisions ps);
                w = (psWorld ps)\<lparr>segments := psSegments ps (podName pod)\<rparr>
            in case arrangeCard (poCard po (podName pod)) ns pod l (enginesToDivide l)
                      (whyDivide dc l (owedBefore key s)) w of
                 None \<Rightarrow> None
               | Some (_, err, w') \<Rightarrow>
                   (let ps' = ps\<lparr>psWorld := w', psSegments := (psSegments ps)(podName pod := segments w')\<rparr>;
                        (events, s') = noteDivision key (dcComposition dc) l (poNow po ps') claims err s
                    in Some (ps'\<lparr>psDivisions := s', psWorld := w'\<lparr>cwEvents := cwEvents w' @ events\<rparr>\<rparr>))))"

fun divideEach ::
  "'q passOutside \<Rightarrow> string \<Rightarrow> 'q modelClaim list \<Rightarrow> 'q dueCard list \<Rightarrow> passState \<Rightarrow> passState option" where
  "divideEach po ns claims [] ps = Some ps"
| "divideEach po ns claims (dc # cards) ps =
     (case divideCard po ns claims dc ps of
        None \<Rightarrow> None
      | Some ps' \<Rightarrow> divideEach po ns claims cards ps')"

text \<open>\<open>listed\<close> is the listing of the claims from the API server, if it answered.\<close>

definition divideCardsAsListed ::
  "'q passOutside \<Rightarrow> string \<Rightarrow> 'q modelClaim list option \<Rightarrow> 'q corePod list \<Rightarrow> passState \<Rightarrow> passState option" where
  "divideCardsAsListed po ns listed candidates ps =
     (if candidates = [] then Some ps
      else case listed of
             None \<Rightarrow> Some ps
           | Some claims \<Rightarrow>
               (let (cards, ps') = dueCards po ns claims candidates ps
                in if cards = [] then Some ps' else divideEach po ns claims cards ps'))"

definition divideCards ::
  "'q passOutside \<Rightarrow> string \<Rightarrow> 'q modelClaim list option \<Rightarrow> 'q modelClaim list option \<Rightarrow> 'q corePod list \<Rightarrow> passState \<Rightarrow>
     passState option" where
  "divideCards po ns cached listed candidates ps =
     (if candidates = [] \<or> \<not> anyCardMayBeDue (poQuantity po) ns (poNow po ps) cached candidates (psDivisions ps)
      then Some ps
      else divideCardsAsListed po ns listed candidates ps)"

section \<open>What the rounds promise\<close>

text \<open>The operations on the state of the divisions, each at its time.\<close>

datatype divisionOp =
    OpDue cardKey string
  | OpLeftAlone cardKey string "string list"
  | OpNoteOwed cardKey "string list"
  | OpDivided cardKey string
  | OpLeftUndivided cardKey "holeReason option"
  | OpAccountedFor cardKey
  | OpFailedAgain cardKey

fun opStep :: "divisionOp \<Rightarrow> int \<Rightarrow> cardDivisionState \<Rightarrow> cardDivisionState" where
  "opStep (OpDue k c) now s = snd (cardDue k c now s)"
| "opStep (OpLeftAlone k c owed) now s = leftAlone k c owed s"
| "opStep (OpNoteOwed k owed) now s = noteOwed k owed s"
| "opStep (OpDivided k c) now s = divided k c now s"
| "opStep (OpLeftUndivided k why) now s = snd (leftUndivided k why s)"
| "opStep (OpAccountedFor k) now s = accountedFor k s"
| "opStep (OpFailedAgain k) now s = snd (failedAgain k now s)"

fun runOps :: "(int \<times> divisionOp) list \<Rightarrow> cardDivisionState \<Rightarrow> cardDivisionState" where
  "runOps [] s = s"
| "runOps ((now, op) # ops) s = runOps ops (opStep op now s)"

text \<open>An operation that describes a card, if it is about it, by one composition.\<close>

fun describesAs :: "cardKey \<Rightarrow> string \<Rightarrow> divisionOp \<Rightarrow> bool" where
  "describesAs key c (OpDue k c') = (k = key \<longrightarrow> c' = c)"
| "describesAs key c (OpDivided k c') = (k = key \<longrightarrow> c' = c)"
| "describesAs key c (OpLeftAlone k c' _) = (k = key \<longrightarrow> c' = c)"
| "describesAs key c _ = True"

text \<open>A card whose round began at some time between \<open>t\<close> and now, for the composition \<open>c\<close>, and that the
  next prune keeps.\<close>

definition roundTaken :: "cardKey \<Rightarrow> string \<Rightarrow> int \<Rightarrow> int \<Rightarrow> cardDivisionState \<Rightarrow> bool" where
  "roundTaken key c t now s \<longleftrightarrow>
     (\<exists>r. lastRound s key = Some r \<and> t \<le> r \<and> r \<le> now) \<and> attemptedFor s key = Some c \<and>
     (asked s key \<or> t \<le> lastPruned s)"

definition sameCard :: "podLedger \<Rightarrow> podLedger \<Rightarrow> bool" where
  "sameCard l l0 \<longleftrightarrow> engines l = engines l0 \<and> judgeable l = judgeable l0 \<and> blocked l = blocked l0 \<and>
     accelerators l = accelerators l0 \<and> hbmUsableBytes l = hbmUsableBytes l0"

definition exPass :: "passState" where
  "exPass = \<lparr>psWorld = exWorld, psSegments = (\<lambda>_. segments exWorld), psDivisions = newCardDivisionState,
             psReservations = []\<rparr>"

definition exUndeclared :: "int modelClaim" where
  "exUndeclared = (exClaim ''a'' 20 4 [exHeldTo 40])\<lparr>specPerGPU := None\<rparr>"

definition exPassOutside :: "int passOutside" where
  "exPassOutside =
     \<lparr>poQuantity = intQuantity, poCard = (\<lambda>_. exOutside), poClient = exClient, poNow = (\<lambda>_. 0),
      poNoReserve = (\<lambda>_. False)\<rparr>"

definition exDue :: "int dueCard" where
  "exDue = \<lparr>dcPod = exCandidate, dcChanged = True, dcFirstSeen = False, dcComposition = ''a/awake/undeclared''\<rparr>"

lemma prune_keeps:
  assumes "asked s key \<or> now - lastPruned s < 30 * DefaultRequeueDuration"
  shows "lastRound (pruneLocked now s) key = lastRound s key"
    and "dividedFor (pruneLocked now s) key = dividedFor s key"
    and "attemptedFor (pruneLocked now s) key = attemptedFor s key"
    and "(asked (pruneLocked now s) key = asked s key \<and> lastPruned (pruneLocked now s) = lastPruned s) \<or>
         lastPruned (pruneLocked now s) = now"
  using assms by (auto simp: pruneLocked_def Let_def)

lemma cardDue_key:
  "dividedFor (pruneLocked now (s\<lparr>asked := (asked s)(key := True)\<rparr>)) key = dividedFor s key"
  "lastRound (pruneLocked now (s\<lparr>asked := (asked s)(key := True)\<rparr>)) key = lastRound s key"
  "attemptedFor (pruneLocked now (s\<lparr>asked := (asked s)(key := True)\<rparr>)) key = attemptedFor s key"
  using prune_keeps [of "s\<lparr>asked := (asked s)(key := True)\<rparr>" key now] by simp_all

lemma cardDue_taken:
  assumes "fst (fst (cardDue key c now s))"
  shows "roundTaken key c now now (snd (cardDue key c now s))"
proof -
  let ?s = "s\<lparr>asked := (asked s)(key := True)\<rparr>"
  have "asked (pruneLocked now ?s) key \<or> lastPruned (pruneLocked now ?s) = now"
    using prune_keeps(4) [of ?s key now] by auto
  then show ?thesis using assms by (auto simp: cardDue_def Let_def roundTaken_def split: if_splits)
qed

lemma roundTaken_step:
  assumes "roundTaken key c t now s" and "now \<le> now'" and "now' < t + DefaultRequeueDuration" and "describesAs key c op"
  shows "roundTaken key c t now' (opStep op now' s)"
proof -
  have taken: "roundTaken key c t now' s" using assms(1,2) by (auto simp: roundTaken_def)
  show ?thesis
  proof (cases op)
    case (OpDue k c')
    let ?s = "s\<lparr>asked := (asked s)(k := True)\<rparr>"
    have kept: "asked ?s key \<or> now' - lastPruned ?s < 30 * DefaultRequeueDuration"
      using taken assms(3) by (auto simp: roundTaken_def DefaultRequeueDuration_def)
    have "t \<le> now'" using taken by (auto simp: roundTaken_def)
    then have p: "roundTaken key c t now' (pruneLocked now' ?s)"
      using taken prune_keeps [OF kept] by (auto simp: roundTaken_def split: if_splits)
    have "snd (cardDue k c' now' s) = pruneLocked now' ?s \<or>
          snd (cardDue k c' now' s) = (pruneLocked now' ?s)\<lparr>attemptedFor := (attemptedFor (pruneLocked now' ?s))(k \<mapsto> c'),
             lastRound := (lastRound (pruneLocked now' ?s))(k \<mapsto> now')\<rparr>"
      by (auto simp: cardDue_def Let_def)
    then show ?thesis using p \<open>t \<le> now'\<close> assms(4) OpDue by (auto simp: roundTaken_def)
  qed (use taken assms(4) in \<open>auto simp: roundTaken_def leftAlone_def noteOwed_def divided_def leftUndivided_def
         accountedFor_def failedAgain_def Let_def split: option.split\<close>)
qed

lemma roundTaken_run:
  "roundTaken key c t now s \<Longrightarrow> sorted (now # map fst ops) \<Longrightarrow>
     (\<And>n op. (n, op) \<in> set ops \<Longrightarrow> n < t + DefaultRequeueDuration \<and> describesAs key c op) \<Longrightarrow>
     roundTaken key c t (last (now # map fst ops)) (runOps ops s)"
proof (induction ops arbitrary: now s)
  case (Cons x ops)
  obtain n op where x: "x = (n, op)" by fastforce
  have "roundTaken key c t n (opStep op n s)"
    using Cons.prems by (intro roundTaken_step [OF Cons.prems(1)]) (auto simp: x)
  then have "roundTaken key c t (last (n # map fst ops)) (runOps ops (opStep op n s))"
    using Cons.prems(2,3) by (intro Cons.IH) (auto simp: x)
  then show ?case by (simp add: x)
qed simp

section \<open>A card that cannot be accounted for\<close>

lemma takeHeld_keeps: "rel_option sameCard (takeHeld skips held ledgers name) (ledgers name)"
proof (induction held arbitrary: ledgers)
  case Nil
  show ?case by (cases "ledgers name") (auto simp: sameCard_def)
next
  case (Cons x held)
  obtain key r where x: "x = (key, r)" by fastforce
  let ?m = "if skips key r then ledgers
        else case ledgers (snd key) of
               Some l \<Rightarrow> if judgeable l then ledgers(snd key \<mapsto> reserve (resBytes r) l) else ledgers
             | None \<Rightarrow> ledgers"
  have "rel_option sameCard (?m name) (ledgers name)"
    by (cases "ledgers name") (auto simp: sameCard_def reserve_def split: option.splits)
  moreover have "rel_option sameCard (takeHeld skips (x # held) ledgers name) (?m name)"
    using Cons [of ?m] by (simp only: x takeHeld.simps)
  moreover have "rel_option sameCard a c" if "rel_option sameCard a b" "rel_option sameCard b c" for a b c
    using that by (cases a; cases b; cases c) (auto simp: sameCard_def)
  ultimately show ?case by blast
qed

lemma undeclared_not_judgeable:
  assumes "quantity_ok q" and "claim \<in> set cs" and "inst \<in> set (statusInstances claim)"
    and "perGPUBytesOf q (Some claim) = Inl err" and "instPhase inst \<noteq> ''Failed''"
    and "podLedgersFrom q (Some cs) candidates snapshots noReserve (instPod inst) = Some l"
  shows "\<not> judgeable l"
proof
  assume j: "judgeable l"
  let ?e = "instanceEngine q snapshots noReserve (podsByName candidates) claim inst"
  have "\<not> instanceGone snapshots claim inst ?e" using assms(5) by (simp add: instanceGone_def)
  then have "?e \<in> set (engines l)" using podLedgersFrom_charges [OF assms(2,3,6)] by blast
  moreover have "ledger_ok l" using podLedgersFrom_ok [OF assms(1)] assms(6) by (auto simp: accounts_ok_def)
  ultimately have "engine_declared ?e" using j by (auto simp: ledger_ok_def)
  moreover have "maximumFootprintBytes ?e = 0" using assms(4)
    by (simp add: instanceEngine_def Let_def usablePerGPU_def split: option.split)
  ultimately show False by (simp add: engine_declared_def)
qed

lemma accountCard_frame:
  assumes "accountCard po ns claims pod ps = (l, ps')"
  shows "psSegments ps' = psSegments ps" and "moment (psWorld ps') = moment (psWorld ps)"
    and "cwEvents (psWorld ps') = cwEvents (psWorld ps)" and "psDivisions ps' = psDivisions ps"
  using assms by (auto simp: accountCard_def Let_def split: prod.splits)

lemma undeclared_account:
  assumes "quantity_ok (poQuantity po)" and "claim \<in> set claims" and "inst \<in> set (statusInstances claim)"
    and "perGPUBytesOf (poQuantity po) (Some claim) = Inl err" and "instPhase inst \<noteq> ''Failed''"
    and "instPod inst = podName pod" and "accountCard po ns claims pod ps = (l, ps')"
  shows "\<not> judgeable l"
proof -
  obtain reading n held where l: "l = ledgerOf (fst (takeFrom (podLedgersFrom (poQuantity po) (Some claims) [pod] reading
      (poNoReserve po)) ns [] n held)) (podName pod)"
    using assms(7) unfolding accountCard_def Let_def by (auto split: prod.splits) (metis fst_conv)
  let ?a = "podLedgersFrom (poQuantity po) (Some claims) [pod] reading (poNoReserve po)"
  have "rel_option sameCard (fst (takeFrom ?a ns [] n held) (podName pod)) (?a (podName pod))"
    by (simp add: takeFrom_def Let_def takeHeld_keeps)
  then show ?thesis
    using undeclared_not_judgeable [OF assms(1-5)] assms(6)
    by (cases "?a (podName pod)"; cases "fst (takeFrom ?a ns [] n held) (podName pod)")
       (auto simp: l ledgerOf_def emptyLedger_def sameCard_def)
qed

section \<open>Properties\<close>

text \<open>Asking whether a card may be due answers exactly as taking its round would, so a pass that
  finds no card due from the cache skips nothing that it would have divided.\<close>

theorem may_be_due_agrees: "mayBeDue key composition now s = fst (fst (cardDue key composition now s))"
  by (auto simp: mayBeDue_def cardDue_def Let_def cardDue_key mapGet_def split: option.split)

text \<open>C35. A card is divided once a round. After a card was found due, whatever is done for it and for
  other cards within the round, the card is not found due again as long as it is described by the same
  engines: neither the pruning of old cards nor the end of the division brings it back early.\<close>

theorem one_division_a_round:
  assumes "fst (fst (cardDue key c t s))" and "sorted (t # map fst ops)"
    and "\<forall>(n, op) \<in> set ops. describesAs key c op" and "\<forall>n \<in> set (map fst ops). n \<le> now"
    and "t \<le> now" and "now < t + DefaultRequeueDuration"
  shows "fst (cardDue key c now (runOps ops (snd (cardDue key c t s)))) = (False, False)"
proof -
  let ?s = "runOps ops (snd (cardDue key c t s))"
  have "roundTaken key c t (last (t # map fst ops)) ?s"
    using assms by (intro roundTaken_run [OF cardDue_taken]) force+
  then obtain r where r: "lastRound ?s key = Some r" "t \<le> r" "attemptedFor ?s key = Some c"
    by (auto simp: roundTaken_def)
  then have "now - r < DefaultRequeueDuration" using assms(6) by simp
  then show ?thesis using r by (simp add: cardDue_def Let_def cardDue_key mapGet_def)
qed

theorem one_division_a_round_witness:
  "fst (cardDue (''ns'', ''p'') ''a/awake/20+4'' 9
     (runOps [(3, OpFailedAgain (''ns'', ''p'')), (5, OpDue (''ns'', ''q'') ''b'')]
        (snd (cardDue (''ns'', ''p'') ''a/awake/20+4'' 1 newCardDivisionState)))) = (False, False)"
proof -
  have "fst (fst (cardDue (''ns'', ''p'') ''a/awake/20+4'' 1 newCardDivisionState))" by code_simp
  then show ?thesis by (rule one_division_a_round) (simp_all add: DefaultRequeueDuration_def)
qed

text \<open>A card that runs an engine whose claim declares no usable cost is left as it is. Whatever
  else the listing holds, dividing that card writes no limit, no record and no event.\<close>

theorem undeclared_engine_keeps_card_undivided:
  assumes "quantity_ok (poQuantity po)" and "claim \<in> set claims" and "inst \<in> set (statusInstances claim)"
    and "perGPUBytesOf (poQuantity po) (Some claim) = Inl err" and "instPhase inst \<noteq> ''Failed''"
    and "instPod inst = podName (dcPod dc)"
  shows "\<exists>ps'. divideCard po ns claims dc ps = Some ps' \<and> psSegments ps' = psSegments ps \<and>
           moment (psWorld ps') = moment (psWorld ps) \<and> cwEvents (psWorld ps') = cwEvents (psWorld ps)"
proof -
  obtain l ps1 where a: "accountCard po ns claims (dcPod dc) ps = (l, ps1)" by fastforce
  have "\<not> judgeable l" by (rule undeclared_account [OF assms(1-6) a])
  moreover have "psSegments ps1 = psSegments ps" "moment (psWorld ps1) = moment (psWorld ps)"
    "cwEvents (psWorld ps1) = cwEvents (psWorld ps)"
    using accountCard_frame [OF a] by simp_all
  ultimately show ?thesis using a by (simp add: divideCard_def Let_def)
qed

theorem undeclared_engine_keeps_card_undivided_witness:
  "\<exists>ps'. divideCard exPassOutside ''ns'' [exUndeclared] exDue exPass = Some ps' \<and> psSegments ps' = psSegments exPass \<and>
     moment (psWorld ps') = moment (psWorld exPass) \<and> cwEvents (psWorld ps') = cwEvents (psWorld exPass)"
  by (rule undeclared_engine_keeps_card_undivided [where claim = exUndeclared and inst = "exHeldTo 40" and err = PerGPUMissing])
     (simp_all add: exPassOutside_def exUndeclared_def exDue_def exClaim_def exHeldTo_def exCandidate_def
        intQuantity_ok perGPUBytesOf_def)

end
