(* ===== verification/PoolPolicy.thy ===== *)
theory PoolPolicy
  imports CardDivision
begin

text \<open>
  The policy of a warm pool
  (\<^verbatim>\<open>src/pkg/controller/modelclaim/pool_policy.go\<close>, and \<open>poolPolicyManager\<close> of
  \<^verbatim>\<open>pool_policy_controller.go\<close>): the annotation a pool is configured by, the KV limits computed for
  the engines of a card, and the record of when each engine was last seen busy.

  Decoding JSON is the parameter \<open>jsonPolicy\<close>. Times are nanoseconds since Go's zero time, close
  enough together for their differences to be durations. The manager's operations run under its
  lock, so each is one step.
\<close>

section \<open>The annotation\<close>

record poolReclaimPolicy =
  rclMode :: string
  rclCapacityBytes :: int
  rclGuaranteedFloorPercent :: int

record poolLifecyclePolicy =
  SleepAfterSeconds :: int
  NoWakeReserveWhileAsleep :: bool
  SleepToMakeRoomAfterSeconds :: "int option"

record poolPolicy =
  polReclaim :: "poolReclaimPolicy option"
  polLifecycle :: "poolLifecyclePolicy option"

definition poolReclaimModeKVFirst :: string where
  "poolReclaimModeKVFirst = ''kv-first''"

definition poolPolicyErrorInvalidJSON :: string where
  "poolPolicyErrorInvalidJSON = ''invalid_json''"

definition poolPolicyErrorUnknownField :: string where
  "poolPolicyErrorUnknownField = ''unknown_field''"

definition poolPolicyErrorUnsupportedMode :: string where
  "poolPolicyErrorUnsupportedMode = ''unsupported_mode''"

definition poolPolicyErrorInvalidCapacity :: string where
  "poolPolicyErrorInvalidCapacity = ''invalid_capacity''"

definition poolPolicyErrorInvalidFloor :: string where
  "poolPolicyErrorInvalidFloor = ''invalid_floor''"

definition poolPolicyErrorInvalidSleep :: string where
  "poolPolicyErrorInvalidSleep = ''invalid_sleep_window''"

datatype lifecycleFault = SleepAfterNotPositive | MakeRoomAfterNotPositive | MakeRoomAfterTooLong

datatype poolPolicyFault =
    NotDecoded string
  | MultipleValues
  | ModeUnsupported
  | CapacityNotPositive
  | FloorOutOfRange
  | LifecycleWrong lifecycleFault

record poolPolicyConfigError =
  cfgClass :: string
  cfgErr :: poolPolicyFault

text \<open>The decoder: the first value of the text, or the error's text; and what follows that value.\<close>

datatype afterValue = EndOfText | AnotherValue | BadText string

record jsonPolicy =
  decodePolicy :: "string \<Rightarrow> string + poolPolicy"
  decodeAfter :: "string \<Rightarrow> afterValue"

definition containsText :: "string \<Rightarrow> string \<Rightarrow> bool" where
  "containsText s sub \<longleftrightarrow> list_ex (\<lambda>n. take (length sub) (drop n s) = sub) [0..<Suc (length s)]"

definition poolPolicyDecodeErrorClass :: "string \<Rightarrow> string" where
  "poolPolicyDecodeErrorClass err =
     (if containsText err ''unknown field'' then poolPolicyErrorUnknownField else poolPolicyErrorInvalidJSON)"

definition validateLifecycle :: "poolLifecyclePolicy \<Rightarrow> lifecycleFault option" where
  "validateLifecycle l =
     (if SleepAfterSeconds l < 0 \<or> (SleepAfterSeconds l = 0 \<and> \<not> NoWakeReserveWhileAsleep l)
      then Some SleepAfterNotPositive
      else case SleepToMakeRoomAfterSeconds l of
             None \<Rightarrow> None
           | Some makeRoomAfter \<Rightarrow>
               if makeRoomAfter \<le> 0 then Some MakeRoomAfterNotPositive
               else if SleepAfterSeconds l > 0 \<and> makeRoomAfter > SleepAfterSeconds l
               then Some MakeRoomAfterTooLong else None)"

definition checkReclaim :: "poolReclaimPolicy \<Rightarrow> poolPolicyConfigError + poolReclaimPolicy" where
  "checkReclaim r0 =
     (let r = (if rclMode r0 = [] then r0\<lparr>rclMode := poolReclaimModeKVFirst\<rparr> else r0)
      in if rclMode r \<noteq> poolReclaimModeKVFirst
         then Inl \<lparr>cfgClass = poolPolicyErrorUnsupportedMode, cfgErr = ModeUnsupported\<rparr>
         else if rclCapacityBytes r \<le> 0
         then Inl \<lparr>cfgClass = poolPolicyErrorInvalidCapacity, cfgErr = CapacityNotPositive\<rparr>
         else if rclGuaranteedFloorPercent r < 0 \<or> rclGuaranteedFloorPercent r > 100
         then Inl \<lparr>cfgClass = poolPolicyErrorInvalidFloor, cfgErr = FloorOutOfRange\<rparr>
         else Inr r)"

definition checkLifecycle :: "poolPolicy \<Rightarrow> poolPolicyConfigError + poolPolicy" where
  "checkLifecycle p =
     (case polLifecycle p of
        None \<Rightarrow> Inr p
      | Some l \<Rightarrow>
          (case validateLifecycle l of
             Some e \<Rightarrow> Inl \<lparr>cfgClass = poolPolicyErrorInvalidSleep, cfgErr = LifecycleWrong e\<rparr>
           | None \<Rightarrow> Inr p))"

definition parsePoolPolicy :: "jsonPolicy \<Rightarrow> string \<Rightarrow> poolPolicyConfigError + poolPolicy" where
  "parsePoolPolicy js raw =
     (case decodePolicy js raw of
        Inl e \<Rightarrow> Inl \<lparr>cfgClass = poolPolicyDecodeErrorClass e, cfgErr = NotDecoded e\<rparr>
      | Inr p \<Rightarrow>
          (case decodeAfter js raw of
             AnotherValue \<Rightarrow> Inl \<lparr>cfgClass = poolPolicyErrorInvalidJSON, cfgErr = MultipleValues\<rparr>
           | BadText e \<Rightarrow> Inl \<lparr>cfgClass = poolPolicyErrorInvalidJSON, cfgErr = NotDecoded e\<rparr>
           | EndOfText \<Rightarrow>
               (case polReclaim p of
                  None \<Rightarrow> checkLifecycle p
                | Some r \<Rightarrow>
                    (case checkReclaim r of
                       Inl e \<Rightarrow> Inl e
                     | Inr r' \<Rightarrow> checkLifecycle (p\<lparr>polReclaim := Some r'\<rparr>)))))"

definition nanoseconds :: "int \<Rightarrow> int" where
  "nanoseconds seconds = i64 (seconds * 1000000000)"

definition defaultSleepToMakeRoomAfter :: int where
  "defaultSleepToMakeRoomAfter = 30000000000"

definition sleepToMakeRoomAfter :: "poolLifecyclePolicy \<Rightarrow> int" where
  "sleepToMakeRoomAfter p =
     (case SleepToMakeRoomAfterSeconds p of
        Some s \<Rightarrow> nanoseconds s
      | None \<Rightarrow>
          (let sleepAfter = nanoseconds (SleepAfterSeconds p)
           in if sleepAfter > 0 \<and> sleepAfter < defaultSleepToMakeRoomAfter then sleepAfter
              else defaultSleepToMakeRoomAfter))"

section \<open>The KV limits of a card\<close>

record poolRequestActivity =
  actActive :: bool
  actRequestsInFlight :: int
  actCompletionDelta :: int
  actLastActive :: int
  actInitialized :: bool

record poolKVModel =
  pkmName :: string
  pkmKVUsedBytes :: int
  pkmKVCapacityBytes :: int
  pkmKVInitialCapacityBytes :: "int option"
  pkmActivity :: poolRequestActivity

datatype poolPlanError =
    PoolCapacityNotPositive
  | PoolFloorOutOfRange
  | PoolModelUnnamed
  | PoolModelTwice string
  | StartupCapacityBelowHeld string
  | KVUsageExceedsCapacity

type_synonym kvTargets = "string \<rightharpoonup> int"

definition poolFloor :: "int \<Rightarrow> poolKVModel \<Rightarrow> int" where
  "poolFloor floorBytes m =
     (case pkmKVInitialCapacityBytes m of
        Some ceiling \<Rightarrow> if ceiling > 0 then min floorBytes ceiling else floorBytes
      | None \<Rightarrow> floorBytes)"

definition poolBase :: "int \<Rightarrow> poolKVModel \<Rightarrow> int" where
  "poolBase floorBytes m = max (poolFloor floorBytes m) (max (pkmKVUsedBytes m) 0)"

text \<open>The first loop: what each engine keeps at least. It returns the sum, the limits so far and the
  engines seen busy.\<close>

fun poolBases ::
  "int \<Rightarrow> int \<Rightarrow> poolKVModel list \<Rightarrow> string list \<Rightarrow> int \<times> kvTargets \<times> poolKVModel list \<Rightarrow>
     poolPlanError + (int \<times> kvTargets \<times> poolKVModel list)" where
  "poolBases capacity floorBytes [] seen acc = Inr acc"
| "poolBases capacity floorBytes (m # ms) seen (baseBytes, targets, active) =
     (let base = poolBase floorBytes m
      in if pkmName m = [] then Inl PoolModelUnnamed
         else if pkmName m \<in> set seen then Inl (PoolModelTwice (pkmName m))
         else if clampKVLimit base (pkmKVInitialCapacityBytes m) < base
         then Inl (StartupCapacityBelowHeld (pkmName m))
         else if baseBytes > i64 (capacity - base) then Inl KVUsageExceedsCapacity
         else poolBases capacity floorBytes ms (pkmName m # seen)
                (i64 (baseBytes + base), targets(pkmName m \<mapsto> base),
                 if actActive (pkmActivity m) then active @ [m] else active))"

definition poolWeight :: "poolKVModel \<Rightarrow> int" where
  "poolWeight m =
     i64 (1 + boundedActivity (actRequestsInFlight (pkmActivity m))
            + boundedActivity (actCompletionDelta (pkmActivity m)))"

definition poolTotalWeight :: "poolKVModel list \<Rightarrow> int" where
  "poolTotalWeight active = foldl (\<lambda>sum m. i64 (sum + poolWeight m)) 0 active"

fun poolGrants :: "int \<Rightarrow> int \<Rightarrow> poolKVModel list \<Rightarrow> kvTargets \<times> int \<Rightarrow> kvTargets \<times> int" where
  "poolGrants remaining totalWeight [] acc = acc"
| "poolGrants remaining totalWeight (m # ms) (targets, granted) =
     (let grant = go_div (i64 (remaining * poolWeight m)) totalWeight
      in poolGrants remaining totalWeight ms
           (targets(pkmName m \<mapsto> i64 (mapGet 0 targets (pkmName m) + grant)), i64 (granted + grant)))"

text \<open>The loop that hands out what rounding left, a byte at a time; the number counts the rounds to
  go.\<close>

fun poolRemainder :: "poolKVModel list \<Rightarrow> nat \<Rightarrow> nat \<Rightarrow> kvTargets \<Rightarrow> kvTargets" where
  "poolRemainder active index 0 targets = targets"
| "poolRemainder active index (Suc n) targets =
     (let name = pkmName (active ! (index mod length active))
      in poolRemainder active (Suc index) n (targets(name \<mapsto> i64 (mapGet 0 targets name + 1))))"

definition poolClamp :: "poolKVModel list \<Rightarrow> kvTargets \<Rightarrow> kvTargets" where
  "poolClamp models targets =
     foldl (\<lambda>t m. t(pkmName m \<mapsto> clampKVLimit (mapGet 0 t (pkmName m)) (pkmKVInitialCapacityBytes m)))
       targets models"

definition poolShare :: "int \<Rightarrow> poolKVModel list \<Rightarrow> poolKVModel list \<Rightarrow> kvTargets \<Rightarrow> kvTargets" where
  "poolShare remaining active models bases =
     (let (granted_targets, granted) = poolGrants remaining (poolTotalWeight active) active (bases, 0)
      in poolClamp models
           (poolRemainder active 0 (nat (i64 (remaining - granted))) granted_targets))"

definition computePoolKVTargets ::
  "int \<Rightarrow> int \<Rightarrow> poolKVModel list \<Rightarrow> poolPlanError + kvTargets option" where
  "computePoolKVTargets capacity percent models =
     (if capacity \<le> 0 then Inl PoolCapacityNotPositive
      else if percent < 0 \<or> percent > 100 then Inl PoolFloorOutOfRange
      else if models = [] then Inr None
      else case poolBases capacity (percentOf capacity percent) models [] (0, Map.empty, []) of
             Inl e \<Rightarrow> Inl e
           | Inr (baseBytes, targets, active) \<Rightarrow>
               if active = [] then Inr None
               else
                 (let remaining = i64 (capacity - baseBytes);
                      busy = sort_key pkmName active
                  in if remaining \<le> 0 then Inr (Some targets)
                     else if poolTotalWeight busy = 0 then Inr (Some targets)
                     else Inr (Some (poolShare remaining busy models targets))))"

section \<open>The record of activity\<close>

record poolActivityRecord =
  recSuccessTotal :: int
  recKnown :: bool
  recLastActive :: int
  recLastSeen :: int

record poolConfigRecord =
  cfgRaw :: string
  cfgErrorClass :: string

record poolPolicyManager =
  mgrLastRun :: "cardKey \<rightharpoonup> int"
  mgrActivity :: "string \<rightharpoonup> poolActivityRecord"
  mgrConfig :: "cardKey \<rightharpoonup> poolConfigRecord"
  mgrLastSweep :: int

definition newPoolPolicyManager :: poolPolicyManager where
  "newPoolPolicyManager =
     \<lparr>mgrLastRun = Map.empty, mgrActivity = Map.empty, mgrConfig = Map.empty, mgrLastSweep = 0\<rparr>"

definition poolActivityRetention :: int where
  "poolActivityRetention = 300000000000"

definition poolActivitySweepInterval :: int where
  "poolActivitySweepInterval = 60000000000"

definition observeConfig ::
  "cardKey \<Rightarrow> string \<Rightarrow> string \<Rightarrow> poolPolicyManager \<Rightarrow> (bool \<times> bool) \<times> poolPolicyManager" where
  "observeConfig pool raw errorClass mgr =
     (let next = \<lparr>cfgRaw = raw, cfgErrorClass = errorClass\<rparr>;
          mgr' = mgr\<lparr>mgrConfig := (mgrConfig mgr)(pool \<mapsto> next)\<rparr>
      in if errorClass \<noteq> [] then ((mgrConfig mgr pool \<noteq> Some next, False), mgr')
         else ((False, case mgrConfig mgr pool of
                         Some previous \<Rightarrow> cfgErrorClass previous \<noteq> [] | None \<Rightarrow> False), mgr'))"

definition forgetConfig :: "cardKey \<Rightarrow> poolPolicyManager \<Rightarrow> bool \<times> poolPolicyManager" where
  "forgetConfig pool mgr =
     (mgrConfig mgr pool \<noteq> None, mgr\<lparr>mgrConfig := (mgrConfig mgr)(pool := None)\<rparr>)"

definition sweepActivityLocked :: "int \<Rightarrow> poolPolicyManager \<Rightarrow> poolPolicyManager" where
  "sweepActivityLocked now mgr =
     (if now - mgrLastSweep mgr < poolActivitySweepInterval then mgr
      else mgr\<lparr>mgrLastSweep := now,
               mgrActivity := (\<lambda>key. case mgrActivity mgr key of
                                       Some r \<Rightarrow> if now - recLastSeen r > poolActivityRetention then None else Some r
                                     | None \<Rightarrow> None)\<rparr>)"

definition beginPolicy :: "int \<Rightarrow> cardKey \<Rightarrow> poolPolicyManager \<Rightarrow> bool \<times> poolPolicyManager" where
  "beginPolicy now pool mgr0 =
     (let mgr = sweepActivityLocked now mgr0;
          early = (case mgrLastRun mgr pool of
                     Some lastTick \<Rightarrow> now - lastTick < DefaultRequeueDuration | None \<Rightarrow> False)
      in if early then (False, mgr)
         else (True, mgr\<lparr>mgrLastRun := (mgrLastRun mgr)(pool \<mapsto> now)\<rparr>))"

definition zeroActivityRecord :: poolActivityRecord where
  "zeroActivityRecord = \<lparr>recSuccessTotal = 0, recKnown = False, recLastActive = 0, recLastSeen = 0\<rparr>"

definition observeModel ::
  "int \<Rightarrow> string \<Rightarrow> runtimeSnapshotModel \<Rightarrow> poolPolicyManager \<Rightarrow> poolRequestActivity option \<times> poolPolicyManager" where
  "observeModel now key m mgr =
     (if \<not> mdlRequestMetricsObserved m then (None, mgr)
      else case mdlRequestSuccessTotal m of
             None \<Rightarrow> (None, mgr)
           | Some current \<Rightarrow>
               (let old = mapGet zeroActivityRecord (mgrActivity mgr) key;
                    initialized = (recKnown old \<and> current \<ge> recSuccessTotal old);
                    delta = (if initialized then i64 (current - recSuccessTotal old) else 0);
                    inFlight = i64 (max (mdlRequestsRunning m) 0 + max (mdlRequestsWaiting m) 0);
                    active = (inFlight > 0 \<or> delta > 0);
                    lastActive = (if \<not> initialized \<or> active then now else recLastActive old);
                    new = \<lparr>recSuccessTotal = current, recKnown = True, recLastActive = lastActive, recLastSeen = now\<rparr>
                in (Some \<lparr>actActive = active, actRequestsInFlight = inFlight, actCompletionDelta = delta,
                         actLastActive = lastActive, actInitialized = initialized\<rparr>,
                    mgr\<lparr>mgrActivity := (mgrActivity mgr)(key \<mapsto> new)\<rparr>)))"

definition lastActive :: "poolPolicyManager \<Rightarrow> string \<Rightarrow> int option" where
  "lastActive mgr key =
     (case mgrActivity mgr key of
        Some r \<Rightarrow> if recKnown r then Some (recLastActive r) else None
      | None \<Rightarrow> None)"

text \<open>The manager in use: readings of engines, ticks of pools and readings of annotations, in the
  order of their times. The list is what was read of the engines so far, latest first.\<close>

type_synonym seenEngine = "int \<times> string \<times> runtimeSnapshotModel"

inductive pool_run :: "int \<Rightarrow> seenEngine list \<Rightarrow> poolPolicyManager \<Rightarrow> bool" where
  start: "pool_run t [] newPoolPolicyManager"
| observed: "pool_run t h mgr \<Longrightarrow> t \<le> now \<Longrightarrow>
    pool_run now ((now, key, m) # h) (snd (observeModel now key m mgr))"
| began: "pool_run t h mgr \<Longrightarrow> t \<le> now \<Longrightarrow> pool_run now h (snd (beginPolicy now pool mgr))"
| configured: "pool_run t h mgr \<Longrightarrow> pool_run t h (snd (observeConfig pool raw errorClass mgr))"
| forgotten: "pool_run t h mgr \<Longrightarrow> pool_run t h (snd (forgetConfig pool mgr))"

text \<open>Counters a runtime can report.\<close>

definition countersSane :: "runtimeSnapshotModel \<Rightarrow> bool" where
  "countersSane m \<longleftrightarrow>
     mdlRequestsRunning m < 2 ^ 62 \<and> mdlRequestsWaiting m < 2 ^ 62 \<and>
     (case mdlRequestSuccessTotal m of Some c \<Rightarrow> 0 \<le> c \<and> c < 2 ^ 63 | None \<Rightarrow> True)"

text \<open>An engine read without a request, at a count of completed requests.\<close>

definition quietAt :: "int \<Rightarrow> runtimeSnapshotModel \<Rightarrow> bool" where
  "quietAt completed m \<longleftrightarrow>
     mdlRequestsRunning m \<le> 0 \<and> mdlRequestsWaiting m \<le> 0 \<and> mdlRequestSuccessTotal m = Some completed"

definition readable :: "runtimeSnapshotModel \<Rightarrow> bool" where
  "readable m \<longleftrightarrow> mdlRequestMetricsObserved m \<and> mdlRequestSuccessTotal m \<noteq> None"


definition targetSum :: "kvTargets \<Rightarrow> poolKVModel list \<Rightarrow> int" where
  "targetSum t models = sum_list (map (\<lambda>m. mapGet 0 t (pkmName m)) models)"

definition targetsHold :: "int \<Rightarrow> (poolKVModel \<Rightarrow> int) \<Rightarrow> poolKVModel list \<Rightarrow> kvTargets \<Rightarrow> bool" where
  "targetsHold whole low models t \<longleftrightarrow>
     dom t = pkmName ` set models \<and> targetSum t models = whole \<and> (\<forall>m \<in> set models. low m \<le> mapGet 0 t (pkmName m))"

text \<open>What the limits computed for a card keep to: the engines, what each keeps at least, the
  capacities they were started with, and the capacity of the card.\<close>

definition targetsWithin :: "int \<Rightarrow> (poolKVModel \<Rightarrow> int) \<Rightarrow> poolKVModel list \<Rightarrow> kvTargets \<Rightarrow> bool" where
  "targetsWithin whole low models t \<longleftrightarrow>
     dom t = pkmName ` set models \<and> targetSum t models \<le> whole \<and>
     (\<forall>m \<in> set models. low m \<le> mapGet 0 t (pkmName m) \<and>
        (\<forall>c. pkmKVInitialCapacityBytes m = Some c \<longrightarrow> 0 \<le> c \<longrightarrow> mapGet 0 t (pkmName m) \<le> c)) \<and>
     ((\<forall>m \<in> set models. pkmKVInitialCapacityBytes m = None) \<longrightarrow> targetSum t models = whole)"

text \<open>An engine of the examples.\<close>

definition exPoolModel :: "string \<Rightarrow> int \<Rightarrow> bool \<Rightarrow> poolKVModel" where
  "exPoolModel name used busy =
     \<lparr>pkmName = name, pkmKVUsedBytes = used, pkmKVCapacityBytes = 1000, pkmKVInitialCapacityBytes = None,
      pkmActivity = \<lparr>actActive = busy, actRequestsInFlight = 2, actCompletionDelta = 7, actLastActive = 0,
                      actInitialized = True\<rparr>\<rparr>"

text \<open>What the record of an engine says of the readings so far.\<close>

definition recordTrue :: "int \<Rightarrow> seenEngine list \<Rightarrow> string \<Rightarrow> poolActivityRecord \<Rightarrow> bool" where
  "recordTrue t h key r \<longleftrightarrow>
     recKnown r \<and> recLastActive r \<le> t \<and> 0 \<le> recSuccessTotal r \<and> recSuccessTotal r < 2 ^ 63 \<and>
     (\<forall>t' m. (t', key, m) \<in> set h \<longrightarrow> readable m \<longrightarrow> recLastActive r < t' \<longrightarrow> quietAt (recSuccessTotal r) m)"

definition exServed :: "int \<Rightarrow> runtimeSnapshotModel" where
  "exServed completed =
     (exModel ''a'' ''active'' 6 10)\<lparr>mdlClaimRef := Some \<lparr>refName = ''a'', refNamespace = ''ns'', refUID = ''a''\<rparr>,
        mdlRequestSuccessTotal := Some completed\<rparr>"

definition exIdleClaim :: "int modelClaim" where
  "exIdleClaim = exClaim ''a'' 20 4 [exInstance\<lparr>instPhase := ''Active''\<rparr>]"

definition exManager :: poolPolicyManager where
  "exManager = snd (observeModel 200 (poolActivityKey exCandidate (exServed 7)) (exServed 7)
     (snd (observeModel 100 (poolActivityKey exCandidate (exServed 7)) (exServed 7) newPoolPolicyManager)))"

section \<open>Configuration\<close>

lemma nanoseconds_id: "0 \<le> s \<Longrightarrow> s \<le> 9223372036 \<Longrightarrow> nanoseconds s = s * 1000000000"
  by (simp add: nanoseconds_def i64_id)

lemma checked_reclaim:
  assumes "checkReclaim r = Inr r'"
  shows "rclMode r' = poolReclaimModeKVFirst \<and> rclCapacityBytes r' = rclCapacityBytes r \<and> 0 < rclCapacityBytes r' \<and>
         rclGuaranteedFloorPercent r' = rclGuaranteedFloorPercent r \<and> rclGuaranteedFloorPercent r' \<in> {0..100}"
  using assms by (auto simp: checkReclaim_def Let_def split: if_splits)

lemma checked_lifecycle:
  "checkLifecycle p = Inr p' \<Longrightarrow>
     p' = p \<and> (\<forall>l. polLifecycle p = Some l \<longrightarrow> validateLifecycle l = None)"
  by (auto simp: checkLifecycle_def split: option.splits)

lemma make_room_wait:
  assumes "validateLifecycle l = None" "SleepAfterSeconds l \<le> 9223372036"
    and "\<And>s. SleepToMakeRoomAfterSeconds l = Some s \<Longrightarrow> s \<le> 9223372036"
  shows "0 < sleepToMakeRoomAfter l" 
    and "0 < SleepAfterSeconds l \<Longrightarrow> sleepToMakeRoomAfter l \<le> nanoseconds (SleepAfterSeconds l)"
  using assms
  by (auto simp: validateLifecycle_def sleepToMakeRoomAfter_def nanoseconds_id defaultSleepToMakeRoomAfter_def Let_def
           split: if_splits option.splits)

lemma parsed_policy:
  assumes "parsePoolPolicy js raw = Inr p"
  shows "(\<forall>r. polReclaim p = Some r \<longrightarrow> rclMode r = poolReclaimModeKVFirst \<and> 0 < rclCapacityBytes r \<and>
                rclGuaranteedFloorPercent r \<in> {0..100}) \<and>
         (\<forall>l. polLifecycle p = Some l \<longrightarrow> validateLifecycle l = None)"
  using assms
  by (auto simp: parsePoolPolicy_def dest!: checked_reclaim checked_lifecycle
           split: sum.splits option.splits afterValue.splits)

section \<open>Sums of limits\<close>

lemma mapGet_upd [simp]: "mapGet z (t(n \<mapsto> v)) k = (if k = n then v else mapGet z t k)"
  by (simp add: mapGet_def)

lemma targetSum_Cons [simp]: "targetSum t (m # ms) = mapGet 0 t (pkmName m) + targetSum t ms"
  by (simp add: targetSum_def)

lemma targetSum_other:
  assumes "n \<notin> pkmName ` set ms"
  shows "targetSum (t(n \<mapsto> v)) ms = targetSum t ms"
proof -
  have "\<And>m. m \<in> set ms \<Longrightarrow> mapGet 0 (t(n \<mapsto> v)) (pkmName m) = mapGet 0 t (pkmName m)"
    using assms by (metis image_eqI mapGet_upd)
  then show ?thesis
    unfolding targetSum_def by (metis (mono_tags, lifting) map_cong)
qed

lemma targetSum_upd:
  assumes "distinct (map pkmName models)" "n \<in> pkmName ` set models"
  shows "targetSum (t(n \<mapsto> v)) models = targetSum t models - mapGet 0 t n + v"
  using assms
proof (induction models)
  case (Cons m ms)
  show ?case
  proof (cases "n = pkmName m")
    case True
    then have "n \<notin> pkmName ` set ms"
      using Cons.prems by simp
    then show ?thesis
      unfolding targetSum_Cons mapGet_upd targetSum_other [OF \<open>n \<notin> pkmName ` set ms\<close>] using True by simp
  next
    case False
    then have rest: "distinct (map pkmName ms)" "n \<in> pkmName ` set ms"
      using Cons.prems by auto
    show ?thesis
      unfolding targetSum_Cons mapGet_upd Cons.IH [OF rest] using False by simp
  qed
qed simp

lemma target_within_sum:
  assumes "targetsHold whole low models t" "\<And>m. m \<in> set models \<Longrightarrow> 0 \<le> low m" "m \<in> set models"
  shows "0 \<le> mapGet 0 t (pkmName m) \<and> mapGet 0 t (pkmName m) \<le> whole"
proof -
  have nonneg: "\<forall>m' \<in> set models. 0 \<le> mapGet 0 t (pkmName m')"
    using assms unfolding targetsHold_def by (meson order_trans)
  then have "mapGet 0 t (pkmName m) \<le> sum_list (map (\<lambda>m. mapGet 0 t (pkmName m)) models)"
    using assms(3) by (intro member_le_sum_list) auto
  then show ?thesis
    using assms nonneg by (simp add: targetsHold_def targetSum_def)
qed

text \<open>Raising one limit.\<close>

lemma targets_raised:
  assumes "targetsHold whole low models t" "distinct (map pkmName models)" "m \<in> set models" "0 \<le> inc"
    and "\<And>m. m \<in> set models \<Longrightarrow> 0 \<le> low m" "whole + inc < 2 ^ 63"
  shows "targetsHold (whole + inc) low models (t(pkmName m \<mapsto> i64 (mapGet 0 t (pkmName m) + inc)))"
proof -
  have in_range: "i64 (mapGet 0 t (pkmName m) + inc) = mapGet 0 t (pkmName m) + inc"
    using target_within_sum [OF assms(1,5,3)] assms(4,6) by (intro i64_id) auto
  have "\<forall>m' \<in> set models. low m' \<le> mapGet 0 (t(pkmName m \<mapsto> mapGet 0 t (pkmName m) + inc)) (pkmName m')"
  proof
    fix m' assume "m' \<in> set models"
    then have "low m' \<le> mapGet 0 t (pkmName m')"
      using assms(1) by (simp add: targetsHold_def)
    then show "low m' \<le> mapGet 0 (t(pkmName m \<mapsto> mapGet 0 t (pkmName m) + inc)) (pkmName m')"
      using \<open>0 \<le> inc\<close> by auto
  qed
  then show ?thesis
    using assms in_range by (auto simp: targetsHold_def targetSum_upd)
qed


section \<open>The first loop\<close>

lemma poolBase_nonneg: "0 \<le> poolBase f m"
  by (simp add: poolBase_def)

lemma poolBase_in_i64:
  assumes "in_i64 f" "0 \<le> f" "pkmKVUsedBytes m < 2 ^ 63"
  shows "poolBase f m < 2 ^ 63"
  using assms by (auto simp: poolBase_def poolFloor_def split: option.splits)

lemma poolBases_names:
  "poolBases capacity f ms seen acc = Inr acc' \<Longrightarrow>
     distinct (map pkmName ms) \<and> pkmName ` set ms \<inter> set seen = {} \<and>
     (\<forall>m \<in> set ms. clampKVLimit (poolBase f m) (pkmKVInitialCapacityBytes m) = poolBase f m)"
proof (induction capacity f ms seen acc rule: poolBases.induct)
  case (2 capacity f m ms seen baseBytes targets active)
  from 2(2) have "clampKVLimit (poolBase f m) (pkmKVInitialCapacityBytes m) \<ge> poolBase f m"
    by (auto simp: Let_def split: if_splits)
  then have "clampKVLimit (poolBase f m) (pkmKVInitialCapacityBytes m) = poolBase f m"
    by (auto simp: clampKVLimit_def split: option.splits if_splits)
  with 2 show ?case
    by (auto simp: Let_def split: if_splits)
qed simp

lemma poolBases_active:
  "poolBases capacity f ms seen (b, t, active) = Inr (b', t', active') \<Longrightarrow>
     active' = active @ filter (\<lambda>m. actActive (pkmActivity m)) ms"
  by (induction capacity f ms seen "(b, t, active)" arbitrary: b t active rule: poolBases.induct)
     (fastforce simp: Let_def split: if_splits)+

lemma poolBases_sum:
  assumes "poolBases capacity f ms seen (b, t, active) = Inr (b', t', active')"
    and "0 \<le> b" "b \<le> capacity" "capacity < 2 ^ 63" "\<And>m. m \<in> set ms \<Longrightarrow> poolBase f m < 2 ^ 63"
  shows "b' = b + sum_list (map (poolBase f) ms) \<and> b' \<le> capacity"
  using assms
proof (induction ms arbitrary: seen b t active)
  case (Cons m ms)
  have base: "0 \<le> poolBase f m" "poolBase f m < 2 ^ 63"
    using Cons.prems(5) by (simp_all add: poolBase_nonneg)
  have wrap: "i64 (capacity - poolBase f m) = capacity - poolBase f m"
    using base Cons.prems(2-4) by (intro i64_id) auto
  have fits: "b + poolBase f m \<le> capacity"
    using Cons.prems(1) wrap by (auto simp: Let_def split: if_splits)
  have wrap': "i64 (b + poolBase f m) = b + poolBase f m"
    using base fits Cons.prems(2,4) by (intro i64_id) auto
  obtain seen' t1 active1 where
    step: "poolBases capacity f ms seen' (b + poolBase f m, t1, active1) = Inr (b', t', active')"
    using Cons.prems(1) wrap' by (auto simp: Let_def split: if_splits)
  show ?case
    using Cons.IH [OF step] Cons.prems base fits by (auto simp: algebra_simps)
qed simp

lemma poolBases_targets:
  assumes "poolBases capacity f ms seen (b, t, active) = Inr (b', t', active')"
  shows "dom t' = dom t \<union> pkmName ` set ms \<and>
         (\<forall>n. n \<notin> pkmName ` set ms \<longrightarrow> t' n = t n) \<and> (\<forall>m \<in> set ms. t' (pkmName m) = Some (poolBase f m))"
  using assms
proof (induction ms arbitrary: seen b t active)
  case (Cons m ms)
  obtain b1 active1 where
    step: "poolBases capacity f ms (pkmName m # seen) (b1, t(pkmName m \<mapsto> poolBase f m), active1) = Inr (b', t', active')"
    using Cons.prems by (auto simp: Let_def split: if_splits)
  show ?case
    using Cons.IH [OF step] poolBases_names [OF step] by auto
qed simp

lemma poolBases_hold:
  assumes "poolBases capacity f models [] (0, Map.empty, []) = Inr (b, t, active)"
    and "0 \<le> capacity" "capacity < 2 ^ 63" "\<And>m. m \<in> set models \<Longrightarrow> poolBase f m < 2 ^ 63"
  shows "targetsHold b (poolBase f) models t" and "0 \<le> b" and "b \<le> capacity"
proof -
  note t = poolBases_targets [OF assms(1)]
  have "targetSum t models = sum_list (map (poolBase f) models)"
    unfolding targetSum_def using t by (intro arg_cong [where f = sum_list] map_cong) (auto simp: mapGet_def)
  moreover note poolBases_sum [OF assms(1) _ assms(2-4)]
  ultimately show "targetsHold b (poolBase f) models t" "b \<le> capacity"
    using t by (auto simp: targetsHold_def mapGet_def)
  show "0 \<le> b"
    using poolBases_sum [OF assms(1) _ assms(2-4)] sum_list_nonneg_int [of models "poolBase f"]
    by (simp add: poolBase_nonneg)
qed


section \<open>Sharing what is left\<close>

lemma poolWeight_bounds: "1 \<le> poolWeight m" "poolWeight m \<le> 9"
proof -
  have "0 \<le> boundedActivity v \<and> boundedActivity v \<le> 4" for v
    by (simp add: boundedActivity_def)
  note bounded = this [of "actRequestsInFlight (pkmActivity m)"] this [of "actCompletionDelta (pkmActivity m)"]
  then have "poolWeight m = 1 + boundedActivity (actRequestsInFlight (pkmActivity m))
                             + boundedActivity (actCompletionDelta (pkmActivity m))"
    unfolding poolWeight_def by (intro i64_id) auto
  then show "1 \<le> poolWeight m" "poolWeight m \<le> 9"
    using bounded by auto
qed

lemma poolWeights_sum_bounds:
  "int (length ms) \<le> sum_list (map poolWeight ms) \<and> sum_list (map poolWeight ms) \<le> 9 * int (length ms)"
proof (induction ms)
  case (Cons m ms)
  then show ?case
    using poolWeight_bounds [of m] by auto
qed simp

lemma poolTotalWeight_sum:
  "int (length active) < 2 ^ 59 \<Longrightarrow> poolTotalWeight active = sum_list (map poolWeight active)"
proof (induction active rule: rev_induct)
  case (snoc m ms)
  have "i64 (sum_list (map poolWeight ms) + poolWeight m) = sum_list (map poolWeight ms) + poolWeight m"
    using poolWeights_sum_bounds [of ms] poolWeight_bounds [of m] snoc.prems by (intro i64_id) auto
  then show ?case
    using snoc by (simp add: poolTotalWeight_def)
qed (simp add: poolTotalWeight_def)

lemma grant_within:
  assumes "0 \<le> remaining" "remaining * 9 < 2 ^ 63" "0 < totalWeight"
  shows "go_div (i64 (remaining * poolWeight m)) totalWeight = remaining * poolWeight m div totalWeight"
    and "0 \<le> remaining * poolWeight m div totalWeight"
    and "(remaining * poolWeight m div totalWeight) * totalWeight \<le> remaining * poolWeight m"
proof -
  have "0 \<le> remaining * poolWeight m" "remaining * poolWeight m \<le> remaining * 9"
    using poolWeight_bounds [of m] assms(1) by (auto intro: mult_left_mono)
  then show "go_div (i64 (remaining * poolWeight m)) totalWeight = remaining * poolWeight m div totalWeight"
    using assms by (simp add: i64_id)
  show "0 \<le> remaining * poolWeight m div totalWeight"
    using \<open>0 \<le> remaining * poolWeight m\<close> assms(3) by (simp add: pos_imp_zdiv_nonneg_iff)
  show "(remaining * poolWeight m div totalWeight) * totalWeight \<le> remaining * poolWeight m"
    using assms(3) by (simp add: minus_mod_eq_div_mult [symmetric])
qed

lemma poolGrants_hold:
  assumes "targetsHold (whole + granted) low models t" "distinct (map pkmName models)"
    and "\<And>m. m \<in> set models \<Longrightarrow> 0 \<le> low m" "set ms \<subseteq> set models"
    and "0 \<le> whole" "0 \<le> granted" "0 \<le> remaining" "whole + remaining < 2 ^ 63" "remaining * 9 < 2 ^ 63" "0 < totalWeight"
    and "granted * totalWeight \<le> remaining * before" "before + sum_list (map poolWeight ms) \<le> totalWeight"
    and "poolGrants remaining totalWeight ms (t, granted) = (t', granted')"
  shows "targetsHold (whole + granted') low models t' \<and> 0 \<le> granted' \<and> granted' \<le> remaining"
  using assms
proof (induction ms arbitrary: t granted before)
  case Nil
  have "granted * totalWeight \<le> remaining * before"
    by (rule Nil.prems(11))
  also have "\<dots> \<le> remaining * totalWeight"
    using Nil.prems(7,12) by (intro mult_left_mono) auto
  finally have "granted \<le> remaining"
    using Nil.prems(10) by simp
  then show ?case
    using Nil.prems(1,6,13) by simp
next
  case (Cons m ms)
  define grant where "grant = remaining * poolWeight m div totalWeight"
  note grant = grant_within [OF Cons.prems(7,9,10), of m, folded grant_def]
  have "0 \<le> sum_list (map poolWeight ms)"
    using poolWeights_sum_bounds [of ms] by simp
  have paid: "(granted + grant) * totalWeight \<le> remaining * (before + poolWeight m)"
    using grant(3) Cons.prems(11) by (simp add: algebra_simps)
  also have "\<dots> \<le> remaining * totalWeight"
    using Cons.prems(7,12) \<open>0 \<le> sum_list (map poolWeight ms)\<close> by (intro mult_left_mono) auto
  finally have within: "granted + grant \<le> remaining"
    using Cons.prems(10) by simp
  have step: "poolGrants remaining totalWeight ms
                (t(pkmName m \<mapsto> i64 (mapGet 0 t (pkmName m) + grant)), granted + grant) = (t', granted')"
    using Cons.prems(5-8,13) grant(1,2) within by (simp add: Let_def i64_id)
  have "targetsHold (whole + granted + grant) low models (t(pkmName m \<mapsto> i64 (mapGet 0 t (pkmName m) + grant)))"
    using Cons.prems(1-8) grant(2) within by (intro targets_raised) auto
  then have held: "targetsHold (whole + (granted + grant)) low models
                     (t(pkmName m \<mapsto> i64 (mapGet 0 t (pkmName m) + grant)))"
    unfolding add.assoc .
  have rest: "set ms \<subseteq> set models" "0 \<le> granted + grant"
    "before + poolWeight m + sum_list (map poolWeight ms) \<le> totalWeight"
    using Cons.prems(4,6,12) grant(2) by auto
  show ?case
    by (rule Cons.IH [OF held Cons.prems(2,3) rest(1) Cons.prems(5) rest(2) Cons.prems(7-10) paid rest(3) step])
qed

lemma poolRemainder_hold:
  assumes "targetsHold whole low models t" "distinct (map pkmName models)"
    and "\<And>m. m \<in> set models \<Longrightarrow> 0 \<le> low m" "set active \<subseteq> set models" "active \<noteq> []" "whole + int n < 2 ^ 63"
  shows "targetsHold (whole + int n) low models (poolRemainder active index n t)"
  using assms(1,6)
proof (induction n arbitrary: index whole t)
  case (Suc n)
  define m where "m = active ! (index mod length active)"
  have "m \<in> set models"
    using assms(4,5) by (auto simp: m_def)
  then have "targetsHold (whole + 1) low models (t(pkmName m \<mapsto> i64 (mapGet 0 t (pkmName m) + 1)))"
    using Suc.prems assms(2,3) by (intro targets_raised) auto
  then show ?case
    using Suc.IH [of "whole + 1" _ "Suc index"] Suc.prems(2)
    by (simp add: Let_def m_def [symmetric] algebra_simps)
qed simp

lemma poolClamp_Cons:
  "poolClamp (m # ms) t =
     poolClamp ms (t(pkmName m \<mapsto> clampKVLimit (mapGet 0 t (pkmName m)) (pkmKVInitialCapacityBytes m)))"
  by (simp add: poolClamp_def)

lemma poolClamp_at:
  assumes "distinct (map pkmName ms)"
  shows "poolClamp ms t n =
           (case find (\<lambda>m. pkmName m = n) ms of
              Some m \<Rightarrow> Some (clampKVLimit (mapGet 0 t n) (pkmKVInitialCapacityBytes m))
            | None \<Rightarrow> t n)"
  using assms
proof (induction ms arbitrary: t)
  case (Cons m ms)
  have "find (\<lambda>m'. pkmName m' = pkmName m) ms = None"
    using Cons.prems by (auto simp: find_None_iff image_iff)
  moreover have "distinct (map pkmName ms)"
    using Cons.prems by simp
  ultimately show ?case
    unfolding poolClamp_Cons Cons.IH [OF \<open>distinct (map pkmName ms)\<close>] mapGet_upd
    by (auto split: option.splits)
qed (simp add: poolClamp_def)


lemma percentOf_bounds:
  assumes "0 \<le> v" "v < 2 ^ 63" "0 \<le> p" "p \<le> 100"
  shows "0 \<le> percentOf v p \<and> percentOf v p \<le> v"
proof -
  define q r where "q = v div 100" and "r = v mod 100"
  have v: "v = 100 * q + r" "0 \<le> q" "0 \<le> r" "r < 100"
    using assms(1) by (auto simp: q_def r_def)
  have qp: "0 \<le> q * p" "q * p \<le> q * 100" and rp: "0 \<le> r * p" "r * p \<le> r * 100"
    using v assms(3,4) by (auto intro: mult_left_mono)
  have "r * p div 100 \<le> r" "0 \<le> r * p div 100"
    using rp by (auto simp: pos_imp_zdiv_nonneg_iff intro: order_trans [OF zdiv_mono1 [OF rp(2), of 100]])
  moreover have "percentOf v p = i64 (q * p + r * p div 100)"
    using assms v qp rp by (simp add: percentOf_def q_def [symmetric] i64_id)
  ultimately show ?thesis
    using qp v assms(2) by (simp add: i64_id)
qed

lemma clamp_keeps:
  assumes "clampKVLimit low c = low" "low \<le> v"
  shows "low \<le> clampKVLimit v c" "clampKVLimit v c \<le> v"
  using assms by (auto simp: clampKVLimit_def split: option.splits if_splits)

lemma poolClamp_within:
  assumes "targetsHold whole low models t" "distinct (map pkmName models)"
    and "\<And>m. m \<in> set models \<Longrightarrow> clampKVLimit (low m) (pkmKVInitialCapacityBytes m) = low m"
  shows "targetsWithin whole low models (poolClamp models t)"
proof -
  have at: "poolClamp models t (pkmName m) = Some (clampKVLimit (mapGet 0 t (pkmName m)) (pkmKVInitialCapacityBytes m))"
    if m: "m \<in> set models" for m
  proof -
    have "find (\<lambda>m'. pkmName m' = pkmName m) models = Some m"
      using m assms(2) by (induction models) (auto simp: image_iff)
    then show ?thesis
      by (simp add: poolClamp_at [OF assms(2)])
  qed
  have others: "poolClamp models t n = t n" if "n \<notin> pkmName ` set models" for n
  proof -
    have "find (\<lambda>m'. pkmName m' = n) models = None"
      using that by (auto simp: find_None_iff image_iff)
    then show ?thesis
      by (simp add: poolClamp_at [OF assms(2)])
  qed
  have get: "mapGet 0 (poolClamp models t) (pkmName m) = clampKVLimit (mapGet 0 t (pkmName m)) (pkmKVInitialCapacityBytes m)"
    if "m \<in> set models" for m
    using at [OF that] by (simp add: mapGet_def)
  have low: "low m \<le> mapGet 0 t (pkmName m)" if "m \<in> set models" for m
    using that assms(1) by (simp add: targetsHold_def)
  have "targetSum (poolClamp models t) models \<le> targetSum t models"
    unfolding targetSum_def using get clamp_keeps(2) [OF assms(3) low] by (intro sum_list_map_mono_int) auto
  moreover have "dom (poolClamp models t) = pkmName ` set models"
  proof (rule set_eqI)
    fix n
    show "n \<in> dom (poolClamp models t) \<longleftrightarrow> n \<in> pkmName ` set models"
      using at others [of n] assms(1) by (cases "n \<in> pkmName ` set models") (auto simp: targetsHold_def dom_def)
  qed
  moreover have "targetSum (poolClamp models t) models = targetSum t models"
    if "\<forall>m \<in> set models. pkmKVInitialCapacityBytes m = None"
    unfolding targetSum_def using get that
    by (intro arg_cong [where f = sum_list] map_cong) (auto simp: clampKVLimit_def)
  ultimately show ?thesis
    using assms(1) get clamp_keeps(1) [OF assms(3) low]
    by (auto simp: targetsWithin_def targetsHold_def clampKVLimit_def split: option.splits)
qed


lemma bases_within:
  assumes "targetsHold whole low models t" "\<And>m. m \<in> set models \<Longrightarrow> mapGet 0 t (pkmName m) = low m"
    and "\<And>m. m \<in> set models \<Longrightarrow> clampKVLimit (low m) (pkmKVInitialCapacityBytes m) = low m"
  shows "targetsWithin whole low models t"
proof -
  have "low m \<le> c" if "m \<in> set models" "pkmKVInitialCapacityBytes m = Some c" "0 \<le> c" for m c
    using assms(3) [OF that(1)] that(2,3) by (auto simp: clampKVLimit_def split: if_splits)
  then show ?thesis
    using assms(1,2) by (auto simp: targetsWithin_def targetsHold_def)
qed

lemma poolShare_within:
  assumes "targetsHold b low models t" "distinct (map pkmName models)"
    and low: "\<And>m. m \<in> set models \<Longrightarrow> 0 \<le> low m"
    and "\<And>m. m \<in> set models \<Longrightarrow> clampKVLimit (low m) (pkmKVInitialCapacityBytes m) = low m"
    and "set active \<subseteq> set models" "active \<noteq> []" "int (length active) < 2 ^ 59"
    and "0 \<le> b" "0 < remaining" "b + remaining < 2 ^ 63" "remaining * 9 < 2 ^ 63"
  shows "targetsWithin (b + remaining) low models (poolShare remaining active models t)"
proof -
  obtain t' granted where grants: "poolGrants remaining (poolTotalWeight active) active (t, 0) = (t', granted)"
    by fastforce
  have weight: "poolTotalWeight active = sum_list (map poolWeight active)"
    using assms(7) by (rule poolTotalWeight_sum)
  have "0 < sum_list (map poolWeight active)"
    using poolWeights_sum_bounds [of active] assms(6) by (cases active) auto
  then have granted: "targetsHold (b + granted) low models t' \<and> 0 \<le> granted \<and> granted \<le> remaining"
    using assms(1,2,5,8-11) low grants
    by (intro poolGrants_hold [where t = t and granted = 0 and before = 0]) (auto simp: weight)
  then have "targetsHold (b + granted + int (nat (remaining - granted))) low models
               (poolRemainder active 0 (nat (remaining - granted)) t')"
    using assms(2,5,6,10) low by (intro poolRemainder_hold) auto
  then have "targetsHold (b + remaining) low models (poolRemainder active 0 (nat (remaining - granted)) t')"
    using granted by (simp add: algebra_simps)
  moreover have "i64 (remaining - granted) = remaining - granted"
    using granted assms(8-10) by (intro i64_id) auto
  ultimately show ?thesis
    using poolClamp_within assms(2,4) grants by (simp add: poolShare_def)
qed

lemma shared_within:
  assumes bases: "poolBases capacity f models [] (0, Map.empty, []) = Inr (b, t, active)"
    and "active \<noteq> []" "0 < capacity" "capacity * 9 < 2 ^ 63" "int (length models) < 2 ^ 59"
    and base: "\<And>m. m \<in> set models \<Longrightarrow> poolBase f m < 2 ^ 63"
  shows "targetsWithin capacity (poolBase f) models
           (if i64 (capacity - b) \<le> 0 \<or> poolTotalWeight (sort_key pkmName active) = 0 then t
            else poolShare (i64 (capacity - b)) (sort_key pkmName active) models t)"
proof -
  note hold = poolBases_hold [OF bases _ _ base]
  note names = poolBases_names [OF bases]
  have room: "i64 (capacity - b) = capacity - b"
    using hold(2,3) assms(3,4) by (intro i64_id) auto
  have active: "active = filter (\<lambda>m. actActive (pkmActivity m)) models"
    using poolBases_active [OF bases] by simp
  then have "length active \<le> length models"
    by simp
  then have few: "int (length (sort_key pkmName active)) < 2 ^ 59"
    using assms(5) by simp
  then have weight: "poolTotalWeight (sort_key pkmName active) \<noteq> 0"
    using poolTotalWeight_sum [OF few] poolWeights_sum_bounds [of "sort_key pkmName active"] assms(2)
    by (cases active) auto
  have sorted: "sort_key pkmName active \<noteq> []"
    using assms(2) by (metis length_0_conv length_sort)
  show ?thesis
  proof (cases "capacity - b \<le> 0")
    case True
    then have "b = capacity"
      using hold(3) assms(3,4) by auto
    then show ?thesis
      using bases_within [of capacity "poolBase f" models t] hold(1) assms(3,4) names poolBases_targets [OF bases]
      by (simp add: mapGet_def)
  next
    case False
    then have "targetsWithin (b + (capacity - b)) (poolBase f) models
                 (poolShare (capacity - b) (sort_key pkmName active) models t)"
      using hold assms(3,4) names active few sorted
      by (intro poolShare_within) (auto simp: poolBase_nonneg)
    then show ?thesis
      using room False weight by simp
  qed
qed

lemma computed_targets:
  assumes "computePoolKVTargets capacity percent models = Inr (Some targets)"
    and "capacity * 9 < 2 ^ 63" "\<And>m. m \<in> set models \<Longrightarrow> pkmKVUsedBytes m < 2 ^ 63" "int (length models) < 2 ^ 59"
  shows "targetsWithin capacity (poolBase (percentOf capacity percent)) models targets \<and> distinct (map pkmName models)"
proof -
  define f where "f = percentOf capacity percent"
  have params: "0 < capacity" "0 \<le> percent" "percent \<le> 100"
    using assms(1) by (auto simp: computePoolKVTargets_def split: if_splits)
  then have "0 \<le> f" "f \<le> capacity"
    using percentOf_bounds [of capacity percent] assms(2) by (auto simp: f_def)
  then have base: "poolBase f m < 2 ^ 63" if "m \<in> set models" for m
    using poolBase_in_i64 [of f m] assms(2,3) that by simp
  obtain b t active where bases: "poolBases capacity f models [] (0, Map.empty, []) = Inr (b, t, active)"
    and some: "active \<noteq> []" and ends:
      "targets = (if i64 (capacity - b) \<le> 0 \<or> poolTotalWeight (sort_key pkmName active) = 0 then t
                  else poolShare (i64 (capacity - b)) (sort_key pkmName active) models t)"
    using assms(1) by (auto simp: computePoolKVTargets_def f_def [symmetric] Let_def split: if_splits sum.splits)
  show ?thesis
    unfolding f_def [symmetric] ends
    using shared_within [OF bases some params(1) assms(2,4) base] poolBases_names [OF bases] by simp
qed

lemma exPool_plan:
  "case computePoolKVTargets 1000 10 [exPoolModel ''a'' 300 True, exPoolModel ''b'' 20 False] of
     Inr (Some targets) \<Rightarrow> mapGet 0 targets ''a'' = 900 \<and> mapGet 0 targets ''b'' = 100
   | _ \<Rightarrow> False"
  by code_simp

text \<open>C36. The limits a pool policy computes for the engines of a card name exactly those engines,
  never add up to more than the pool's capacity, leave every engine the KV cache it holds and its
  guaranteed floor (up to the capacity it was started with), and never exceed the capacity an engine
  was started with. When no engine reports such a capacity, the limits add up to the whole capacity.
  The pool's capacity is below an exbibyte's order, so that a ninefold of it is a 64-bit number.\<close>

theorem pool_limits_share_capacity:
  assumes "computePoolKVTargets capacity percent models = Inr (Some targets)"
    and "capacity * 9 < 2 ^ 63" "\<forall>m \<in> set models. pkmKVUsedBytes m < 2 ^ 63" "int (length models) < 2 ^ 59"
  shows "dom targets = pkmName ` set models \<and>
         sum_list (map (\<lambda>m. mapGet 0 targets (pkmName m)) models) \<le> capacity \<and>
         (\<forall>m \<in> set models. max (pkmKVUsedBytes m) 0 \<le> mapGet 0 targets (pkmName m) \<and>
            poolFloor (percentOf capacity percent) m \<le> mapGet 0 targets (pkmName m) \<and>
            (\<forall>c. pkmKVInitialCapacityBytes m = Some c \<longrightarrow> 0 \<le> c \<longrightarrow> mapGet 0 targets (pkmName m) \<le> c)) \<and>
         ((\<forall>m \<in> set models. pkmKVInitialCapacityBytes m = None) \<longrightarrow>
            sum_list (map (\<lambda>m. mapGet 0 targets (pkmName m)) models) = capacity)"
proof -
  have "targetsWithin capacity (poolBase (percentOf capacity percent)) models targets"
    using computed_targets [OF assms(1,2) _ assms(4)] assms(3) by simp
  then show ?thesis
    unfolding targetsWithin_def targetSum_def poolBase_def by auto
qed

theorem pool_limits_share_capacity_witness:
  "\<exists>targets. computePoolKVTargets 1000 10 [exPoolModel ''a'' 300 True, exPoolModel ''b'' 20 False] = Inr (Some targets) \<and>
     mapGet 0 targets ''a'' = 900 \<and> mapGet 0 targets ''b'' = 100 \<and>
     dom targets = {''a'', ''b''} \<and> mapGet 0 targets ''a'' + mapGet 0 targets ''b'' \<le> 1000"
proof -
  obtain targets where plan:
    "computePoolKVTargets 1000 10 [exPoolModel ''a'' 300 True, exPoolModel ''b'' 20 False] = Inr (Some targets)"
    "mapGet 0 targets ''a'' = 900" "mapGet 0 targets ''b'' = 100"
    using exPool_plan by (auto split: sum.splits option.splits)
  note pool_limits_share_capacity [OF plan(1)]
  then have "dom targets = {''a'', ''b''}" "mapGet 0 targets ''a'' + mapGet 0 targets ''b'' \<le> 1000"
    by (simp_all add: exPoolModel_def)
  then show ?thesis
    using plan by blast
qed


text \<open>A capacity the annotation admits can be large enough for the shares to wrap around: here a single
  busy engine is granted an eighth of what is left, and the loop that hands out a byte at a time has
  the other seven eighths, over \<open>8 * 10 ^ 18\<close> rounds, still to go.\<close>

lemma pool_grant_wraps:
  assumes "pkmActivity m = \<lparr>actActive = True, actRequestsInFlight = 4, actCompletionDelta = 4, actLastActive = 0,
                            actInitialized = True\<rparr>"
  shows "\<exists>targets granted. poolGrants 9223372036854775807 (poolTotalWeight [m]) [m] (bases, 0) = (targets, granted) \<and>
           8 * 10 ^ 18 < i64 (9223372036854775807 - granted)"
  using assms by (simp add: poolTotalWeight_def poolWeight_def boundedActivity_def go_div_def i64_def)

text \<open>A wait the annotation admits can be long enough to wrap around to a negative duration, for which
  every engine counts as idle long enough.\<close>

lemma pool_wait_wraps:
  "validateLifecycle \<lparr>SleepAfterSeconds = 10000000000, NoWakeReserveWhileAsleep = False,
                      SleepToMakeRoomAfterSeconds = Some 10000000000\<rparr> = None \<and>
   sleepToMakeRoomAfter \<lparr>SleepAfterSeconds = 10000000000, NoWakeReserveWhileAsleep = False,
                      SleepToMakeRoomAfterSeconds = Some 10000000000\<rparr> < 0"
  by code_simp

section \<open>When an engine was last busy\<close>

lemma observeModel_other: "k \<noteq> key \<Longrightarrow> mgrActivity (snd (observeModel now key m mgr)) k = mgrActivity mgr k"
  by (simp add: observeModel_def Let_def split: option.split)

lemma observeModel_unreadable: "\<not> readable m \<Longrightarrow> snd (observeModel now key m mgr) = mgr"
  by (auto simp: observeModel_def readable_def split: option.split)

lemma sweep_drops:
  "mgrActivity (sweepActivityLocked now mgr) key = Some r \<Longrightarrow> mgrActivity mgr key = Some r"
  by (auto simp: sweepActivityLocked_def split: if_splits option.splits)

lemma begin_drops:
  "mgrActivity (snd (beginPolicy now pool mgr)) key = Some r \<Longrightarrow> mgrActivity mgr key = Some r"
  by (auto simp: beginPolicy_def Let_def dest: sweep_drops split: if_splits option.splits)

lemma recordTrue_later: "recordTrue t h key r \<Longrightarrow> t \<le> t' \<Longrightarrow> recordTrue t' h key r"
  by (auto simp: recordTrue_def)

lemma in_flight_id:
  "countersSane m \<Longrightarrow> i64 (max (mdlRequestsRunning m) 0 + max (mdlRequestsWaiting m) 0) =
     max (mdlRequestsRunning m) 0 + max (mdlRequestsWaiting m) 0"
  by (intro i64_id) (auto simp: countersSane_def max_def)

lemma observed_record:
  assumes old: "\<And>r. mgrActivity mgr key = Some r \<Longrightarrow> recordTrue t h key r"
    and times: "\<forall>(t', _) \<in> set h. t' \<le> t" "t \<le> now" and "readable m" "countersSane m"
    and new: "mgrActivity (snd (observeModel now key m mgr)) key = Some r"
  shows "recordTrue now ((now, key, m) # h) key r"
proof -
  obtain c where m: "mdlRequestMetricsObserved m" "mdlRequestSuccessTotal m = Some c" "0 \<le> c" "c < 2 ^ 63"
    using assms(4,5) by (auto simp: readable_def countersSane_def)
  define o' where "o' = mapGet zeroActivityRecord (mgrActivity mgr) key"
  define busy where "busy \<longleftrightarrow> max (mdlRequestsRunning m) 0 + max (mdlRequestsWaiting m) 0 > 0"
  have kept: "recordTrue t h key o'" if "recKnown o'"
    using that old by (auto simp: o'_def mapGet_def zeroActivityRecord_def split: option.splits)
  have delta: "i64 (c - recSuccessTotal o') = c - recSuccessTotal o'" if "recKnown o'" "c \<ge> recSuccessTotal o'"
    using kept [OF that(1)] that(2) m(4) by (intro i64_id) (auto simp: recordTrue_def)
  have r: "r = \<lparr>recSuccessTotal = c, recKnown = True,
                recLastActive = (if recKnown o' \<and> c = recSuccessTotal o' \<and> \<not> busy then recLastActive o' else now),
                recLastSeen = now\<rparr>"
    using new m delta in_flight_id [OF assms(5)]
    by (auto simp: observeModel_def Let_def o'_def [symmetric] busy_def split: if_splits)
  have past: "\<not> now < t'" if "(t', k, m') \<in> set h" for t' k m'
    using times that by fastforce
  show ?thesis
  proof (cases "recKnown o' \<and> c = recSuccessTotal o' \<and> \<not> busy")
    case True
    then have "quietAt c m"
      using m(2) by (auto simp: quietAt_def busy_def max_def split: if_splits)
    then show ?thesis
      using kept True r times m(3,4) by (auto simp: recordTrue_def)
  next
    case False
    then show ?thesis
      using r past m(3,4) by (auto simp: recordTrue_def)
  qed
qed

lemma unreadable_record:
  "recordTrue t h key r \<Longrightarrow> \<not> readable m \<or> k \<noteq> key \<Longrightarrow> recordTrue t ((now, k, m) # h) key r"
  by (auto simp: recordTrue_def)

lemma run_times: "pool_run t h mgr \<Longrightarrow> \<forall>(t', _) \<in> set h. t' \<le> t"
  by (induction rule: pool_run.induct) force+

lemma run_records:
  assumes "pool_run t h mgr" "\<forall>(_, _, m) \<in> set h. countersSane m" "mgrActivity mgr key = Some r"
  shows "recordTrue t h key r"
  using assms
proof (induction arbitrary: r rule: pool_run.induct)
  case (observed t h mgr now k m)
  have kept: "recordTrue now h key r" if "mgrActivity mgr key = Some r" for r
    using observed that by (auto intro: recordTrue_later)
  show ?case
  proof (cases "k = key \<and> readable m")
    case True
    then show ?thesis
      using observed.IH observed.prems observed_record [where mgr = mgr, OF _ run_times [OF observed.hyps(1)] observed.hyps(2)]
      by auto
  next
    case False
    then have "mgrActivity mgr key = Some r"
      using observed.prems by (metis observeModel_other observeModel_unreadable)
    then show ?thesis
      using kept False by (auto intro: unreadable_record)
  qed
next
  case (began t h mgr now pool)
  then show ?case
    by (blast dest: begin_drops intro: recordTrue_later)
qed (auto simp: newPoolPolicyManager_def observeConfig_def forgetConfig_def Let_def split: if_splits)

text \<open>C7. An engine that may be put to sleep to make room has been idle for as long as the pool asks:
  every reading the pool policy took of it in that time shows no request running or waiting, and all
  of them the same count of completed requests.\<close>

theorem engine_slept_for_room_was_idle:
  assumes "pool_run t h mgr" "\<forall>(_, _, m) \<in> set h. countersSane m"
    and "idleEngineOf claims routedSince (lastActive mgr) now forClaim pod idleFor model = Some e"
  shows "\<exists>completed. \<forall>(t', key, m) \<in> set h.
           key = poolActivityKey pod model \<and> readable m \<and> now - idleFor < t' \<longrightarrow> quietAt completed m"
proof -
  obtain since where since: "lastActive mgr (poolActivityKey pod model) = Some since" "since \<le> now - idleFor"
    using assms(3) by (fastforce simp: idleEngineOf_def Let_def split: if_splits option.splits)
  then obtain r where "mgrActivity mgr (poolActivityKey pod model) = Some r" "since = recLastActive r"
    by (auto simp: lastActive_def split: option.splits if_splits)
  then have "recordTrue t h (poolActivityKey pod model) r"
    using run_records assms(1,2) by blast
  then show ?thesis
    using since(2) \<open>since = recLastActive r\<close>
    by (intro exI [of _ "recSuccessTotal r"]) (auto simp: recordTrue_def)
qed


theorem engine_slept_for_room_was_idle_witness:
  "\<exists>e completed. idleEngineOf [exIdleClaim] (\<lambda>_. 0) (lastActive exManager) 220 ''b'' exCandidate 100 (exServed 7) = Some e \<and>
     quietAt completed (exServed 7)"
proof -
  let ?key = "poolActivityKey exCandidate (exServed 7)"
  let ?h = "[(200, ?key, exServed 7), (100, ?key, exServed 7)]"
  have run: "pool_run 200 ?h exManager"
    unfolding exManager_def
    by (rule pool_run.observed [OF pool_run.observed [OF pool_run.start [of 0]]]) simp_all
  have sane: "\<forall>(_, _, m) \<in> set ?h. countersSane m"
    by code_simp
  have "idleEngineOf [exIdleClaim] (\<lambda>_. 0) (lastActive exManager) 220 ''b'' exCandidate 100 (exServed 7) \<noteq> None"
    by code_simp
  then obtain e where e: "idleEngineOf [exIdleClaim] (\<lambda>_. 0) (lastActive exManager) 220 ''b'' exCandidate 100 (exServed 7) = Some e"
    by auto
  have "readable (exServed 7)"
    by code_simp
  then show ?thesis
    using engine_slept_for_room_was_idle [OF run sane e] e by auto
qed

end
