(* ===== verification/IdleSleep.thy ===== *)
theory IdleSleep
  imports PoolPolicy
begin

text \<open>
  Carrying out the policy of a pool
  (\<^verbatim>\<open>src/pkg/controller/modelclaim/pool_policy_controller.go\<close> from \<open>reconcilePoolPolicies\<close> on, with
  \<open>annotateWarmPodWithState\<close> and \<open>recomputeReadiness\<close> of \<^verbatim>\<open>modelclaim_controller.go\<close> and
  \<open>putIdleEngineToSleep\<close> of \<^verbatim>\<open>wake.go\<close>): the KV limits written for a pool, and idle engines put to
  sleep.

  The API server, the runtimes and the clock are the parameter \<open>sleepOutside\<close>, whose answers may
  depend on everything that happened before. A pod object read by the controller is a copy of the one
  the server has: \<open>swCopy\<close> are the routes annotated on the copy, \<open>swRoutes\<close> those on the server. The
  route's JSON text is the record it encodes. Identifiers of operations, log lines, gauges
  and the counter of the writes are left out.
\<close>

section \<open>State\<close>

record modelClaimRoute =
  rtModel :: string
  rtPort :: int
  rtState :: string
  rtWakeByRequest :: bool
  rtReason :: string

record readyCondition =
  rcTrue :: bool
  rcReason :: string
  rcSince :: int

record 'q claimObject =
  coClaim :: "'q modelClaim"
  coReadyReplicas :: int
  coReady :: "readyCondition option"

datatype poolEvent =
    InvalidPoolPolicy cardKey string
  | PoolPolicyValid cardKey
  | SleepingIdle string string "int option"
  | SleptToMakeRoom string string string "int option"
  | SleepingFootprintUnknown string string
  | PreemptionFailed string string string
  | PreemptedBySleep string string string "int option"

text \<open>\<open>swSleeps\<close> is not a field of the code: it notes each call that asked a runtime to put an engine
  to sleep, with the route the server had for it then and the number of times the pod's runtime had
  been read.\<close>

record sleepMoment =
  smPod :: string
  smModel :: string
  smRoute :: "modelClaimRoute option"
  smReads :: nat

record 'q sleepWorld =
  swRoutes :: "string \<times> string \<rightharpoonup> modelClaimRoute"
  swCopy :: "string \<times> string \<rightharpoonup> modelClaimRoute"
  swClaims :: "string \<rightharpoonup> 'q claimObject"
  swSegments :: "string \<times> string \<rightharpoonup> int"
  swReadings :: runtimeReadings
  swManager :: poolPolicyManager
  swFootprints :: sleepingFootprints
  swEvents :: "poolEvent list"
  swEvaluations :: "(string \<times> string) list"
  swCalls :: nat
  swSleeps :: "sleepMoment list"

text \<open>A patch that is answered, refused, or applied without its answer coming back.\<close>

datatype patchAnswer = Patched | PatchRefused | PatchLost

datatype deploymentAnswer = DeploymentUnread | NoDeployment | DeploymentFound cardKey string

record 'q sleepOutside =
  soClient :: runtimeClient
  soNow :: "'q sleepWorld \<Rightarrow> int"
  soPatch :: "'q sleepWorld \<Rightarrow> patchAnswer"
  soSleep :: "'q sleepWorld \<Rightarrow> string \<Rightarrow> string \<Rightarrow> bool"
  soSetKVLimit :: "'q sleepWorld \<Rightarrow> string \<Rightarrow> string \<Rightarrow> int \<Rightarrow> writeAnswer"
  soGet :: "'q sleepWorld \<Rightarrow> string \<Rightarrow> bool"
  soUpdate :: "'q sleepWorld \<Rightarrow> string \<Rightarrow> updateAnswer"
  soList :: "'q sleepWorld \<Rightarrow> 'q claimObject list option"
  soRead :: "'q sleepWorld \<Rightarrow> 'q claimObject list option"
  soPods :: "'q sleepWorld \<Rightarrow> cardKey \<Rightarrow> 'q corePod list option"
  soDeployment :: "'q sleepWorld \<Rightarrow> 'q corePod \<Rightarrow> deploymentAnswer"
  soJSON :: jsonPolicy
  soStamp :: "readyCondition option \<Rightarrow> bool \<Rightarrow> int"

definition stepped :: "'q sleepWorld \<Rightarrow> 'q sleepWorld" where
  "stepped w = w\<lparr>swCalls := Suc (swCalls w)\<rparr>"

section \<open>The readiness of a claim\<close>

definition movingReason :: "string \<Rightarrow> bool" where
  "movingReason reason \<longleftrightarrow> reason = ''NoRoomToWake'' \<or> reason = ''WakeFailed''"

text \<open>Setting the Ready condition. The time it changed is the client library's to stamp.\<close>

definition setReady ::
  "(readyCondition option \<Rightarrow> bool \<Rightarrow> int) \<Rightarrow> bool \<Rightarrow> string \<Rightarrow> 'q claimObject \<Rightarrow> 'q claimObject" where
  "setReady stamp ready reason obj =
     obj\<lparr>coReady := Some \<lparr>rcTrue = ready, rcReason = reason, rcSince = stamp (coReady obj) ready\<rparr>\<rparr>"

definition setPhase :: "string \<Rightarrow> 'q claimObject \<Rightarrow> 'q claimObject" where
  "setPhase phase obj = obj\<lparr>coClaim := (coClaim obj)\<lparr>statusPhase := phase\<rparr>\<rparr>"

definition countInstances :: "(modelClaimInstance \<Rightarrow> bool) \<Rightarrow> 'q claimObject \<Rightarrow> nat" where
  "countInstances p obj = length (filter p (statusInstances (coClaim obj)))"

definition recomputeReadiness ::
  "(readyCondition option \<Rightarrow> bool \<Rightarrow> int) \<Rightarrow> 'q claimObject \<Rightarrow> 'q claimObject" where
  "recomputeReadiness stamp obj0 =
     (let active = countInstances (\<lambda>i. instPhase i = ''Active'') obj0;
          sleeping = countInstances (\<lambda>i. instPhase i = ''Sleeping'') obj0;
          waiting = countInstances (\<lambda>i. instPhase i = ''Sleeping'' \<and> instReason i = ''WaitingForRoom'') obj0;
          failed = countInstances (\<lambda>i. instPhase i = ''Failed'') obj0;
          moving = countInstances (\<lambda>i. instPhase i = ''Failed'' \<and> movingReason (instReason i)) obj0;
          placed = length (statusInstances (coClaim obj0));
          obj = obj0\<lparr>coReadyReplicas := i32 (int active)\<rparr>
      in if failed > 0 \<and> moving = failed then setReady stamp False ''Moving'' (setPhase ''Failed'' obj)
         else if failed > 0 then setReady stamp False ''EngineFailed'' (setPhase ''Failed'' obj)
         else if placed > 0 \<and> active = placed then setReady stamp True ''ModelClaimActive'' (setPhase ''Active'' obj)
         else if sleeping > 0 \<and> waiting > 0 then setReady stamp False ''WaitingForRoom'' (setPhase ''Sleeping'' obj)
         else if sleeping > 0 then setReady stamp False ''EngineSleeping'' (setPhase ''Sleeping'' obj)
         else if placed > 0 then setReady stamp False ''EngineStarting'' (setPhase ''Activating'' obj)
         else
           (let obj' = setPhase ''Pending'' obj
            in case coReady obj' of
                 Some c \<Rightarrow> if rcTrue c then setReady stamp False ''NotPlaced'' obj' else obj'
               | None \<Rightarrow> obj'))"

definition routedSince :: "'q claimObject \<Rightarrow> int" where
  "routedSince obj =
     (case coReady obj of Some c \<Rightarrow> if rcTrue c then rcSince c else 0 | None \<Rightarrow> 0)"

section \<open>Routes\<close>

definition routeOf :: "'q modelClaim \<Rightarrow> int \<Rightarrow> string \<Rightarrow> string \<Rightarrow> modelClaimRoute" where
  "routeOf pm port state reason =
     \<lparr>rtModel = servedModelName pm, rtPort = port, rtState = state, rtWakeByRequest = True, rtReason = reason\<rparr>"

text \<open>\<^const>\<open>True\<close> stands for an error.\<close>

definition annotateWarmPodWithState ::
  "'q sleepOutside \<Rightarrow> 'q modelClaim \<Rightarrow> 'q corePod \<Rightarrow> int \<Rightarrow> string \<Rightarrow> string \<Rightarrow> 'q sleepWorld \<Rightarrow> bool \<times> 'q sleepWorld" where
  "annotateWarmPodWithState out pm pod port state reason w =
     (let key = (podName pod, clmName pm); route = routeOf pm port state reason
      in if swCopy w key = Some route then (False, w)
         else
           (let a = soPatch out w;
                w' = w\<lparr>swCopy := (swCopy w)(key \<mapsto> route),
                       swRoutes := (if a = PatchRefused then swRoutes w else (swRoutes w)(key \<mapsto> route))\<rparr>
            in (a \<noteq> Patched, stepped w')))"

section \<open>Putting an engine to sleep\<close>

datatype sleepError =
    RouteNotTakenBack
  | EngineNotRead string
  | EngineNotListed
  | EngineServing
  | SleepRefused
  | SleepNotRecorded

definition forgetReading :: "'q corePod \<Rightarrow> 'q sleepWorld \<Rightarrow> 'q sleepWorld" where
  "forgetReading pod w = w\<lparr>swReadings := readings_forget (podName pod) (swReadings w)\<rparr>"

definition readPod ::
  "'q sleepOutside \<Rightarrow> 'q corePod \<Rightarrow> 'q sleepWorld \<Rightarrow> (runtimeSnapshot option \<times> string option) \<times> 'q sleepWorld" where
  "readPod out pod w =
     (let (answer, rr) = readings_of (soClient out) (podRefOf pod) (swReadings w)
      in (answer, w\<lparr>swReadings := rr\<rparr>))"

definition engineIsQuiet ::
  "'q sleepOutside \<Rightarrow> 'q corePod \<Rightarrow> 'q modelClaim \<Rightarrow> string \<Rightarrow> 'q sleepWorld \<Rightarrow> sleepError option \<times> 'q sleepWorld" where
  "engineIsQuiet out pod claim served w0 =
     (let ((snapshot, err), w) = readPod out pod w0
      in case err of
           Some e \<Rightarrow> (Some (EngineNotRead e), w)
         | None \<Rightarrow>
             (case snapshotModelForClaim snapshot claim served of
                None \<Rightarrow> (Some EngineNotListed, w)
              | Some m \<Rightarrow>
                  if \<not> mdlRequestMetricsObserved m \<or> mdlRequestsRunning m > 0 \<or> mdlRequestsWaiting m > 0
                  then (Some EngineServing, w)
                  else
                    (let (activity, mgr) = observeModel (soNow out w) (poolActivityKey pod m) m (swManager w);
                         w' = w\<lparr>swManager := mgr\<rparr>
                     in case activity of
                          Some a \<Rightarrow> if actActive a then (Some EngineServing, w') else (None, w')
                        | None \<Rightarrow> (None, w'))))"

fun markSleeping :: "string \<Rightarrow> modelClaimInstance list \<Rightarrow> bool \<times> modelClaimInstance list" where
  "markSleeping pod [] = (False, [])"
| "markSleeping pod (i # is) =
     (if instPod i \<noteq> pod then (let (changed, is') = markSleeping pod is in (changed, i # is'))
      else if instPhase i \<noteq> ''Sleeping'' then (True, i\<lparr>instPhase := ''Sleeping''\<rparr> # is)
      else (False, i # is))"

definition markClaimInstanceSleeping ::
  "'q sleepOutside \<Rightarrow> 'q modelClaim \<Rightarrow> string \<Rightarrow> 'q sleepWorld \<Rightarrow> bool \<times> 'q sleepWorld" where
  "markClaimInstanceSleeping out pm pod w =
     (case swClaims w (clmName pm) of
        None \<Rightarrow> (True, stepped w)
      | Some latest \<Rightarrow>
          if \<not> soGet out w (clmName pm) then (True, stepped w)
          else
            (let (changed, instances) = markSleeping pod (statusInstances (coClaim latest))
             in if \<not> changed then (False, stepped w)
                else
                  (let latest' = recomputeReadiness (soStamp out)
                                   (latest\<lparr>coClaim := (coClaim latest)\<lparr>statusInstances := instances\<rparr>\<rparr>);
                       a = soUpdate out w (clmName pm)
                   in (a \<noteq> Updated,
                       stepped (if a = Updated \<or> a = UpdateLost
                                then w\<lparr>swClaims := (swClaims w)(clmName pm \<mapsto> latest')\<rparr> else w)))))"

definition askSleep :: "'q sleepOutside \<Rightarrow> 'q modelClaim \<Rightarrow> 'q corePod \<Rightarrow> string \<Rightarrow> 'q sleepWorld \<Rightarrow> bool \<times> 'q sleepWorld" where
  "askSleep out claim pod served w =
     (soSleep out w (podName pod) served,
      stepped (w\<lparr>swSleeps := swSleeps w @
                   [\<lparr>smPod = podName pod, smModel = served, smRoute = swRoutes w (podName pod, clmName claim),
                     smReads = askedCount (podName pod) (swReadings w)\<rparr>]\<rparr>))"

definition putRouteBack :: "'q sleepOutside \<Rightarrow> 'q modelClaim \<Rightarrow> 'q corePod \<Rightarrow> int \<Rightarrow> 'q sleepWorld \<Rightarrow> 'q sleepWorld" where
  "putRouteBack out claim pod port w = snd (annotateWarmPodWithState out claim pod port ''active'' [] w)"

definition putEngineToSleep ::
  "'q sleepOutside \<Rightarrow> 'q modelClaim \<Rightarrow> 'q corePod \<Rightarrow> int \<Rightarrow> string \<Rightarrow> 'q sleepWorld \<Rightarrow> sleepError option \<times> 'q sleepWorld" where
  "putEngineToSleep out claim pod port served w0 =
     (let (notTaken, w1) = annotateWarmPodWithState out claim pod 0 ''sleeping'' [] w0
      in if notTaken then (Some RouteNotTakenBack, w1)
         else
           (let (serving, w2) = engineIsQuiet out pod claim served (forgetReading pod w1)
            in case serving of
                 Some e \<Rightarrow> (Some e, putRouteBack out claim pod port w2)
               | None \<Rightarrow>
                   (let (refused, w3) = askSleep out claim pod served w2;
                        w4 = forgetReading pod w3
                    in if refused then (Some SleepRefused, putRouteBack out claim pod port w4)
                       else
                         (let (unrecorded, w5) = markClaimInstanceSleeping out claim (podName pod) w4
                          in (if unrecorded then Some SleepNotRecorded else None, w5)))))"

definition sleptEngine ::
  "'q sleepOutside \<Rightarrow> 'q corePod \<Rightarrow> 'q modelClaim \<Rightarrow> 'q sleepWorld \<Rightarrow> runtimeSnapshotModel option \<times> 'q sleepWorld" where
  "sleptEngine out pod claim w0 =
     (let ((snapshot, err), w) = readPod out pod w0
      in (if err \<noteq> None then None else snapshotModelForClaim snapshot claim (servedModelName claim), w))"

definition knownFootprint :: "runtimeSnapshotModel option \<Rightarrow> int option" where
  "knownFootprint m = (case sleepingFootprintOf m of (f, known) \<Rightarrow> if known then Some f else None)"

definition warnOfAnUnmeasuredSleep ::
  "'q modelClaim \<Rightarrow> string \<Rightarrow> runtimeSnapshotModel option \<Rightarrow> bool \<Rightarrow> 'q sleepWorld \<Rightarrow> 'q sleepWorld" where
  "warnOfAnUnmeasuredSleep claim pod m noReserve w =
     (if \<not> noReserve \<or> knownFootprint m \<noteq> None then w
      else w\<lparr>swEvents := swEvents w @ [SleepingFootprintUnknown (clmName claim) pod]\<rparr>)"

text \<open>Putting an idle engine to sleep to make room for another claim.\<close>

definition putIdleEngineToSleep ::
  "'q sleepOutside \<Rightarrow> 'q idleEngine \<Rightarrow> 'q corePod \<Rightarrow> 'q modelClaim \<Rightarrow> 'q sleepWorld \<Rightarrow> bool \<times> 'q sleepWorld" where
  "putIdleEngineToSleep out idle pod forClaim w0 =
     (let (err, w1) = putEngineToSleep out (idlClaim idle) pod (idlPort idle) (mdlModelName (idlModel idle)) w0
      in if err \<noteq> None then (False, w1)
         else
           (let (slept, w2) = sleptEngine out pod (idlClaim idle) w1;
                w3 = (case knownFootprint slept of
                        Some f \<Rightarrow> w2\<lparr>swFootprints := noteFootprint (idlClaim idle) f (swFootprints w2)\<rparr>
                      | None \<Rightarrow> w2);
                w4 = w3\<lparr>swEvents := swEvents w3 @
                          [SleptToMakeRoom (clmName (idlClaim idle)) (podName pod) (clmName forClaim) (knownFootprint slept)]\<rparr>
            in (True, warnOfAnUnmeasuredSleep (idlClaim idle) (podName pod) slept True w4)))"


section \<open>Carrying out a pool's policy on a pod\<close>

definition servingEngine :: "runtimeSnapshotModel \<Rightarrow> bool" where
  "servingEngine m \<longleftrightarrow> mdlPhase m = ''active'' \<and> mdlAlive m \<and> mdlReady m"

type_synonym activities = "string \<rightharpoonup> poolRequestActivity"

fun observeEach ::
  "'q sleepOutside \<Rightarrow> 'q corePod \<Rightarrow> runtimeSnapshotModel list \<Rightarrow> bool \<times> activities \<Rightarrow> 'q sleepWorld \<Rightarrow>
     (bool \<times> activities) \<times> 'q sleepWorld" where
  "observeEach out pod [] acc w = (acc, w)"
| "observeEach out pod (m # ms) (complete, acts) w =
     (if \<not> servingEngine m then observeEach out pod ms (complete, acts) w
      else
        (let (activity, mgr) = observeModel (soNow out w) (poolActivityKey pod m) m (swManager w);
             w' = w\<lparr>swManager := mgr\<rparr>
         in case activity of
              None \<Rightarrow> observeEach out pod ms (False, acts) w'
            | Some a \<Rightarrow> observeEach out pod ms (complete, acts(snapshotActivityKey m \<mapsto> a)) w'))"

text \<open>The activities, when every serving engine could be read.\<close>

definition observeSnapshot ::
  "'q sleepOutside \<Rightarrow> 'q corePod \<Rightarrow> runtimeSnapshot \<Rightarrow> 'q sleepWorld \<Rightarrow> activities option \<times> 'q sleepWorld" where
  "observeSnapshot out pod s w =
     (let ((complete, acts), w') = observeEach out pod (snapModels s) (True, Map.empty) w
      in (if complete then Some acts else None, w'))"

definition zeroRequestActivity :: poolRequestActivity where
  "zeroRequestActivity = \<lparr>actActive = False, actRequestsInFlight = 0, actCompletionDelta = 0, actLastActive = 0,
                          actInitialized = False\<rparr>"

definition modelsForKVPolicy :: "runtimeSnapshot \<Rightarrow> activities \<Rightarrow> poolKVModel list" where
  "modelsForKVPolicy s acts =
     (let serving = filter servingEngine (snapModels s)
      in if list_ex (\<lambda>m. mdlKVCapacityBytes m \<le> 0) serving then []
         else map (\<lambda>m. \<lparr>pkmName = mdlModelName m, pkmKVUsedBytes = mdlKVUsedBytes m,
                        pkmKVCapacityBytes = mdlKVCapacityBytes m,
                        pkmKVInitialCapacityBytes = mdlKVInitialCapacityBytes m,
                        pkmActivity = mapGet zeroRequestActivity acts (snapshotActivityKey m)\<rparr>) serving)"

definition claimHoldsAKVLimitOn :: "'q sleepOutside \<Rightarrow> 'q corePod \<Rightarrow> 'q sleepWorld \<Rightarrow> bool" where
  "claimHoldsAKVLimitOn out pod w =
     (case soRead out w of
        None \<Rightarrow> True
      | Some objs \<Rightarrow>
          list_ex (\<lambda>obj. list_ex (\<lambda>i. instPod i = podName pod \<and> instKVLimitBytes i > 0)
                             (statusInstances (coClaim obj))) objs)"

definition evaluated :: "string \<Rightarrow> string \<Rightarrow> 'q sleepWorld \<Rightarrow> 'q sleepWorld" where
  "evaluated result reason w = w\<lparr>swEvaluations := swEvaluations w @ [(result, reason)]\<rparr>"

text \<open>Writing the limits. The numbers count the writes that were applied and that failed.\<close>

fun writeTargets ::
  "'q sleepOutside \<Rightarrow> 'q corePod \<Rightarrow> kvTargets \<Rightarrow> runtimeSnapshotModel list \<Rightarrow> nat \<times> nat \<Rightarrow> 'q sleepWorld \<Rightarrow>
     (nat \<times> nat) \<times> 'q sleepWorld" where
  "writeTargets out pod targets [] counts w = (counts, w)"
| "writeTargets out pod targets (m # ms) (applied, failed) w =
     (case targets (mdlModelName m) of
        None \<Rightarrow> writeTargets out pod targets ms (applied, failed) w
      | Some target \<Rightarrow>
          if target = mdlKVCapacityBytes m then writeTargets out pod targets ms (applied, failed) w
          else
            (let a = soSetKVLimit out w (podName pod) (mdlModelName m) target;
                 w' = stepped (if answerTakes a
                               then w\<lparr>swSegments := (swSegments w)((podName pod, mdlModelName m) \<mapsto> target)\<rparr> else w)
             in writeTargets out pod targets ms
                  (if answerFails a then (applied, Suc failed)
                   else if a = WrittenNowhere then (applied, failed) else (Suc applied, failed)) w'))"

definition applyTargets ::
  "'q sleepOutside \<Rightarrow> 'q corePod \<Rightarrow> runtimeSnapshot \<Rightarrow> kvTargets \<Rightarrow> 'q sleepWorld \<Rightarrow> 'q sleepWorld" where
  "applyTargets out pod s targets w0 =
     (let ((applied, failed), w1) = writeTargets out pod targets (snapModels s) (0, 0) w0;
          w2 = (if applied > 0 \<or> failed > 0 then forgetReading pod w1 else w1)
      in if failed > 0 then evaluated ''failed'' ''runtime_error'' w2
         else if applied > 0 then evaluated ''applied'' ''applied'' w2
         else evaluated ''skipped'' ''no_change'' w2)"

definition reconcilePoolKVPolicy ::
  "'q sleepOutside \<Rightarrow> poolPolicy \<Rightarrow> 'q corePod \<Rightarrow> runtimeSnapshot \<Rightarrow> activities option \<Rightarrow> 'q sleepWorld \<Rightarrow> 'q sleepWorld" where
  "reconcilePoolKVPolicy out policy pod s acts w =
     (case polReclaim policy of
        None \<Rightarrow> w
      | Some reclaim \<Rightarrow>
          if length (snapAccelerators s) \<noteq> 1 then evaluated ''skipped'' ''unsupported_topology'' w
          else if claimHoldsAKVLimitOn out pod w then evaluated ''skipped'' ''claim_held_limits'' w
          else case acts of
                 None \<Rightarrow> evaluated ''skipped'' ''incomplete_metrics'' w
               | Some activities \<Rightarrow>
                   (case computePoolKVTargets (rclCapacityBytes reclaim) (rclGuaranteedFloorPercent reclaim)
                           (modelsForKVPolicy s activities) of
                      Inl _ \<Rightarrow> evaluated ''skipped'' ''unsafe_plan'' w
                    | Inr None \<Rightarrow> applyTargets out pod s Map.empty w
                    | Inr (Some targets) \<Rightarrow> applyTargets out pod s targets w))"

definition routedOf :: "'q claimObject list \<Rightarrow> 'q modelClaim \<Rightarrow> int" where
  "routedOf objs claim =
     (case find (\<lambda>obj. clmNamespace (coClaim obj) = clmNamespace claim \<and> clmName (coClaim obj) = clmName claim) objs of
        Some obj \<Rightarrow> routedSince obj | None \<Rightarrow> 0)"

text \<open>The engine of one turn of the loop of \<open>reconcilePoolIdleSleep\<close>, with its claim and port, when it
  is to be put to sleep.\<close>

definition idleTooLong ::
  "'q claimObject list \<Rightarrow> int \<Rightarrow> int \<Rightarrow> 'q corePod \<Rightarrow> activities \<Rightarrow> runtimeSnapshotModel \<Rightarrow> ('q modelClaim \<times> int) option" where
  "idleTooLong objs now idleAfter pod acts m =
     (if \<not> servingEngine m then None
      else case acts (snapshotActivityKey m) of
             None \<Rightarrow> None
           | Some a \<Rightarrow>
               if \<not> actInitialized a \<or> actActive a then None
               else case claimForRuntimeSnapshot (map coClaim objs) m of
                      None \<Rightarrow> None
                    | Some claim \<Rightarrow>
                        if \<not> isVLLMModel claim then None
                        else
                          (let since1 = (case mdlLastTransition m of
                                           Some t \<Rightarrow> if t > actLastActive a then t else actLastActive a
                                         | None \<Rightarrow> actLastActive a);
                               since = (if routedOf objs claim > since1 then routedOf objs claim else since1)
                           in if since = 0 \<or> now - since < idleAfter then None
                              else map_option (Pair claim) (activeClaimInstancePort claim (podName pod))))"

definition sleepIdleEngine ::
  "'q sleepOutside \<Rightarrow> poolLifecyclePolicy \<Rightarrow> 'q claimObject list \<Rightarrow> 'q corePod \<Rightarrow> activities \<Rightarrow> runtimeSnapshotModel \<Rightarrow>
     'q sleepWorld \<Rightarrow> 'q sleepWorld" where
  "sleepIdleEngine out lifecycle objs pod acts m w =
     (case idleTooLong objs (soNow out w) (nanoseconds (SleepAfterSeconds lifecycle)) pod acts m of
        None \<Rightarrow> w
      | Some (claim, port) \<Rightarrow>
          (let (err, w1) = putEngineToSleep out claim pod port (mdlModelName m) w
           in if err \<noteq> None then w1
              else
                (let (slept, w2) = sleptEngine out pod claim w1;
                     w3 = w2\<lparr>swEvents := swEvents w2 @ [SleepingIdle (clmName claim) (podName pod) (knownFootprint slept)]\<rparr>
                 in warnOfAnUnmeasuredSleep claim (podName pod) slept (NoWakeReserveWhileAsleep lifecycle) w3)))"

definition reconcilePoolIdleSleep ::
  "'q sleepOutside \<Rightarrow> poolLifecyclePolicy \<Rightarrow> 'q corePod \<Rightarrow> runtimeSnapshot \<Rightarrow> activities \<Rightarrow> 'q sleepWorld \<Rightarrow> 'q sleepWorld" where
  "reconcilePoolIdleSleep out lifecycle pod s acts w =
     (case soList out w of
        None \<Rightarrow> w
      | Some objs \<Rightarrow> fold (sleepIdleEngine out lifecycle objs pod acts) (snapModels s) w)"

definition reconcilePod ::
  "'q sleepOutside \<Rightarrow> poolPolicy \<Rightarrow> 'q corePod \<Rightarrow> 'q sleepWorld \<Rightarrow> 'q sleepWorld" where
  "reconcilePod out policy pod w0 =
     (let ((snapshot, err), w1) = readPod out pod w0
      in if err \<noteq> None then evaluated ''failed'' ''snapshot_error'' w1
         else case snapshot of
                None \<Rightarrow> evaluated ''skipped'' ''empty_snapshot'' w1
              | Some s \<Rightarrow>
                  (let (acts, w2) = observeSnapshot out pod s w1;
                       w3 = reconcilePoolKVPolicy out policy pod s acts w2
                   in case (polLifecycle policy, acts) of
                        (Some lifecycle, Some activities) \<Rightarrow>
                          if SleepAfterSeconds lifecycle > 0
                          then reconcilePoolIdleSleep out lifecycle pod s activities w3 else w3
                      | _ \<Rightarrow> w3))"

definition reconcilePoolPolicy ::
  "'q sleepOutside \<Rightarrow> cardKey \<Rightarrow> poolPolicy \<Rightarrow> 'q sleepWorld \<Rightarrow> 'q sleepWorld" where
  "reconcilePoolPolicy out pool policy w =
     (if polReclaim policy = None \<and> polLifecycle policy = None then evaluated ''skipped'' ''no_reclaim_policy'' w
      else case soPods out w pool of
             None \<Rightarrow> evaluated ''failed'' ''pod_list_error'' w
           | Some [] \<Rightarrow> evaluated ''skipped'' ''no_pods'' w
           | Some pods \<Rightarrow>
               fold (reconcilePod out policy) pods
                 (w\<lparr>swReadings := readUnread (soClient out) (map podRefOf pods) (swReadings w)\<rparr>))"

section \<open>The pools of a pass\<close>

definition resolvePoolPolicy ::
  "jsonPolicy \<Rightarrow> cardKey \<Rightarrow> string \<Rightarrow> 'q sleepWorld \<Rightarrow> poolPolicy option \<times> 'q sleepWorld" where
  "resolvePoolPolicy js pool raw w =
     (if raw = [] then (None, w\<lparr>swManager := snd (forgetConfig pool (swManager w))\<rparr>)
      else case parsePoolPolicy js raw of
             Inl e \<Rightarrow>
               (let ((warn, _), mgr) = observeConfig pool raw (cfgClass e) (swManager w);
                    w1 = evaluated ''skipped'' (cfgClass e) (w\<lparr>swManager := mgr\<rparr>)
                in (None, if warn then w1\<lparr>swEvents := swEvents w1 @ [InvalidPoolPolicy pool (cfgClass e)]\<rparr> else w1))
           | Inr policy \<Rightarrow>
               (let ((_, recovered), mgr) = observeConfig pool raw [] (swManager w);
                    w1 = w\<lparr>swManager := mgr\<rparr>
                in (Some policy, if recovered then w1\<lparr>swEvents := swEvents w1 @ [PoolPolicyValid pool]\<rparr> else w1)))"

fun reconcilePoolsOf ::
  "'q sleepOutside \<Rightarrow> 'q corePod list \<Rightarrow> cardKey list \<Rightarrow> 'q sleepWorld \<Rightarrow> 'q sleepWorld" where
  "reconcilePoolsOf out [] seen w = w"
| "reconcilePoolsOf out (pod # pods) seen w =
     (case soDeployment out w pod of
        DeploymentUnread \<Rightarrow> reconcilePoolsOf out pods seen w
      | NoDeployment \<Rightarrow> reconcilePoolsOf out pods seen w
      | DeploymentFound pool raw \<Rightarrow>
          if pool \<in> set seen then reconcilePoolsOf out pods seen w
          else
            (let (policy, w1) = resolvePoolPolicy (soJSON out) pool raw w
             in case policy of
                  None \<Rightarrow> reconcilePoolsOf out pods (pool # seen) w1
                | Some p \<Rightarrow>
                    (let (begun, mgr) = beginPolicy (soNow out w1) pool (swManager w1);
                         w2 = w1\<lparr>swManager := mgr\<rparr>
                     in reconcilePoolsOf out pods (pool # seen)
                          (if begun then reconcilePoolPolicy out pool p w2 else w2))))"

definition reconcilePoolPolicies :: "'q sleepOutside \<Rightarrow> 'q corePod list \<Rightarrow> 'q sleepWorld \<Rightarrow> 'q sleepWorld" where
  "reconcilePoolPolicies out candidates w = reconcilePoolsOf out candidates [] w"

definition lifecycleOf :: "jsonPolicy \<Rightarrow> string \<Rightarrow> poolLifecyclePolicy option" where
  "lifecycleOf js raw =
     (if raw = [] then None
      else case parsePoolPolicy js raw of Inl _ \<Rightarrow> None | Inr policy \<Rightarrow> polLifecycle policy)"

definition keepsNoWakeReserve :: "jsonPolicy \<Rightarrow> string \<Rightarrow> bool" where
  "keepsNoWakeReserve js raw =
     (case lifecycleOf js raw of Some l \<Rightarrow> NoWakeReserveWhileAsleep l | None \<Rightarrow> False)"

fun podsWithoutReserve ::
  "'q sleepOutside \<Rightarrow> 'q sleepWorld \<Rightarrow> 'q corePod list \<Rightarrow> (cardKey \<rightharpoonup> bool) \<Rightarrow> (string \<Rightarrow> bool) \<Rightarrow> string \<Rightarrow> bool" where
  "podsWithoutReserve out w [] pools without = without"
| "podsWithoutReserve out w (pod # pods) pools without =
     (case soDeployment out w pod of
        DeploymentUnread \<Rightarrow> podsWithoutReserve out w pods pools without
      | NoDeployment \<Rightarrow> podsWithoutReserve out w pods pools without
      | DeploymentFound pool raw \<Rightarrow>
          (let none = (case pools pool of Some known \<Rightarrow> known | None \<Rightarrow> keepsNoWakeReserve (soJSON out) raw)
           in podsWithoutReserve out w pods (pools(pool \<mapsto> none))
                (if none then without(podName pod := True) else without)))"

definition podsWithoutWakeReserve ::
  "'q sleepOutside \<Rightarrow> 'q sleepWorld \<Rightarrow> 'q corePod list \<Rightarrow> string \<Rightarrow> bool" where
  "podsWithoutWakeReserve out w pods = podsWithoutReserve out w pods Map.empty (\<lambda>_. False)"

definition poolLifecycleOf :: "'q sleepOutside \<Rightarrow> 'q sleepWorld \<Rightarrow> 'q corePod \<Rightarrow> poolLifecyclePolicy option" where
  "poolLifecycleOf out w pod =
     (case soDeployment out w pod of
        DeploymentFound _ raw \<Rightarrow> lifecycleOf (soJSON out) raw
      | _ \<Rightarrow> None)"


text \<open>What the two outcomes have in common with the claim: its instances and their count.\<close>

definition readied :: "bool \<Rightarrow> 'q claimObject \<Rightarrow> 'q claimObject \<Rightarrow> bool" where
  "readied serving obj obj' \<longleftrightarrow>
     statusInstances (coClaim obj') = statusInstances (coClaim obj) \<and>
     coReadyReplicas obj' = i32 (int (countInstances (\<lambda>i. instPhase i = ''Active'') obj)) \<and>
     (statusPhase (coClaim obj') = ''Active'' \<longleftrightarrow> serving) \<and>
     ((\<exists>c. coReady obj' = Some c \<and> rcTrue c) \<longleftrightarrow> serving)"

text \<open>A reading that shows an engine without work: no request runs or waits, and none was completed
  since the pool policy last read the engine.\<close>

definition quietReading ::
  "poolPolicyManager \<Rightarrow> 'q corePod \<Rightarrow> 'q modelClaim \<Rightarrow> string \<Rightarrow> runtimeSnapshot option \<times> string option \<Rightarrow> bool" where
  "quietReading mgr pod claim served answer \<longleftrightarrow>
     snd answer = None \<and>
     (\<exists>m. snapshotModelForClaim (fst answer) claim served = Some m \<and> mdlRequestMetricsObserved m \<and>
        mdlRequestsRunning m \<le> 0 \<and> mdlRequestsWaiting m \<le> 0 \<and>
        (\<forall>r c. mgrActivity mgr (poolActivityKey pod m) = Some r \<and> recKnown r \<and> 0 \<le> recSuccessTotal r \<and>
                mdlRequestSuccessTotal m = Some c \<and> c < 2 ^ 63 \<longrightarrow> c \<le> recSuccessTotal r))"

section \<open>A small pool\<close>

definition exPoolSnapshot :: runtimeSnapshot where
  "exPoolSnapshot = \<lparr>snapObservedAt = 5,
     snapAccelerators = [\<lparr>accID = ''0'', accHBMTotalBytes = 110, accHBMFreeBytes = 50, accHBMUsableBytes = 100\<rparr>],
     snapModels = [exServed 7], snapCachedArtifacts = []\<rparr>"

definition exPoolBusy :: poolRequestActivity where
  "exPoolBusy = \<lparr>actActive = True, actRequestsInFlight = 1, actCompletionDelta = 0, actLastActive = 3, actInitialized = True\<rparr>"

definition exSleepWorld :: "int sleepWorld" where
  "exSleepWorld =
     \<lparr>swRoutes = [(''p'', ''a'') \<mapsto> routeOf exIdleClaim 8000 ''active'' []],
      swCopy = [(''p'', ''a'') \<mapsto> routeOf exIdleClaim 8000 ''active'' []],
      swClaims = [''a'' \<mapsto> \<lparr>coClaim = exIdleClaim, coReadyReplicas = 1, coReady = None\<rparr>],
      swSegments = [(''p'', ''a'') \<mapsto> 10], swReadings = newRuntimeReadings, swManager = newPoolPolicyManager,
      swFootprints = Map.empty, swEvents = [], swEvaluations = [], swCalls = 0, swSleeps = []\<rparr>"

definition exSleepOutside :: "int sleepOutside" where
  "exSleepOutside =
     \<lparr>soClient = (\<lambda>_ _. (Some exPoolSnapshot, None)), soNow = (\<lambda>w. 1000 + int (swCalls w)), soPatch = (\<lambda>_. Patched),
      soSleep = (\<lambda>_ _ _. False), soSetKVLimit = (\<lambda>_ _ _ _. Written), soGet = (\<lambda>_ _. True), soUpdate = (\<lambda>_ _. Updated),
      soList = (\<lambda>w. Some []), soRead = (\<lambda>w. Some []), soPods = (\<lambda>_ _. Some []), soDeployment = (\<lambda>_ _. NoDeployment),
      soJSON = \<lparr>decodePolicy = (\<lambda>_. Inl []), decodeAfter = (\<lambda>_. EndOfText)\<rparr>, soStamp = (\<lambda>_ _. 9)\<rparr>"

definition segmentOn :: "'q corePod \<Rightarrow> 'q sleepWorld \<Rightarrow> string \<Rightarrow> int" where
  "segmentOn pod w n = mapGet 0 (swSegments w) (podName pod, n)"

section \<open>Readiness\<close>

lemma length_filter_all: "length (filter P xs) = length xs \<longleftrightarrow> (\<forall>x \<in> set xs. P x)"
  by (induction xs) (auto, metis Suc_n_not_le_n length_filter_le)

lemma all_instances_active:
  "countInstances (\<lambda>i. instPhase i = ''Active'') obj = length (statusInstances (coClaim obj)) \<longleftrightarrow>
     (\<forall>i \<in> set (statusInstances (coClaim obj)). instPhase i = ''Active'')"
  unfolding countInstances_def by (rule length_filter_all)

lemma none_failed:
  assumes "\<forall>i \<in> set (statusInstances (coClaim obj)). instPhase i = ''Active''"
  shows "countInstances (\<lambda>i. instPhase i = ''Failed'') obj = 0"
  using assms by (auto simp: countInstances_def filter_empty_conv)

lemma readied_set:
  "(p = ''Active'' \<longleftrightarrow> ready) \<Longrightarrow>
     readied ready obj (setReady stamp ready reason (setPhase p
       (obj\<lparr>coReadyReplicas := i32 (int (countInstances (\<lambda>i. instPhase i = ''Active'') obj))\<rparr>)))"
  by (simp add: readied_def setReady_def setPhase_def)

lemma readied_pending:
  "(\<And>c. coReady obj = Some c \<Longrightarrow> \<not> rcTrue c) \<Longrightarrow>
     readied False obj (setPhase ''Pending''
       (obj\<lparr>coReadyReplicas := i32 (int (countInstances (\<lambda>i. instPhase i = ''Active'') obj))\<rparr>))"
  by (auto simp: readied_def setPhase_def)

lemma coReady_setPhase [simp]: "coReady (setPhase p (obj\<lparr>coReadyReplicas := n\<rparr>)) = coReady obj"
  by (simp add: setPhase_def)

lemma readied_if: "readied r obj a \<Longrightarrow> readied r obj b \<Longrightarrow> readied r obj (if c then a else b)"
  by simp

lemma recompute_readied:
  "readied (statusInstances (coClaim obj) \<noteq> [] \<and> (\<forall>i \<in> set (statusInstances (coClaim obj)). instPhase i = ''Active''))
     obj (recomputeReadiness stamp obj)"
proof (cases "statusInstances (coClaim obj) \<noteq> [] \<and> (\<forall>i \<in> set (statusInstances (coClaim obj)). instPhase i = ''Active'')")
  case True
  then have counts: "countInstances (\<lambda>i. instPhase i = ''Failed'') obj = 0"
    "countInstances (\<lambda>i. instPhase i = ''Active'') obj = length (statusInstances (coClaim obj))"
    "0 < length (statusInstances (coClaim obj))"
    using none_failed [of obj] all_instances_active [of obj] by blast+
  then have "recomputeReadiness stamp obj = setReady stamp True ''ModelClaimActive'' (setPhase ''Active''
      (obj\<lparr>coReadyReplicas := i32 (int (countInstances (\<lambda>i. instPhase i = ''Active'') obj))\<rparr>))"
    unfolding recomputeReadiness_def Let_def by simp
  then show ?thesis
    using True readied_set [of "''Active''" True] by simp
next
  case False
  then have unready: "(length (statusInstances (coClaim obj)) > 0 \<and>
     countInstances (\<lambda>i. instPhase i = ''Active'') obj = length (statusInstances (coClaim obj))) = False"
    using all_instances_active [of obj] by auto
  have "readied False obj (recomputeReadiness stamp obj)"
    unfolding recomputeReadiness_def Let_def unready if_False
    by (intro readied_if readied_set) (auto split: option.split intro!: readied_pending readied_set)
  then show ?thesis
    unfolding iffD2 [OF eq_False False] .
qed

text \<open>After its readiness is worked out again, a claim is Ready exactly when it has instances and all
  of them are active, its phase says the same, its instances are untouched, and the number of ready
  replicas is the number of active instances, as a 32-bit number. A claim that is not Ready counts as
  routed at no time.\<close>

theorem readiness_follows_instances:
  "(let obj' = recomputeReadiness stamp obj; instances = statusInstances (coClaim obj);
        serving = (instances \<noteq> [] \<and> (\<forall>i \<in> set instances. instPhase i = ''Active''))
    in statusInstances (coClaim obj') = instances \<and>
       coReadyReplicas obj' = i32 (int (length (filter (\<lambda>i. instPhase i = ''Active'') instances))) \<and>
       (statusPhase (coClaim obj') = ''Active'' \<longleftrightarrow> serving) \<and>
       ((\<exists>c. coReady obj' = Some c \<and> rcTrue c) \<longleftrightarrow> serving) \<and>
       (\<not> serving \<longrightarrow> routedSince obj' = 0))"
  using recompute_readied [of obj stamp]
  unfolding Let_def readied_def countInstances_def routedSince_def by (simp split: option.split) metis

theorem readiness_follows_instances_witness:
  "statusPhase (coClaim (recomputeReadiness (\<lambda>_ _. 9) \<lparr>coClaim = exIdleClaim, coReadyReplicas = 0, coReady = None\<rparr>)) = ''Active'' \<and>
   routedSince (recomputeReadiness (\<lambda>_ _. 9)
     \<lparr>coClaim = hd exClaims, coReadyReplicas = 1, coReady = Some \<lparr>rcTrue = True, rcReason = [], rcSince = 4\<rparr>\<rparr>) = 0"
proof -
  have "\<forall>i \<in> set (statusInstances exIdleClaim). instPhase i = ''Active''" "statusInstances exIdleClaim \<noteq> []"
    "\<not> (\<forall>i \<in> set (statusInstances (hd exClaims)). instPhase i = ''Active'')"
    by code_simp+
  then show ?thesis
    using readiness_follows_instances [of "\<lambda>_ _. 9" "\<lparr>coClaim = exIdleClaim, coReadyReplicas = 0, coReady = None\<rparr>"]
      readiness_follows_instances [of "\<lambda>_ _. 9"
        "\<lparr>coClaim = hd exClaims, coReadyReplicas = 1, coReady = Some \<lparr>rcTrue = True, rcReason = [], rcSince = 4\<rparr>\<rparr>"]
    by (simp add: Let_def)
qed


section \<open>An engine put to sleep\<close>

lemma annotate_routes:
  assumes "annotateWarmPodWithState out claim pod port state reason w = (failed, w')"
  shows "swSleeps w' = swSleeps w \<and> swReadings w' = swReadings w \<and> swManager w' = swManager w \<and>
         swClaims w' = swClaims w \<and> swCopy w' (podName pod, clmName claim) = Some (routeOf claim port state reason)"
  using assms by (auto simp: annotateWarmPodWithState_def stepped_def Let_def split: if_splits)

lemma annotate_takes:
  assumes "annotateWarmPodWithState out claim pod port state reason w = (False, w')"
    and "swCopy w (podName pod, clmName claim) = swRoutes w (podName pod, clmName claim)"
  shows "swRoutes w' (podName pod, clmName claim) = Some (routeOf claim port state reason)"
  using assms by (auto simp: annotateWarmPodWithState_def stepped_def Let_def split: if_splits)

lemma forgotten_reading_is_fresh:
  assumes "readPod out pod (forgetReading pod w) = (answer, w')"
  shows "answer = soClient out (podIP pod) (askedCount (podName pod) (swReadings w)) \<and>
         askedCount (podName pod) (swReadings w') = Suc (askedCount (podName pod) (swReadings w)) \<and>
         swRoutes w' = swRoutes w \<and> swCopy w' = swCopy w \<and> swSleeps w' = swSleeps w \<and> swManager w' = swManager w \<and>
         swClaims w' = swClaims w"
  using assms
  by (auto simp: readPod_def forgetReading_def readings_of_def readings_forget_def askRuntime_def podRefOf_def
                 askedCount_def Let_def)

lemma inactive_engine_completed_nothing:
  assumes "observeModel now key m mgr = (Some a, mgr')" "\<not> actActive a"
    and "mgrActivity mgr key = Some r" "recKnown r" "0 \<le> recSuccessTotal r"
    and "mdlRequestSuccessTotal m = Some c" "c < 2 ^ 63"
  shows "c \<le> recSuccessTotal r"
proof (rule ccontr)
  assume "\<not> c \<le> recSuccessTotal r"
  then have "i64 (c - recSuccessTotal r) = c - recSuccessTotal r"
    using assms(5,7) by (intro i64_id) auto
  then show False
    using assms \<open>\<not> c \<le> recSuccessTotal r\<close>
    by (auto simp: observeModel_def Let_def mapGet_def split: if_splits)
qed

lemma observed_unless_unreadable:
  "observeModel now key m mgr = (None, mgr') \<Longrightarrow> \<not> mdlRequestMetricsObserved m \<or> mdlRequestSuccessTotal m = None"
  by (auto simp: observeModel_def Let_def split: if_splits option.splits)

lemma quiet_engine:
  assumes "engineIsQuiet out pod claim served (forgetReading pod w) = (None, w')"
  shows "quietReading (swManager w) pod claim served
           (soClient out (podIP pod) (askedCount (podName pod) (swReadings w)))"
proof -
  obtain s e w1 where read: "readPod out pod (forgetReading pod w) = ((s, e), w1)"
    by (metis surj_pair)
  note fresh = forgotten_reading_is_fresh [OF read]
  obtain m where m: "e = None" "snapshotModelForClaim s claim served = Some m" "mdlRequestMetricsObserved m"
    "mdlRequestsRunning m \<le> 0" "mdlRequestsWaiting m \<le> 0"
    using assms read by (auto simp: engineIsQuiet_def Let_def split: option.splits if_splits)
  obtain act mgr where obs: "observeModel (soNow out w1) (poolActivityKey pod m) m (swManager w) = (act, mgr)"
    by fastforce
  have "act = None \<or> (\<exists>a. act = Some a \<and> \<not> actActive a)"
    using assms read m obs fresh by (auto simp: engineIsQuiet_def Let_def split: option.splits if_splits)
  then have "c \<le> recSuccessTotal r"
    if "mgrActivity (swManager w) (poolActivityKey pod m) = Some r" "recKnown r" "0 \<le> recSuccessTotal r"
      "mdlRequestSuccessTotal m = Some c" "c < 2 ^ 63" for r c
    using that obs m(3) inactive_engine_completed_nothing observed_unless_unreadable by fastforce
  then have "quietReading (swManager w) pod claim served (s, e)"
    using m by (auto simp: quietReading_def)
  then show ?thesis
    using fresh by simp
qed

lemma quiet_frame:
  assumes "engineIsQuiet out pod claim served (forgetReading pod w) = (err, w')"
  shows "swRoutes w' = swRoutes w \<and> swCopy w' = swCopy w \<and> swSleeps w' = swSleeps w \<and> swClaims w' = swClaims w \<and>
         askedCount (podName pod) (swReadings w') = Suc (askedCount (podName pod) (swReadings w))"
proof -
  obtain s e w1 where read: "readPod out pod (forgetReading pod w) = ((s, e), w1)"
    by (metis surj_pair)
  show ?thesis
    using assms forgotten_reading_is_fresh [OF read] read
    by (auto simp: engineIsQuiet_def Let_def split: option.splits if_splits prod.splits)
qed

lemma putRouteBack_sleeps [simp]: "swSleeps (putRouteBack out claim pod port w) = swSleeps w"
  by (simp add: putRouteBack_def annotateWarmPodWithState_def stepped_def Let_def)

lemma forgetReading_frame [simp]:
  "swSleeps (forgetReading pod w) = swSleeps w" "swRoutes (forgetReading pod w) = swRoutes w"
  "swCopy (forgetReading pod w) = swCopy w" "swClaims (forgetReading pod w) = swClaims w"
  by (simp_all add: forgetReading_def)

lemma askSleep_frame:
  "askSleep out claim pod served w = (refused, w') \<Longrightarrow>
     swRoutes w' = swRoutes w \<and> swCopy w' = swCopy w \<and> swClaims w' = swClaims w \<and>
     swSleeps w' = swSleeps w @ [\<lparr>smPod = podName pod, smModel = served,
                                  smRoute = swRoutes w (podName pod, clmName claim),
                                  smReads = askedCount (podName pod) (swReadings w)\<rparr>]"
  by (auto simp: askSleep_def stepped_def)

lemma markClaim_frame:
  "markClaimInstanceSleeping out claim pod w = (failed, w') \<Longrightarrow>
     swRoutes w' = swRoutes w \<and> swCopy w' = swCopy w \<and> swSleeps w' = swSleeps w"
  by (auto simp: markClaimInstanceSleeping_def stepped_def Let_def split: option.splits if_splits prod.splits)


lemma put_to_sleep_cases:
  assumes "putEngineToSleep out claim pod port served w = (err, w')"
  obtains (not_taken) "err = Some RouteNotTakenBack" "swSleeps w' = swSleeps w"
  | (kept_awake) w1 w2 e where "annotateWarmPodWithState out claim pod 0 ''sleeping'' [] w = (False, w1)"
      "engineIsQuiet out pod claim served (forgetReading pod w1) = (Some e, w2)"
      "err = Some e" "w' = putRouteBack out claim pod port w2"
  | (refused) w1 w2 w3 where "annotateWarmPodWithState out claim pod 0 ''sleeping'' [] w = (False, w1)"
      "engineIsQuiet out pod claim served (forgetReading pod w1) = (None, w2)"
      "askSleep out claim pod served w2 = (True, w3)"
      "err = Some SleepRefused" "w' = putRouteBack out claim pod port (forgetReading pod w3)"
  | (asleep) w1 w2 w3 failed where "annotateWarmPodWithState out claim pod 0 ''sleeping'' [] w = (False, w1)"
      "engineIsQuiet out pod claim served (forgetReading pod w1) = (None, w2)"
      "askSleep out claim pod served w2 = (False, w3)"
      "markClaimInstanceSleeping out claim (podName pod) (forgetReading pod w3) = (failed, w')"
      "err = (if failed then Some SleepNotRecorded else None)"
proof -
  obtain f1 w1 where s1: "annotateWarmPodWithState out claim pod 0 ''sleeping'' [] w = (f1, w1)"
    by fastforce
  obtain e2 w2 where s2: "engineIsQuiet out pod claim served (forgetReading pod w1) = (e2, w2)"
    by fastforce
  obtain f3 w3 where s3: "askSleep out claim pod served w2 = (f3, w3)"
    by fastforce
  obtain f4 w4 where s4: "markClaimInstanceSleeping out claim (podName pod) (forgetReading pod w3) = (f4, w4)"
    by fastforce
  note put = assms [unfolded putEngineToSleep_def s1 Let_def split_beta fst_conv snd_conv s2 s3 s4]
  show thesis
  proof (cases "f1 = True \<or> e2 \<noteq> None \<or> f3 = True")
    case True
    then show thesis
      using put s1 s2 s3 annotate_routes [OF s1] not_taken kept_awake refused
      by (auto split: if_splits option.splits)
  next
    case False
    then show thesis
      using put s1 s2 s3 s4 asleep by (auto split: if_splits option.splits)
  qed
qed

lemma sleeping_moment:
  assumes "annotateWarmPodWithState out claim pod 0 ''sleeping'' [] w = (False, w1)"
    and "engineIsQuiet out pod claim served (forgetReading pod w1) = (None, w2)"
    and "askSleep out claim pod served w2 = (failed, w3)"
    and "swCopy w (podName pod, clmName claim) = swRoutes w (podName pod, clmName claim)"
  shows "swSleeps w3 = swSleeps w @ [\<lparr>smPod = podName pod, smModel = served, smRoute = Some (routeOf claim 0 ''sleeping'' []),
                                      smReads = Suc (askedCount (podName pod) (swReadings w))\<rparr>] \<and>
         quietReading (swManager w) pod claim served (soClient out (podIP pod) (askedCount (podName pod) (swReadings w))) \<and>
         swRoutes w3 (podName pod, clmName claim) = Some (routeOf claim 0 ''sleeping'' []) \<and>
         swCopy w3 (podName pod, clmName claim) = Some (routeOf claim 0 ''sleeping'' [])"
  using annotate_routes [OF assms(1)] annotate_takes [OF assms(1,4)] quiet_frame [OF assms(2)] quiet_engine [OF assms(2)]
    askSleep_frame [OF assms(3)]
  by simp

lemma asked_to_sleep_once:
  assumes "putEngineToSleep out claim pod port served w = (err, w')"
    and "swCopy w (podName pod, clmName claim) = swRoutes w (podName pod, clmName claim)"
  shows "swSleeps w' = swSleeps w \<or>
         (swSleeps w' = swSleeps w @ [\<lparr>smPod = podName pod, smModel = served,
                                      smRoute = Some (routeOf claim 0 ''sleeping'' []),
                                      smReads = Suc (askedCount (podName pod) (swReadings w))\<rparr>] \<and>
          quietReading (swManager w) pod claim served
            (soClient out (podIP pod) (askedCount (podName pod) (swReadings w))))"
  using assms(1)
proof (cases rule: put_to_sleep_cases)
  case (kept_awake w1 w2 e)
  then show ?thesis
    using annotate_routes [OF kept_awake(1)] quiet_frame [OF kept_awake(2)] by simp
next
  case (refused w1 w2 w3)
  then show ?thesis
    using sleeping_moment [OF refused(1-3) assms(2)] by simp
next
  case (asleep w1 w2 w3 failed)
  then show ?thesis
    using sleeping_moment [OF asleep(1-3) assms(2)] markClaim_frame [OF asleep(4)] by simp
qed simp


section \<open>How a sleep ends\<close>

lemma route_put_back:
  assumes "\<And>w. soPatch out w = Patched"
    and "swCopy w (podName pod, clmName claim) = swRoutes w (podName pod, clmName claim)"
  shows "swRoutes (putRouteBack out claim pod port w) (podName pod, clmName claim) =
           Some (routeOf claim port ''active'' []) \<and>
         swClaims (putRouteBack out claim pod port w) = swClaims w"
  using assms by (simp add: putRouteBack_def annotateWarmPodWithState_def stepped_def Let_def)

lemma marked_sleeping:
  "markSleeping pod is = (changed, is') \<Longrightarrow> find (\<lambda>i. instPod i = pod) is' = Some i \<Longrightarrow> instPhase i = ''Sleeping''"
  by (induction "is" arbitrary: changed is') (auto simp: Let_def split: if_splits prod.splits)

lemma markSleeping_unchanged: "markSleeping pod is = (False, is') \<Longrightarrow> is' = is"
  by (induction "is" arbitrary: is') (auto simp: Let_def split: if_splits prod.splits)

lemma recorded_sleeping:
  assumes "markClaimInstanceSleeping out claim pod w = (False, w')"
  shows "\<exists>obj. swClaims w' (clmName claim) = Some obj \<and>
           (\<forall>i. find (\<lambda>i. instPod i = pod) (statusInstances (coClaim obj)) = Some i \<longrightarrow> instPhase i = ''Sleeping'')"
proof -
  obtain latest where latest: "swClaims w (clmName claim) = Some latest"
    using assms by (auto simp: markClaimInstanceSleeping_def split: option.splits)
  obtain changed instances where marked: "markSleeping pod (statusInstances (coClaim latest)) = (changed, instances)"
    by fastforce
  have kept: "statusInstances (coClaim (recomputeReadiness stamp obj)) = statusInstances (coClaim obj)" for stamp and obj :: "'a claimObject"
    using recompute_readied [of obj stamp] by (simp add: readied_def)
  have "statusInstances (coClaim latest) = instances" if "\<not> changed"
    using that marked markSleeping_unchanged by (metis (full_types))
  then show ?thesis
    using assms latest marked marked_sleeping [OF marked] kept
    by (auto simp: markClaimInstanceSleeping_def stepped_def Let_def split: if_splits)
qed

lemma quiet_refusals:
  "engineIsQuiet out pod claim served w = (Some e, w') \<Longrightarrow>
     (\<exists>why. e = EngineNotRead why) \<or> e = EngineNotListed \<or> e = EngineServing"
  by (auto simp: engineIsQuiet_def Let_def split: option.splits if_splits prod.splits)



text \<open>The witnesses of the two claims above: a claim routed on port 8000, an idle engine, and a server and a
  runtime that answer.\<close>

lemma exAsleep_end:
  "fst (putEngineToSleep exSleepOutside exIdleClaim exCandidate 8000 ''a'' exSleepWorld) = None"
  by code_simp



section \<open>The limits a pool's policy writes\<close>

lemma writeTargets_settle:
  assumes "writeTargets out pod targets ms counts w = (counts', w')"
    and "\<And>w n t. soSetKVLimit out w (podName pod) n t = Written"
    and "\<And>m. m \<in> set ms \<Longrightarrow> swSegments w (podName pod, mdlModelName m) = Some (mdlKVCapacityBytes m) \<or>
                              swSegments w (podName pod, mdlModelName m) = targets (mdlModelName m)"
  shows "(\<forall>n. swSegments w (podName pod, n) = targets n \<longrightarrow> swSegments w' (podName pod, n) = targets n) \<and>
         (\<forall>m \<in> set ms. targets (mdlModelName m) \<noteq> None \<longrightarrow>
            swSegments w' (podName pod, mdlModelName m) = targets (mdlModelName m))"
  using assms(1,3)
proof (induction ms arbitrary: counts w)
  case (Cons m ms)
  obtain applied failed where counts: "counts = (applied, failed)"
    by fastforce
  let ?n = "mdlModelName m"
  show ?case
  proof (cases "targets ?n = None \<or> targets ?n = Some (mdlKVCapacityBytes m)")
    case True
    then have rest: "writeTargets out pod targets ms (applied, failed) w = (counts', w')"
      using Cons.prems(1) counts by auto
    have "targets ?n \<noteq> None \<Longrightarrow> swSegments w (podName pod, ?n) = targets ?n"
      using True Cons.prems(2) [of m] by auto
    then show ?thesis
      using Cons.IH [OF rest] Cons.prems(2) by auto
  next
    case False
    then obtain target where target: "targets ?n = Some target" "target \<noteq> mdlKVCapacityBytes m"
      by auto
    define w1 where "w1 = stepped (w\<lparr>swSegments := (swSegments w)((podName pod, ?n) \<mapsto> target)\<rparr>)"
    have rest: "writeTargets out pod targets ms (Suc applied, failed) w1 = (counts', w')"
      using Cons.prems(1) counts target assms(2)
      by (simp add: w1_def Let_def answerTakes_def answerFails_def)
    have segments: "swSegments w1 k = (if k = (podName pod, ?n) then Some target else swSegments w k)" for k
      by (simp add: w1_def stepped_def)
    show ?thesis
      using Cons.IH [OF rest] Cons.prems(2) target(1) by (auto simp: segments)
  qed
qed simp

lemma serving_models:
  assumes "computePoolKVTargets capacity percent (modelsForKVPolicy s acts) = Inr (Some targets)"
  obtains f where "modelsForKVPolicy s acts = map f (filter servingEngine (snapModels s))"
    "\<And>m. pkmName (f m) = mdlModelName m" "\<And>m. pkmKVUsedBytes (f m) = mdlKVUsedBytes m"
proof -
  have "modelsForKVPolicy s acts \<noteq> []"
    using assms by (auto simp: computePoolKVTargets_def split: if_splits)
  then show ?thesis
    by (intro that) (auto simp: modelsForKVPolicy_def Let_def split: if_splits)
qed

lemma policy_settles:
  assumes "polReclaim policy = Some reclaim" "length (snapAccelerators s) = 1" "\<not> claimHoldsAKVLimitOn out pod w"
    and "computePoolKVTargets (rclCapacityBytes reclaim) (rclGuaranteedFloorPercent reclaim) (modelsForKVPolicy s acts) =
           Inr (Some targets)"
    and "\<forall>m \<in> set (snapModels s). swSegments w (podName pod, mdlModelName m) = Some (mdlKVCapacityBytes m)"
    and "\<forall>w n t. soSetKVLimit out w (podName pod) n t = Written"
    and "m \<in> set (snapModels s)" "mdlModelName m \<in> dom targets"
  shows "segmentOn pod (reconcilePoolKVPolicy out policy pod s (Some acts) w) (mdlModelName m) =
           mapGet 0 targets (mdlModelName m)"
proof -
  obtain counts w1 where writes: "writeTargets out pod targets (snapModels s) (0, 0) w = (counts, w1)"
    by fastforce
  have "swSegments w1 (podName pod, mdlModelName m) = targets (mdlModelName m)"
    using writeTargets_settle [OF writes] assms(5-8) by (auto simp: dom_def)
  moreover have "swSegments (reconcilePoolKVPolicy out policy pod s (Some acts) w) = swSegments w1"
    using assms(1-4) writes
    by (cases counts)
       (simp add: reconcilePoolKVPolicy_def applyTargets_def evaluated_def forgetReading_def Let_def)
  ultimately show ?thesis
    by (simp add: segmentOn_def mapGet_def)
qed

text \<open>C6. When a pool's policy has limits to write on a card, the runtime takes them and the reading the
  policy went by was true, the limits in force of the engines serving on the card afterwards add up to
  no more than the capacity the pool is given, and none is below the KV cache its engine was holding.\<close>

theorem pool_policy_divides_card:
  assumes "polReclaim policy = Some reclaim" "length (snapAccelerators s) = 1" "\<not> claimHoldsAKVLimitOn out pod w"
    and "computePoolKVTargets (rclCapacityBytes reclaim) (rclGuaranteedFloorPercent reclaim) (modelsForKVPolicy s acts) =
           Inr (Some targets)"
    and "\<forall>m \<in> set (snapModels s). swSegments w (podName pod, mdlModelName m) = Some (mdlKVCapacityBytes m)"
    and "\<forall>w n t. soSetKVLimit out w (podName pod) n t = Written"
    and "rclCapacityBytes reclaim * 9 < 2 ^ 63" "\<forall>m \<in> set (snapModels s). mdlKVUsedBytes m < 2 ^ 63"
    and "int (length (snapModels s)) < 2 ^ 59"
  shows "sum_list (map (segmentOn pod (reconcilePoolKVPolicy out policy pod s (Some acts) w) \<circ> mdlModelName)
                     (filter servingEngine (snapModels s))) \<le> rclCapacityBytes reclaim \<and>
         (\<forall>m \<in> set (snapModels s). servingEngine m \<longrightarrow>
            mdlKVUsedBytes m \<le> segmentOn pod (reconcilePoolKVPolicy out policy pod s (Some acts) w) (mdlModelName m))"
proof -
  let ?serving = "filter servingEngine (snapModels s)"
  let ?w = "reconcilePoolKVPolicy out policy pod s (Some acts) w"
  obtain f where f: "modelsForKVPolicy s acts = map f ?serving" "\<And>m. pkmName (f m) = mdlModelName m"
    "\<And>m. pkmKVUsedBytes (f m) = mdlKVUsedBytes m"
    using serving_models [OF assms(4)] by blast
  have bounds: "int (length (modelsForKVPolicy s acts)) < 2 ^ 59"
    "\<And>m. m \<in> set (modelsForKVPolicy s acts) \<Longrightarrow> pkmKVUsedBytes m < 2 ^ 63"
    using assms(8,9) by (auto simp: f intro: le_less_trans [OF length_filter_le])
  then have "targetsWithin (rclCapacityBytes reclaim)
      (poolBase (percentOf (rclCapacityBytes reclaim) (rclGuaranteedFloorPercent reclaim))) (map f ?serving) targets"
    using computed_targets [OF assms(4,7) bounds(2,1)] by (simp add: f)
  then have within: "dom targets = mdlModelName ` set ?serving" "targetSum targets (map f ?serving) \<le> rclCapacityBytes reclaim"
    "\<And>m. m \<in> set ?serving \<Longrightarrow> mdlKVUsedBytes m \<le> mapGet 0 targets (mdlModelName m)"
    by (auto simp: targetsWithin_def poolBase_def f image_image)
  have settled: "segmentOn pod ?w (mdlModelName m) = mapGet 0 targets (mdlModelName m)" if "m \<in> set ?serving" for m
    using policy_settles [OF assms(1-6), of m] that within(1) by auto
  then have shares: "map (segmentOn pod ?w \<circ> mdlModelName) ?serving = map (\<lambda>m. mapGet 0 targets (pkmName m)) (map f ?serving)"
    by (simp add: f)
  show ?thesis
    unfolding shares targetSum_def [symmetric] using within(2,3) settled by auto
qed

theorem pool_policy_divides_card_witness:
  "segmentOn exCandidate (reconcilePoolKVPolicy exSleepOutside
     \<lparr>polReclaim = Some \<lparr>rclMode = ''kv-first'', rclCapacityBytes = 64, rclGuaranteedFloorPercent = 10\<rparr>, polLifecycle = None\<rparr>
     exCandidate exPoolSnapshot (Some [''a'' \<mapsto> exPoolBusy]) exSleepWorld) ''a'' \<in> {6..64}"
proof -
  let ?reclaim = "\<lparr>rclMode = ''kv-first'', rclCapacityBytes = 64, rclGuaranteedFloorPercent = 10\<rparr>"
  let ?policy = "\<lparr>polReclaim = Some ?reclaim, polLifecycle = None\<rparr>"
  let ?acts = "[''a'' \<mapsto> exPoolBusy]"
  have "case computePoolKVTargets 64 10 (modelsForKVPolicy exPoolSnapshot ?acts) of Inr (Some _) \<Rightarrow> True | _ \<Rightarrow> False"
    by code_simp
  then obtain targets where
    "computePoolKVTargets (rclCapacityBytes ?reclaim) (rclGuaranteedFloorPercent ?reclaim)
       (modelsForKVPolicy exPoolSnapshot ?acts) = Inr (Some targets)"
    by (auto split: sum.splits option.splits)
  moreover have "length (snapAccelerators exPoolSnapshot) = 1" "\<not> claimHoldsAKVLimitOn exSleepOutside exCandidate exSleepWorld"
    "\<forall>m \<in> set (snapModels exPoolSnapshot). swSegments exSleepWorld (podName exCandidate, mdlModelName m) = Some (mdlKVCapacityBytes m)"
    "\<forall>m \<in> set (snapModels exPoolSnapshot). mdlKVUsedBytes m < 2 ^ 63" "int (length (snapModels exPoolSnapshot)) < 2 ^ 59"
    by code_simp+
  moreover have "\<forall>w n t. soSetKVLimit exSleepOutside w (podName exCandidate) n t = Written"
    by (simp add: exSleepOutside_def)
  moreover have "filter servingEngine (snapModels exPoolSnapshot) = [exServed 7]" "mdlModelName (exServed 7) = ''a''"
    "mdlKVUsedBytes (exServed 7) = 6" "snapModels exPoolSnapshot = [exServed 7]" "servingEngine (exServed 7)"
    by code_simp+
  ultimately show ?thesis
    using pool_policy_divides_card [of ?policy ?reclaim exPoolSnapshot exSleepOutside exCandidate exSleepWorld ?acts targets]
    by simp
qed

end
