(* ===== verification/Preemption.thy ===== *)
theory Preemption
  imports IdleSleep "HOL-Library.Sublist"
begin

text \<open>
  Priority Sleep (\<^verbatim>\<open>src/pkg/controller/modelclaim/preemption.go\<close>): a claim that may preempt, and that no
  card has room for, has engines of claims of lower priority put to sleep, one at a time, on the card
  where that costs least.

  The world of a pass is the one of \<^verbatim>\<open>IdleSleep\<close>, and the cards held for claims are those of
  \<^verbatim>\<open>MakeRoom\<close>. Parameters are the selector of a claim (\<open>selects\<close>), when a claim was last routed
  (\<open>routed\<close>, as \<^const>\<open>routedSince\<close> reads it), whether a pool keeps no wake reserve on a pod
  (\<open>keepsNone\<close>), whether a request to wake an engine waits on a pod (\<open>wakeWaits\<close>) and whether an
  artifact is cached on a pod (\<open>cached\<close>). Identifiers of operations, metrics and the wording of
  messages are left out.
\<close>

section \<open>Victims and plans\<close>

record 'q sleepPreemptionVictim =
  vicClaim :: "'q modelClaim"
  vicModel :: runtimeSnapshotModel
  vicPort :: int
  vicIdleSince :: int
  vicPriority :: int

definition idleEngineOfVictim :: "'q sleepPreemptionVictim \<Rightarrow> 'q idleEngine" where
  "idleEngineOfVictim v = \<lparr>idlClaim = vicClaim v, idlModel = vicModel v, idlPort = vicPort v, idleSince = vicIdleSince v\<rparr>"

record 'q sleepPreemptionPlan =
  ppPod :: "'q corePod"
  ppVictims :: "'q sleepPreemptionVictim list"
  ppEstimated :: "'q sleepPreemptionVictim list"
  ppKnown :: bool
  ppArtifactCached :: bool

definition victimsForComparison :: "'q sleepPreemptionPlan \<Rightarrow> 'q sleepPreemptionVictim list" where
  "victimsForComparison p = (if ppEstimated p \<noteq> [] then ppEstimated p else ppVictims p)"

text \<open>The policy of a claim, from the text of its spec; no claim is \<^const>\<open>None\<close>.\<close>

definition preemptionPolicyOf :: "string option \<Rightarrow> string" where
  "preemptionPolicyOf policy = (case policy of None \<Rightarrow> ''Never'' | Some p \<Rightarrow> if p = [] then ''Never'' else p)"

text \<open>One engine of the loop of \<open>sleepPreemptionVictims\<close>.\<close>

definition victimOf ::
  "'q modelClaim list \<Rightarrow> ('q modelClaim \<Rightarrow> int) \<Rightarrow> poolPolicyManager \<Rightarrow> 'q modelClaim \<Rightarrow> 'q corePod \<Rightarrow> runtimeSnapshotModel \<Rightarrow>
     'q sleepPreemptionVictim option" where
  "victimOf claims routed mgr preemptor pod m =
     (if mdlPhase m \<noteq> ''active'' \<or> \<not> mdlAlive m \<or> \<not> mdlReady m \<or> \<not> mdlRequestMetricsObserved m \<or>
         mdlRequestsRunning m > 0 \<or> mdlRequestsWaiting m > 0 then None
      else case claimForRuntimeSnapshot claims m of
             None \<Rightarrow> None
           | Some claim \<Rightarrow>
               if clmNamespace claim \<noteq> clmNamespace preemptor \<or> clmName claim = clmName preemptor \<or>
                  clmDeletionTimestamp claim \<noteq> None \<or> \<not> isVLLMModel claim \<or> specPriority claim \<ge> specPriority preemptor
               then None
               else case activeClaimInstancePort claim (podName pod) of
                      None \<Rightarrow> None
                    | Some port \<Rightarrow>
                        (case lastActive mgr (poolActivityKey pod m) of
                           None \<Rightarrow> None
                         | Some seen \<Rightarrow>
                             (let since1 = (case mdlLastTransition m of Some t \<Rightarrow> if t > seen then t else seen | None \<Rightarrow> seen);
                                  since = (if routed claim > since1 then routed claim else since1)
                              in Some \<lparr>vicClaim = claim, vicModel = m, vicPort = port, vicIdleSince = since,
                                       vicPriority = specPriority claim\<rparr>)))"

definition victimOrder :: "'q sleepPreemptionVictim \<Rightarrow> int \<times> int \<times> string" where
  "victimOrder v = (vicPriority v, vicIdleSince v, clmName (vicClaim v))"

definition sleepPreemptionVictims ::
  "'q sleepOutside \<Rightarrow> ('q modelClaim \<Rightarrow> int) \<Rightarrow> 'q modelClaim \<Rightarrow> 'q corePod \<Rightarrow> 'q modelClaim list \<Rightarrow> 'q sleepWorld \<Rightarrow>
     'q sleepPreemptionVictim list \<times> 'q sleepWorld" where
  "sleepPreemptionVictims out routed preemptor pod claims w0 =
     (let ((snapshot, err), w) = readPod out pod w0
      in if err \<noteq> None \<or> snapshot = None then ([], w)
         else (sort_key victimOrder
                 (List.map_filter (victimOf claims routed (swManager w) preemptor pod) (snapshot_models snapshot)), w))"

definition preemptionVictimsCanMakeRoom :: "sleepingFootprints \<Rightarrow> podLedger \<Rightarrow> 'q sleepPreemptionVictim list \<Rightarrow> int \<Rightarrow> bool" where
  "preemptionVictimsCanMakeRoom fps l victims seat = sleepsMakeRoom fps l (map idleEngineOfVictim victims) seat"

fun preemptionLoop ::
  "(string \<rightharpoonup> engineOnPod) \<Rightarrow> sleepingFootprints \<Rightarrow> int \<Rightarrow> 'q sleepPreemptionVictim list \<Rightarrow> int \<Rightarrow> int \<Rightarrow> bool \<Rightarrow>
     'q sleepPreemptionPlan \<Rightarrow> 'q sleepPreemptionPlan option" where
  "preemptionLoop charged fps seat [] floors holding uncertain plan = None"
| "preemptionLoop charged fps seat (v # vs) floors holding uncertain plan =
     (case charged (clmName (vicClaim v)) of
        None \<Rightarrow> preemptionLoop charged fps seat vs floors holding uncertain plan
      | Some e \<Rightarrow>
          (let plan1 = plan\<lparr>ppEstimated := ppEstimated plan @ [v]\<rparr>;
               plan2 = (if \<not> uncertain then plan1\<lparr>ppVictims := ppVictims plan1 @ [v]\<rparr> else plan1);
               (seen, known) = seenAsleep (vicClaim v) fps;
               uncertain' = (if \<not> known then True else uncertain);
               a = (if \<not> known then 0 else seen);
               floors' = i64 (floors + i64 (engine_minimumReserveBytes e - a));
               holding' = i64 (holding + i64 (heldBytes e - a))
           in if floors' \<ge> seat \<and> holding' \<ge> seat then Some (plan2\<lparr>ppKnown := \<not> uncertain'\<rparr>)
              else preemptionLoop charged fps seat vs floors' holding' uncertain' plan2))"

definition planSleepPreemptionOnPod ::
  "sleepingFootprints \<Rightarrow> 'q corePod \<Rightarrow> podLedger \<Rightarrow> 'q sleepPreemptionVictim list \<Rightarrow> int \<Rightarrow> 'q sleepPreemptionPlan option" where
  "planSleepPreemptionOnPod fps pod l victims seat =
     preemptionLoop (chargedEngines l) fps seat victims (maximumRoomBytes l) (heldRoomBytes l) False
       \<lparr>ppPod = pod, ppVictims = [], ppEstimated = [], ppKnown = False, ppArtifactCached = False\<rparr>"

section \<open>Comparing plans\<close>

fun priorityFold :: "bool \<Rightarrow> 'q sleepPreemptionVictim list \<Rightarrow> int \<times> int \<Rightarrow> int \<times> int" where
  "priorityFold first [] acc = acc"
| "priorityFold first (v # vs) acc =
     (case acc of (maximum, added) \<Rightarrow>
        priorityFold False vs
          (if first \<or> vicPriority v > maximum then vicPriority v else maximum, i64 (added + vicPriority v)))"

definition sleepPreemptionPriority :: "'q sleepPreemptionVictim list \<Rightarrow> int \<times> int" where
  "sleepPreemptionPriority victims = priorityFold True victims (0, 0)"

fun namesBefore :: "string list \<Rightarrow> string list \<Rightarrow> bool" where
  "namesBefore (x # xs) (y # ys) = (if x \<noteq> y then x < y else namesBefore xs ys)"
| "namesBefore _ _ = False"

text \<open>Both plans have a victim, which a plan that was found always has.\<close>

definition betterSleepPreemptionPlan :: "'q sleepPreemptionPlan \<Rightarrow> 'q sleepPreemptionPlan \<Rightarrow> bool" where
  "betterSleepPreemptionPlan plan than =
     (let planVictims = victimsForComparison plan; thanVictims = victimsForComparison than;
          (planMax, planSum) = sleepPreemptionPriority planVictims;
          (thanMax, thanSum) = sleepPreemptionPriority thanVictims
      in if planMax \<noteq> thanMax then planMax < thanMax
         else if planSum \<noteq> thanSum then planSum < thanSum
         else if ppKnown plan \<noteq> ppKnown than then ppKnown plan
         else if length planVictims \<noteq> length thanVictims then length planVictims < length thanVictims
         else if vicIdleSince (hd planVictims) \<noteq> vicIdleSince (hd thanVictims)
         then vicIdleSince (hd planVictims) < vicIdleSince (hd thanVictims)
         else if ppArtifactCached plan \<noteq> ppArtifactCached than then ppArtifactCached plan
         else if podName (ppPod plan) \<noteq> podName (ppPod than) then podName (ppPod plan) < podName (ppPod than)
         else namesBefore (map (clmName \<circ> vicClaim) planVictims) (map (clmName \<circ> vicClaim) thanVictims))"

fun bestPreemption :: "'q sleepPreemptionPlan option \<Rightarrow> 'q sleepPreemptionPlan list \<Rightarrow> 'q sleepPreemptionPlan option" where
  "bestPreemption best [] = best"
| "bestPreemption best (plan # plans) =
     bestPreemption (case best of
                       None \<Rightarrow> Some plan
                     | Some b \<Rightarrow> if betterSleepPreemptionPlan plan b then Some plan else best) plans"

section \<open>Planning\<close>

datatype preemption_error = BadDeclaration per_gpu_error | BadParallelism flag_error

record 'q preemptionParameters =
  prSelects :: "'q modelClaim \<Rightarrow> 'q corePod \<Rightarrow> bool"
  prRouted :: "'q modelClaim \<Rightarrow> int"
  prKeepsNone :: "'q corePod \<Rightarrow> bool"
  prWakeWaits :: "'q corePod \<Rightarrow> bool"
  prCached :: "string \<Rightarrow> bool"

text \<open>The plan of one candidate pod, if there is one: the body of the loop of \<open>planSleepPreemption\<close>.
  \<open>owned\<close> is the pod that is held for the claim already.\<close>

definition preemptionPlanOf ::
  "'q quantityOps \<Rightarrow> 'q preemptionParameters \<Rightarrow> 'q sleepOutside \<Rightarrow> 'q modelClaim \<Rightarrow> 'q modelClaim list \<Rightarrow>
     (string \<rightharpoonup> podLedger) \<Rightarrow> int \<Rightarrow> string option \<Rightarrow> 'q corePod \<Rightarrow> 'q sleepWorld \<Rightarrow> 'q sleepPreemptionPlan option \<times> 'q sleepWorld" where
  "preemptionPlanOf q par out pm claims ledgers seat owned pod w =
     (case ledgers (podName pod) of
        None \<Rightarrow> (None, w)
      | Some l \<Rightarrow>
          if \<not> prSelects par pm pod \<or> \<not> judgeable l \<or> \<not> podHasGPUs q pod (accelerators l) \<or>
             \<not> fitsTopology q pod l (instanceGPUCount pm) \<or> seat > hbmUsableBytes l then (None, w)
          else if maximumRoomBytes l \<ge> seat \<and> heldRoomBytes l \<ge> seat then (None, w)
          else if \<not> roomCanBeMadeOn (prKeepsNone par pod) (clmName pm) l \<or>
                  (owned \<noteq> Some (podName pod) \<and> prWakeWaits par pod) then (None, w)
          else
            (let (victims, w') = sleepPreemptionVictims out (prRouted par) pm pod claims w
             in if victims = [] \<or> \<not> preemptionVictimsCanMakeRoom (swFootprints w') l victims seat then (None, w')
                else (map_option (\<lambda>plan. plan\<lparr>ppArtifactCached := prCached par (podName pod)\<rparr>)
                        (planSleepPreemptionOnPod (swFootprints w') pod l victims seat), w')))"

fun preemptionPlans ::
  "('q corePod \<Rightarrow> 'q sleepWorld \<Rightarrow> 'q sleepPreemptionPlan option \<times> 'q sleepWorld) \<Rightarrow> 'q corePod list \<Rightarrow> 'q sleepWorld \<Rightarrow>
     'q sleepPreemptionPlan list \<times> 'q sleepWorld" where
  "preemptionPlans planOn [] w = ([], w)"
| "preemptionPlans planOn (pod # pods) w =
     (let (found, w1) = planOn pod w; (plans, w2) = preemptionPlans planOn pods w1
      in (case found of None \<Rightarrow> plans | Some plan \<Rightarrow> plan # plans, w2))"

definition planSleepPreemption ::
  "'q quantityOps \<Rightarrow> 'q preemptionParameters \<Rightarrow> 'q sleepOutside \<Rightarrow> int \<Rightarrow> 'q modelClaim \<Rightarrow> 'q corePod list \<Rightarrow> 'q modelClaim list \<Rightarrow>
     (string \<rightharpoonup> podLedger) \<Rightarrow> cardReservations \<Rightarrow> 'q sleepWorld \<Rightarrow>
     (preemption_error + 'q sleepPreemptionPlan option) \<times> cardReservations \<times> 'q sleepWorld" where
  "planSleepPreemption q par out now pm candidates claims ledgers held w =
     (if clmDeletionTimestamp pm \<noteq> None \<or> statusInstances pm \<noteq> [] \<or> desiredReplicas pm \<le> 0 then (Inr None, held, w)
      else case perGPUBytesOf q (Some pm) of
             Inl e \<Rightarrow> (Inl (BadDeclaration e), held, w)
           | Inr perGPU \<Rightarrow>
               (case modelParallelism pm of
                  Inl e \<Rightarrow> (Inl (BadParallelism e), held, w)
                | Inr _ \<Rightarrow>
                    (let seat = perGPU_minimumReserveBytes perGPU;
                         (card, held') = preemptionHeldFor (clmNamespace pm) (clmName pm) now held;
                         (plans, w') = preemptionPlans
                            (preemptionPlanOf q par out pm claims ledgers seat (map_option snd card)) candidates w
                     in (Inr (bestPreemption None plans), held', w'))))"

section \<open>Carrying a plan out\<close>

text \<open>\<open>later\<close> is the clock when the plan is made.\<close>

definition putPreemptionVictimToSleep ::
  "'q sleepOutside \<Rightarrow> 'q sleepPreemptionVictim \<Rightarrow> 'q corePod \<Rightarrow> 'q modelClaim \<Rightarrow> 'q sleepWorld \<Rightarrow> bool \<times> 'q sleepWorld" where
  "putPreemptionVictimToSleep out victim pod preemptor w0 =
     (let (err, w1) = putEngineToSleep out (vicClaim victim) pod (vicPort victim) (mdlModelName (vicModel victim)) w0
      in if err \<noteq> None
         then (False, w1\<lparr>swEvents := swEvents w1 @ [PreemptionFailed (clmName preemptor) (clmName (vicClaim victim)) (podName pod),
                                                     PreemptionFailed (clmName preemptor) (clmName (vicClaim victim)) (podName pod)]\<rparr>)
         else
           (let (slept, w2) = sleptEngine out pod (vicClaim victim) w1;
                w3 = (case knownFootprint slept of
                        Some f \<Rightarrow> w2\<lparr>swFootprints := noteFootprint (vicClaim victim) f (swFootprints w2)\<rparr>
                      | None \<Rightarrow> w2);
                w4 = w3\<lparr>swEvents := swEvents w3 @
                          [PreemptedBySleep (clmName (vicClaim victim)) (podName pod) (clmName preemptor) (knownFootprint slept)]\<rparr>
            in (True, warnOfAnUnmeasuredSleep (vicClaim victim) (podName pod) slept True w4)))"

definition carryOutPreemption ::
  "'q sleepOutside \<Rightarrow> int \<Rightarrow> 'q modelClaim \<Rightarrow> int \<Rightarrow> 'q sleepPreemptionPlan \<Rightarrow> cardReservations \<Rightarrow> 'q sleepWorld \<Rightarrow>
     'q sleepPreemptionPlan option \<times> cardReservations \<times> 'q sleepWorld" where
  "carryOutPreemption out now pm seat plan held w =
     (if ppVictims plan = [] then (None, release (clmNamespace pm) (clmName pm) held, w)
      else
        (let (ok, held') = holdPreemption (clmNamespace pm, podName (ppPod plan)) (clmName pm) seat now held
         in if \<not> ok then (None, held', w)
            else
              (let (slept, w') = putPreemptionVictimToSleep out (hd (ppVictims plan)) (ppPod plan) pm w
               in if \<not> slept then (None, release (clmNamespace pm) (clmName pm) held', w') else (Some plan, held', w'))))"

definition makeRoomByPrioritySleep ::
  "'q quantityOps \<Rightarrow> 'q preemptionParameters \<Rightarrow> 'q sleepOutside \<Rightarrow> int \<Rightarrow> int \<Rightarrow> 'q modelClaim \<Rightarrow> perGPUBytes \<Rightarrow> 'q corePod list \<Rightarrow>
     'q modelClaim list \<Rightarrow> (string \<rightharpoonup> podLedger) \<Rightarrow> cardReservations \<Rightarrow> 'q sleepWorld \<Rightarrow>
     'q sleepPreemptionPlan option \<times> cardReservations \<times> 'q sleepWorld" where
  "makeRoomByPrioritySleep q par out now later pm perGPU candidates claims ledgers held0 w0 =
     (let ns = clmNamespace pm; name = clmName pm;
          (card, held1) = heldFor ns name now held0;
          eligible = (case card of
                        None \<Rightarrow> candidates
                      | Some key \<Rightarrow> (case find (\<lambda>p. podName p = snd key) candidates of Some p \<Rightarrow> [p] | None \<Rightarrow> []))
      in case planSleepPreemption q par out later pm eligible claims ledgers held1 w0 of
           (Inl _, held2, w1) \<Rightarrow> (None, release ns name held2, w1)
         | (Inr None, held2, w1) \<Rightarrow> (None, release ns name held2, w1)
         | (Inr (Some plan), held2, w1) \<Rightarrow> carryOutPreemption out now pm (perGPU_minimumReserveBytes perGPU) plan held2 w1)"

section \<open>What a plan promises\<close>

text \<open>An engine that may be put to sleep for a claim: another claim's of the namespace, of lower
  priority, serving, and read without a request.\<close>

definition fairVictim :: "'q modelClaim \<Rightarrow> 'q sleepPreemptionVictim \<Rightarrow> bool" where
  "fairVictim pm v \<longleftrightarrow>
     vicPriority v = specPriority (vicClaim v) \<and> specPriority (vicClaim v) < specPriority pm \<and>
     clmNamespace (vicClaim v) = clmNamespace pm \<and> clmName (vicClaim v) \<noteq> clmName pm \<and>
     clmDeletionTimestamp (vicClaim v) = None \<and> mdlPhase (vicModel v) = ''active'' \<and> mdlReady (vicModel v) \<and>
     mdlRequestMetricsObserved (vicModel v) \<and> mdlRequestsRunning (vicModel v) \<le> 0 \<and> mdlRequestsWaiting (vicModel v) \<le> 0"

text \<open>What plans are compared by, most important first: the highest priority put to sleep, the sum of the
  priorities, whether the figures are known, how many engines sleep, how long the first has been idle,
  whether the artifact is cached, the pod, and the claims.\<close>

definition preemptionKey ::
  "'q sleepPreemptionPlan \<Rightarrow> int \<times> int \<times> bool \<times> nat \<times> int \<times> bool \<times> string \<times> string list" where
  "preemptionKey p =
     (let vs = victimsForComparison p
      in (fst (sleepPreemptionPriority vs), snd (sleepPreemptionPriority vs), \<not> ppKnown p, length vs,
          vicIdleSince (hd vs), \<not> ppArtifactCached p, podName (ppPod p), map (clmName \<circ> vicClaim) vs))"

text \<open>The engines to put to sleep are the first of those a plan is judged by, and all of them while no
  footprint is missing.\<close>

definition planSound :: "bool \<Rightarrow> 'q sleepPreemptionPlan \<Rightarrow> bool" where
  "planSound uncertain p \<longleftrightarrow>
     (if uncertain then ppVictims p \<noteq> [] \<and> (\<exists>zs. ppEstimated p = ppVictims p @ zs) else ppVictims p = ppEstimated p)"

definition planFair :: "'q modelClaim \<Rightarrow> 'q sleepPreemptionPlan \<Rightarrow> bool" where
  "planFair pm p \<longleftrightarrow>
     ppVictims p \<noteq> [] \<and> prefix (ppVictims p) (ppEstimated p) \<and> sorted (map vicPriority (ppEstimated p)) \<and>
     (\<forall>v \<in> set (ppEstimated p). fairVictim pm v)"

text \<open>A world in which nothing but the readings changed.\<close>

definition onlyRead :: "'q sleepWorld \<Rightarrow> 'q sleepWorld \<Rightarrow> bool" where
  "onlyRead w w' \<longleftrightarrow>
     swRoutes w' = swRoutes w \<and> swCopy w' = swCopy w \<and> swClaims w' = swClaims w \<and> swManager w' = swManager w \<and>
     swFootprints w' = swFootprints w \<and> swSleeps w' = swSleeps w"

text \<open>A pod whose card is full, an idle engine of priority 0 on it, and a claim of priority 5.\<close>

definition exPreemptor :: "int modelClaim" where
  "exPreemptor = (exClaim ''c'' 50 10 [])\<lparr>specPriority := 5\<rparr>"

definition exParameters :: "int preemptionParameters" where
  "exParameters = \<lparr>prSelects = (\<lambda>_ _. True), prRouted = (\<lambda>_. 0), prKeepsNone = (\<lambda>_. True), prWakeWaits = (\<lambda>_. False), prCached = (\<lambda>_. False)\<rparr>"

definition exPreemptionWorld :: "int sleepWorld" where
  "exPreemptionWorld = exSleepWorld\<lparr>swManager := exManager, swFootprints := exFootprints\<rparr>"

definition exPerGPU :: perGPUBytes where
  "exPerGPU = \<lparr>maximumFootprintBytes = 50, kvFloorBytes = 10\<rparr>"

section \<open>The order of plans\<close>

lemma namesBefore_less: "length xs = length ys \<Longrightarrow> namesBefore xs ys \<longleftrightarrow> xs < ys"
  by (induction xs ys rule: namesBefore.induct) auto

lemma less_prod_if: "((a :: 'a :: linorder), x) < (b, y) \<longleftrightarrow> (if a \<noteq> b then a < b else x < y)"
  by (auto simp: less_prod_simp)

lemma better_iff_key: "betterSleepPreemptionPlan p q \<longleftrightarrow> preemptionKey p < preemptionKey q"
  unfolding betterSleepPreemptionPlan_def preemptionKey_def Let_def case_prod_beta less_prod_if
  by (intro if_cong namesBefore_less) auto

lemma bestPreemption_least:
  "bestPreemption best plans = Some plan \<Longrightarrow>
     (plan \<in> set plans \<or> best = Some plan) \<and>
     (\<forall>p \<in> set plans. preemptionKey plan \<le> preemptionKey p) \<and> (\<forall>b. best = Some b \<longrightarrow> preemptionKey plan \<le> preemptionKey b)"
proof (induction plans arbitrary: best)
  case (Cons p plans)
  let ?b = "case best of None \<Rightarrow> Some p | Some b \<Rightarrow> if betterSleepPreemptionPlan p b then Some p else best"
  obtain b where b: "?b = Some b" "preemptionKey b \<le> preemptionKey p" "b = p \<or> best = Some b"
    "\<And>b'. best = Some b' \<Longrightarrow> preemptionKey b \<le> preemptionKey b'"
  proof (cases best)
    case None
    then show thesis using that [of p] by simp
  next
    case (Some a)
    then show thesis
      using that [of p] that [of a] by (cases "preemptionKey p < preemptionKey a") (simp_all add: better_iff_key not_less)
  qed
  have IH: "plan \<in> set plans \<or> plan = b" "\<forall>p \<in> set plans. preemptionKey plan \<le> preemptionKey p" "preemptionKey plan \<le> preemptionKey b"
    using Cons.IH [of ?b] Cons.prems b(1) by auto
  then show ?case using b(2-4) by (auto intro: order_trans)
qed simp

section \<open>Victims\<close>

lemma victimOf_fair: "victimOf claims routed mgr pm pod m = Some v \<Longrightarrow> fairVictim pm v"
  by (auto simp: victimOf_def fairVictim_def Let_def not_le split: if_splits option.splits)

lemma onlyRead_refl [simp]: "onlyRead w w"
  by (simp add: onlyRead_def)

lemma onlyRead_trans: "onlyRead a b \<Longrightarrow> onlyRead b c \<Longrightarrow> onlyRead a c"
  by (simp add: onlyRead_def)

lemma readPod_frame: "readPod out pod w = (r, w') \<Longrightarrow> onlyRead w w'"
  by (auto simp: readPod_def case_prod_beta Let_def onlyRead_def)

lemma victims_fair:
  assumes "sleepPreemptionVictims out routed pm pod claims w = (vs, w')"
  shows "sorted (map vicPriority vs)" "\<And>v. v \<in> set vs \<Longrightarrow> fairVictim pm v" "onlyRead w w'"
proof -
  obtain snapshot err w1 where r: "readPod out pod w = ((snapshot, err), w1)" by (metis surj_pair)
  note vs = assms [unfolded sleepPreemptionVictims_def r Let_def case_prod_conv]
  show "onlyRead w w'" using vs readPod_frame [OF r] by (simp split: if_splits)
  let ?us = "List.map_filter (victimOf claims routed (swManager w1) pm pod) (snapshot_models snapshot)"
  show "fairVictim pm v" if "v \<in> set vs" for v
    using vs that victimOf_fair by (auto simp: List.map_filter_def split: if_splits)
  have "sorted (map victimOrder (sort_key victimOrder ?us))" by simp
  then have "sorted (map fst (map victimOrder (sort_key victimOrder ?us)))"
    by (rule sorted_map_mono) (auto simp: mono_on_def less_eq_prod_def)
  then show "sorted (map vicPriority vs)"
    using vs by (auto simp: victimOrder_def comp_def split: if_splits)
qed

section \<open>The loop over the victims of a pod\<close>

lemma preemptionLoop_sound:
  "preemptionLoop charged fps seat vs floors holding uncertain plan = Some plan' \<Longrightarrow> planSound uncertain plan \<Longrightarrow>
     ppPod plan' = ppPod plan \<and> ppVictims plan' \<noteq> [] \<and> (\<exists>zs. ppEstimated plan' = ppVictims plan' @ zs) \<and>
     (ppKnown plan' \<longrightarrow> ppVictims plan' = ppEstimated plan') \<and>
     (\<exists>us. ppEstimated plan' = ppEstimated plan @ us \<and> subseq us vs)"
proof (induction vs arbitrary: floors holding uncertain plan)
  case (Cons v vs)
  show ?case
  proof (cases "charged (clmName (vicClaim v))")
    case None
    then show ?thesis using Cons.IH [of floors holding uncertain plan] Cons.prems by auto
  next
    case (Some e)
    obtain seen known where sa: "seenAsleep (vicClaim v) fps = (seen, known)" by fastforce
    let ?p1 = "plan\<lparr>ppEstimated := ppEstimated plan @ [v]\<rparr>"
    let ?p2 = "if \<not> uncertain then ?p1\<lparr>ppVictims := ppVictims ?p1 @ [v]\<rparr> else ?p1"
    let ?u = "if \<not> known then True else uncertain" and ?a = "if \<not> known then 0 else seen"
    let ?f = "i64 (floors + i64 (engine_minimumReserveBytes e - ?a))" and ?h = "i64 (holding + i64 (heldBytes e - ?a))"
    have loop: "(if ?f \<ge> seat \<and> ?h \<ge> seat then Some (?p2\<lparr>ppKnown := \<not> ?u\<rparr>)
        else preemptionLoop charged fps seat vs ?f ?h ?u ?p2) = Some plan'"
      using Cons.prems(1) by (simp only: preemptionLoop.simps Some option.case sa Let_def case_prod_conv)
    have s: "planSound ?u ?p2" "ppPod ?p2 = ppPod plan" "ppEstimated ?p2 = ppEstimated plan @ [v]" "ppVictims ?p2 \<noteq> []"
      "uncertain \<Longrightarrow> ?u" "\<exists>zs. ppEstimated ?p2 = ppVictims ?p2 @ zs" "\<not> uncertain \<Longrightarrow> ppVictims ?p2 = ppEstimated ?p2"
      using Cons.prems(2) by (auto simp: planSound_def)
    show ?thesis
    proof (cases "?f \<ge> seat \<and> ?h \<ge> seat")
      case True
      then have p: "plan' = ?p2\<lparr>ppKnown := \<not> ?u\<rparr>" using loop by simp
      have "ppKnown plan' \<Longrightarrow> \<not> uncertain" unfolding p using s(5) by auto
      then show ?thesis using s p by auto
    next
      case False
      then have "preemptionLoop charged fps seat vs ?f ?h ?u ?p2 = Some plan'" using loop by (simp only: if_False)
      from Cons.IH [OF this s(1)] s(2,3) show ?thesis by auto
    qed
  qed
qed simp

lemma preemptionLoop_never_known:
  "preemptionLoop charged fps seat vs floors holding True plan = Some plan' \<Longrightarrow> \<not> ppKnown plan'"
  by (induction vs arbitrary: floors holding plan) (auto simp: Let_def split: option.splits if_splits prod.splits)

lemma preemptionLoop_known:
  "preemptionLoop charged fps seat vs floors holding False plan = Some plan' \<Longrightarrow> ppKnown plan' \<Longrightarrow>
     \<not> planKnown rp \<Longrightarrow> planSleeps rp = map idleEngineOfVictim (ppVictims plan) \<Longrightarrow>
     \<exists>rp'. planRoomLoop charged fps seat (map idleEngineOfVictim vs) floors holding rp = Some rp' \<and> planKnown rp' \<and>
           planSleeps rp' = map idleEngineOfVictim (ppVictims plan')"
proof (induction vs arbitrary: floors holding plan rp)
  case (Cons v vs)
  have cl [simp]: "idlClaim (idleEngineOfVictim v) = vicClaim v" by (simp add: idleEngineOfVictim_def)
  show ?case
  proof (cases "charged (clmName (vicClaim v))")
    case None
    then show ?thesis using Cons.IH [of floors holding plan rp] Cons.prems by simp
  next
    case (Some e)
    obtain seen known where sa: "seenAsleep (vicClaim v) fps = (seen, known)" by fastforce
    have known: known
    proof (rule ccontr)
      assume "\<not> known"
      then show False using Cons.prems(1,2) by (auto simp: Some sa Let_def split: if_splits dest: preemptionLoop_never_known)
    qed
    let ?p = "plan\<lparr>ppEstimated := ppEstimated plan @ [v], ppVictims := ppVictims plan @ [v]\<rparr>"
    let ?f = "i64 (floors + i64 (engine_minimumReserveBytes e - seen))" and ?h = "i64 (holding + i64 (heldBytes e - seen))"
    let ?rp = "rp\<lparr>planSleeps := planSleeps rp @ [idleEngineOfVictim v]\<rparr>"
    show ?thesis
    proof (cases "?f \<ge> seat \<and> ?h \<ge> seat")
      case True
      then show ?thesis using Cons.prems known by (auto simp: Some sa Let_def)
    next
      case False
      then have "preemptionLoop charged fps seat vs ?f ?h False ?p = Some plan'" using Cons.prems(1) known by (auto simp: Some sa Let_def)
      from Cons.IH [OF this Cons.prems(2), of ?rp] show ?thesis using Cons.prems(3,4) known False by (auto simp: Some sa Let_def)
    qed
  qed
qed simp

section \<open>The plan of a pod\<close>

lemma preemptionPlanOf_cases:
  assumes "preemptionPlanOf q par out pm claims ledgers seat owned pod w = (Some plan, w')"
  obtains l vs plan0 where "ledgers (podName pod) = Some l" "judgeable l" "podHasGPUs q pod (accelerators l)"
    "fitsTopology q pod l (instanceGPUCount pm)" "roomCanBeMadeOn (prKeepsNone par pod) (clmName pm) l"
    "sleepPreemptionVictims out (prRouted par) pm pod claims w = (vs, w')"
    "planSleepPreemptionOnPod (swFootprints w') pod l vs seat = Some plan0"
    "plan = plan0\<lparr>ppArtifactCached := prCached par (podName pod)\<rparr>"
  using assms by (auto simp: preemptionPlanOf_def Let_def split: option.splits if_splits prod.splits)

lemma subseq_members: "subseq xs ys \<Longrightarrow> set xs \<subseteq> set ys"
  by (induction rule: list_emb.induct) auto

lemma subseq_sorted: "subseq xs ys \<Longrightarrow> sorted (ys :: int list) \<Longrightarrow> sorted xs"
  by (induction rule: list_emb.induct) (auto dest: subseq_members)

lemma preemptionPlanOf_fair:
  assumes "preemptionPlanOf q par out pm claims ledgers seat owned pod w = (Some plan, w')"
  shows "planFair pm plan \<and> ppPod plan = pod"
  using assms
proof (cases rule: preemptionPlanOf_cases)
  case (1 l vs plan0)
  have "planSound False \<lparr>ppPod = pod, ppVictims = [], ppEstimated = [], ppKnown = False, ppArtifactCached = False\<rparr>"
    by (simp add: planSound_def)
  from preemptionLoop_sound [OF 1(7) [unfolded planSleepPreemptionOnPod_def] this]
  have p: "ppPod plan0 = pod" "ppVictims plan0 \<noteq> []" "prefix (ppVictims plan0) (ppEstimated plan0)" "subseq (ppEstimated plan0) vs"
    by (auto simp: prefix_def)
  have "sorted (map vicPriority (ppEstimated plan0))"
    by (rule subseq_sorted [OF subseq_map [OF p(4)] victims_fair(1) [OF 1(6)]])
  moreover have "\<forall>v \<in> set (ppEstimated plan0). fairVictim pm v"
    using victims_fair(2) [OF 1(6)] subseq_members [OF p(4)] by blast
  ultimately show ?thesis using p 1(8) by (simp add: planFair_def)
qed

lemma preemptionPlans_members:
  "preemptionPlans planOn pods w = (plans, w') \<Longrightarrow> plan \<in> set plans \<Longrightarrow>
     \<exists>pod \<in> set pods. \<exists>w1 w2. planOn pod w1 = (Some plan, w2)"
proof (induction pods arbitrary: w plans w')
  case (Cons pod pods)
  obtain found w1 where f: "planOn pod w = (found, w1)" by fastforce
  obtain ps w2 where ps: "preemptionPlans planOn pods w1 = (ps, w2)" by fastforce
  then show ?case using Cons.IH [OF ps] Cons.prems f by (fastforce split: option.splits)
qed simp

lemma preemptionPlanOf_frame:
  "preemptionPlanOf q par out pm claims ledgers seat owned pod w = (r, w') \<Longrightarrow> onlyRead w w'"
  by (auto simp: preemptionPlanOf_def Let_def dest: victims_fair(3) split: option.splits if_splits prod.splits)

lemma preemptionPlans_frame:
  assumes "\<And>pod w r w'. planOn pod w = (r, w') \<Longrightarrow> onlyRead w w'"
  shows "preemptionPlans planOn pods w = (plans, w') \<Longrightarrow> onlyRead w w'"
proof (induction pods arbitrary: w plans w')
  case (Cons pod pods)
  obtain found w1 where f: "planOn pod w = (found, w1)" by fastforce
  obtain ps w2 where ps: "preemptionPlans planOn pods w1 = (ps, w2)" by fastforce
  have "onlyRead w w1" "onlyRead w1 w2" using assms [OF f] Cons.IH [OF ps] by simp_all
  then show ?case using Cons.prems f ps onlyRead_trans by auto
qed simp

lemma planSleepPreemption_plan:
  assumes "planSleepPreemption q par out now pm candidates claims ledgers held w = (Inr (Some plan), held', w')"
  obtains perGPU plans where "perGPUBytesOf q (Some pm) = Inr perGPU"
    "preemptionPlans (preemptionPlanOf q par out pm claims ledgers (perGPU_minimumReserveBytes perGPU)
       (map_option snd (fst (preemptionHeldFor (clmNamespace pm) (clmName pm) now held)))) candidates w = (plans, w')"
    "bestPreemption None plans = Some plan"
  using assms by (auto simp: planSleepPreemption_def Let_def split: if_splits sum.splits prod.splits)

lemma planSleepPreemption_frame:
  assumes "planSleepPreemption q par out now pm candidates claims ledgers held w = (r, held', w')"
  shows "onlyRead w w'" and "held' = held \<or> held' = reservations_prune now held"
proof -
  have frame: "onlyRead w w2" if "preemptionPlans (preemptionPlanOf q par out pm claims ledgers seat owned) candidates w = (plans, w2)"
    for seat owned plans w2
    by (rule preemptionPlans_frame [OF _ that]) (rule preemptionPlanOf_frame)
  show "onlyRead w w'" using assms frame
    by (auto simp: planSleepPreemption_def Let_def split: if_splits sum.splits prod.splits)
  show "held' = held \<or> held' = reservations_prune now held"
    using assms by (auto simp: planSleepPreemption_def preemptionHeldFor_def Let_def split: if_splits sum.splits prod.splits)
qed

lemma planSleepPreemption_fair:
  assumes "planSleepPreemption q par out now pm candidates claims ledgers held w = (Inr (Some plan), held', w')"
  shows "planFair pm plan \<and> ppPod plan \<in> set candidates"
  using assms
proof (cases rule: planSleepPreemption_plan)
  case (1 perGPU plans)
  have "plan \<in> set plans" using bestPreemption_least [OF 1(3)] by simp
  from preemptionPlans_members [OF 1(2) this] show ?thesis using preemptionPlanOf_fair by fastforce
qed

section \<open>One victim put to sleep\<close>

lemma asleep_was_asked:
  assumes "putEngineToSleep out claim pod port served w = (None, w')"
    and "swCopy w (podName pod, clmName claim) = swRoutes w (podName pod, clmName claim)"
  shows "length (swSleeps w') = Suc (length (swSleeps w))"
  using assms(1)
proof (cases rule: put_to_sleep_cases)
  case (asleep w1 w2 w3 failed)
  then show ?thesis using sleeping_moment [OF asleep(1-3) assms(2)] markClaim_frame [OF asleep(4)] by simp
qed simp_all

lemma putPreemption_sleeps:
  assumes "putPreemptionVictimToSleep out v pod pm w = (ok, w')"
  obtains err w1 where "putEngineToSleep out (vicClaim v) pod (vicPort v) (mdlModelName (vicModel v)) w = (err, w1)"
    "ok \<longleftrightarrow> err = None" "swSleeps w' = swSleeps w1"
proof -
  obtain err w1 where p: "putEngineToSleep out (vicClaim v) pod (vicPort v) (mdlModelName (vicModel v)) w = (err, w1)" by fastforce
  obtain slept w2 where s: "sleptEngine out pod (vicClaim v) w1 = (slept, w2)" by fastforce
  have "swSleeps w2 = swSleeps w1"
    using s readPod_frame [of out pod w1] by (auto simp: sleptEngine_def onlyRead_def Let_def split: prod.splits)
  then show thesis
    using that [OF p] assms p s
    by (auto simp: putPreemptionVictimToSleep_def warnOfAnUnmeasuredSleep_def Let_def split: if_splits option.splits)
qed

section \<open>Cards held for a claim that preempts\<close>

lemma heldFor_key:
  assumes "fst (heldFor ns claim now held) = Some key"
  obtains r where "(key, r) \<in> set (reservations_prune now held)" "fst key = ns" "resClaim r = claim"
  using assms by (auto simp: heldFor_def Let_def find_Some_iff dest!: nth_mem)

text \<open>A claim that held a card is granted it again, and one that held none holds none when it is refused.\<close>

lemma refused_hold:
  assumes ok: "reservations_ok now held" and "now \<le> later"
    and h: "held2 = reservations_prune now held \<or> held2 = reservations_prune later (reservations_prune now held)"
    and refused: "holdPreemption (ns, pod) claim bytes now held2 = (False, held3)"
    and card: "case fst (heldFor ns claim now held) of None \<Rightarrow> True | Some key \<Rightarrow> pod = snd key"
  shows "fst (heldFor ns claim now held3) = None"
proof -
  have p: "set held2 \<subseteq> set (reservations_prune now held)" "reservations_prune now held2 = held2"
    using h assms(2) by (auto simp: reservations_prune_def intro!: filter_True)
  obtain r where r: "map_of held2 (ns, pod) = Some r" "resClaim r \<noteq> claim" and h3: "held3 = held2"
    using refused p(2) by (auto simp: holdPreemption_def holdWithWakeProtection_def Let_def split: option.splits if_splits)
  have "fst (heldFor ns claim now held) = None"
  proof (rule ccontr)
    assume "fst (heldFor ns claim now held) \<noteq> None"
    then obtain key where k: "fst (heldFor ns claim now held) = Some key" by blast
    obtain r' where r': "(key, r') \<in> set (reservations_prune now held)" "fst key = ns" "resClaim r' = claim"
      by (rule heldFor_key [OF k])
    have "key = (ns, pod)" using card k r'(2) by (cases key) simp
    moreover have "((ns, pod), r) \<in> set (reservations_prune now held)" using map_of_SomeD [OF r(1)] p(1) by blast
    moreover have "distinct (map fst (reservations_prune now held))"
      using ok by (simp add: reservations_ok_def reservations_prune_def distinct_map_filter)
    ultimately show False using r' r(2) by (auto dest: eq_key_imp_eq_value)
  qed
  then have "\<forall>x \<in> set (reservations_prune now held). \<not> (fst (fst x) = ns \<and> resClaim (snd x) = claim)"
    by (auto simp: heldFor_def Let_def find_None_iff) blast
  then show ?thesis using p h3 by (fastforce simp: heldFor_def Let_def find_None_iff)
qed

lemma carryOut_orderly:
  assumes ok: "reservations_ok now held" and fair: "planFair pm p" and copies: "\<And>key. swCopy w key = swRoutes w key"
    and refused: "\<And>held3. holdPreemption (clmNamespace pm, podName (ppPod p)) (clmName pm) seat now held = (False, held3) \<Longrightarrow>
      fst (heldFor (clmNamespace pm) (clmName pm) now held3) = None"
    and c: "carryOutPreemption out now pm seat p held w = (made, held', w')"
  shows "(swSleeps w' = swSleeps w \<or>
          (\<exists>v s. fairVictim pm v \<and> swSleeps w' = swSleeps w @ [s] \<and> smPod s = podName (ppPod p) \<and>
             smModel s = mdlModelName (vicModel v) \<and> smRoute s = Some (routeOf (vicClaim v) 0 ''sleeping'' []))) \<and>
         fst (heldFor (clmNamespace pm) (clmName pm) now held') =
           map_option (\<lambda>plan. (clmNamespace pm, podName (ppPod plan))) made \<and>
         (made = None \<or> length (swSleeps w') = Suc (length (swSleeps w)))"
proof -
  let ?v = "hd (ppVictims p)"
  have ne: "ppVictims p \<noteq> []" and v: "fairVictim pm ?v" using fair by (auto simp: planFair_def prefix_def)
  obtain granted held3 where h: "holdPreemption (clmNamespace pm, podName (ppPod p)) (clmName pm) seat now held = (granted, held3)"
    by fastforce
  show ?thesis
  proof (cases granted)
    case False
    then have "made = None" "held' = held3" "w' = w" using c ne h by (simp_all add: carryOutPreemption_def)
    then show ?thesis using refused h False by simp
  next
    case True
    obtain slept w2 where s: "putPreemptionVictimToSleep out ?v (ppPod p) pm w = (slept, w2)" by fastforce
    have res: "made = (if slept then Some p else None)" "w' = w2"
      "held' = (if slept then held3 else release (clmNamespace pm) (clmName pm) held3)"
      using c ne h s True by (auto simp: carryOutPreemption_def split: if_splits)
    obtain err w1 where put: "putEngineToSleep out (vicClaim ?v) (ppPod p) (vicPort ?v) (mdlModelName (vicModel ?v)) w = (err, w1)"
      "slept \<longleftrightarrow> err = None" "swSleeps w2 = swSleeps w1" by (rule putPreemption_sleeps [OF s])
    have "swSleeps w' = swSleeps w \<or>
        (\<exists>s. swSleeps w' = swSleeps w @ [s] \<and> smPod s = podName (ppPod p) \<and> smModel s = mdlModelName (vicModel ?v) \<and>
           smRoute s = Some (routeOf (vicClaim ?v) 0 ''sleeping'' []))"
      using asked_to_sleep_once [OF put(1) copies] put(3) res(2) by auto
    moreover have "slept \<Longrightarrow> length (swSleeps w') = Suc (length (swSleeps w))"
      using asleep_was_asked [OF _ copies, of out "vicClaim ?v" "ppPod p"] put res(2) by auto
    moreover have "fst (heldFor (clmNamespace pm) (clmName pm) now held3) = Some (clmNamespace pm, podName (ppPod p))"
      using hold_is_found [OF ok, of "(clmNamespace pm, podName (ppPod p))" "clmName pm" seat True held3] h True
      by (simp add: holdPreemption_def)
    ultimately show ?thesis using res v released_is_not_held by auto
  qed
qed

section \<open>Properties\<close>

text \<open>
  C11. A plan of priority Sleep takes only from claims of strictly lower priority: every engine it counts
  on serves a claim of the same namespace other than the preemptor, not being deleted, and was read ready
  and without a running or waiting request. The engines it puts to sleep are the first of those, lowest
  priority first. Among the plans possible on the candidate pods it is the one that costs least: no
  other plan has a lower highest priority, or the same one and a lower sum of priorities, and so on
  through the whole order of comparison.
\<close>

theorem preemption_costs_least:
  assumes "planSleepPreemption q par out now pm candidates claims ledgers held w = (Inr (Some plan), held', w')"
    and "perGPUBytesOf q (Some pm) = Inr perGPU"
  shows "planFair pm plan \<and> ppPod plan \<in> set candidates \<and>
         (\<forall>other \<in> set (fst (preemptionPlans (preemptionPlanOf q par out pm claims ledgers (perGPU_minimumReserveBytes perGPU)
             (map_option snd (fst (preemptionHeldFor (clmNamespace pm) (clmName pm) now held)))) candidates w)).
            preemptionKey plan \<le> preemptionKey other)"
proof -
  have f: "planFair pm plan \<and> ppPod plan \<in> set candidates" by (rule planSleepPreemption_fair [OF assms(1)])
  show ?thesis using assms(1)
  proof (cases rule: planSleepPreemption_plan)
    case (1 perGPU' plans)
    then show ?thesis using f bestPreemption_least [OF 1(3)] assms(2) by simp
  qed
qed

theorem preemption_costs_least_witness:
  "\<exists>plan held' w'. planSleepPreemption intQuantity exParameters exSleepOutside 300 exPreemptor [exCandidate] [exIdleClaim]
       [''p'' \<mapsto> exBusyCard] [] exPreemptionWorld = (Inr (Some plan), held', w') \<and> planFair exPreemptor plan"
proof -
  let ?r = "planSleepPreemption intQuantity exParameters exSleepOutside 300 exPreemptor [exCandidate] [exIdleClaim]
       [''p'' \<mapsto> exBusyCard] [] exPreemptionWorld"
  have "case fst ?r of Inr (Some plan) \<Rightarrow> True | _ \<Rightarrow> False" by code_simp
  then obtain plan where "fst ?r = Inr (Some plan)" by (auto split: sum.splits option.splits)
  then obtain held' w' where r: "?r = (Inr (Some plan), held', w')" by (metis prod.collapse)
  have "perGPUBytesOf intQuantity (Some exPreemptor) = Inr exPerGPU" by code_simp
  from preemption_costs_least [OF r this] r show ?thesis by blast
qed

text \<open>
  A plan of priority Sleep whose figures are known makes the room it promises: when all its victims
  sleep at what they were seen to hold asleep and the account of the card is drawn up again, the gate of
  placement admits the preemptor to the pod.
\<close>

theorem known_preemption_makes_room:
  assumes "preemptionPlanOf q par out pm claims ledgers seat owned pod w = (Some plan, w')" and "ppKnown plan"
    and "ledgers (podName pod) = Some l" and "ledger_sums l" and "card_sane (hbmUsableBytes l) (engines l)"
    and "distinct (map claimName (engines l))" and "footprints_sane (swFootprints w)" and "0 \<le> reservedBytes l"
    and "distinct (map (clmName \<circ> vicClaim) (fst (sleepPreemptionVictims out (prRouted par) pm pod claims w)))"
  shows "judgeCandidate q [podName pod \<mapsto>
             withAsleep (footprintsOf (swFootprints w) (map idleEngineOfVictim (ppVictims plan))) l]
           seat (instanceGPUCount pm) pod = None"
  using assms(1)
proof (cases rule: preemptionPlanOf_cases)
  case (1 l' vs plan0)
  have l: "l' = l" using 1(1) assms(3) by simp
  have fp: "swFootprints w' = swFootprints w" using victims_fair(3) [OF 1(6)] by (simp add: onlyRead_def)
  have known: "ppKnown plan0" and victims: "ppVictims plan = ppVictims plan0" using assms(2) 1(8) by simp_all
  let ?rp = "\<lparr>planPod = pod, planSleeps = [], planKnown = False, planRoomNow = heldRoomBytes l\<rparr>"
  obtain rp where rp: "planRoomLoop (chargedEngines l) (swFootprints w) seat (map idleEngineOfVictim vs)
      (maximumRoomBytes l) (heldRoomBytes l) ?rp = Some rp" "planKnown rp"
    "planSleeps rp = map idleEngineOfVictim (ppVictims plan)"
    using preemptionLoop_known [OF 1(7) [unfolded planSleepPreemptionOnPod_def l fp] known, of ?rp] victims by auto
  have gate: "judgeable l" "podHasGPUs q pod (accelerators l)" "fitsTopology q pod l (instanceGPUCount pm)" "reservedBytes l = 0"
    using 1(2-5) l assms(8) by (auto simp: roomCanBeMadeOn_def)
  have "distinct (map (clmName \<circ> idlClaim) (map idleEngineOfVictim vs))"
    using assms(9) 1(6) by (simp add: comp_def idleEngineOfVictim_def)
  from known_sleeps_admit [OF rp(1) _ _ gate rp(2) assms(4-6) this assms(7)] show ?thesis unfolding rp(3) by simp
qed

theorem known_preemption_makes_room_witness:
  "\<exists>plan w'. preemptionPlanOf intQuantity exParameters exSleepOutside exPreemptor [exIdleClaim] [''p'' \<mapsto> exBusyCard] 60 None
       exCandidate exPreemptionWorld = (Some plan, w') \<and>
     judgeCandidate intQuantity [''p'' \<mapsto> withAsleep (footprintsOf exFootprints (map idleEngineOfVictim (ppVictims plan))) exBusyCard]
       60 1 exCandidate = None"
proof -
  let ?r = "preemptionPlanOf intQuantity exParameters exSleepOutside exPreemptor [exIdleClaim] [''p'' \<mapsto> exBusyCard] 60 None
       exCandidate exPreemptionWorld"
  have "case fst ?r of Some plan \<Rightarrow> ppKnown plan | None \<Rightarrow> False" by code_simp
  then obtain plan where "fst ?r = Some plan" and known: "ppKnown plan" by (auto split: option.splits)
  then obtain w' where r: "?r = (Some plan, w')" by (metis prod.collapse)
  have f: "ledger_sums exBusyCard" "card_sane (hbmUsableBytes exBusyCard) (engines exBusyCard)"
    "distinct (map claimName (engines exBusyCard))" "0 \<le> reservedBytes exBusyCard" "podName exCandidate = ''p''"
    "instanceGPUCount exPreemptor = 1"
    "distinct (map (clmName \<circ> vicClaim) (fst (sleepPreemptionVictims exSleepOutside (prRouted exParameters) exPreemptor exCandidate
       [exIdleClaim] exPreemptionWorld)))"
    by code_simp+
  have fp: "swFootprints exPreemptionWorld = exFootprints" by (simp add: exPreemptionWorld_def)
  have sane: "footprints_sane (swFootprints exPreemptionWorld)"
    by (auto simp: fp footprints_sane_def exFootprints_def ran_def pebi_def split: if_splits)
  have l: "[''p'' \<mapsto> exBusyCard] (podName exCandidate) = Some exBusyCard" by (simp add: f(5))
  from known_preemption_makes_room [OF r known l f(1-3) sane f(4,7)] r show ?thesis unfolding f(5,6) fp by blast
qed

text \<open>
  C40. Making room by priority Sleep asks for at most one engine to be put to sleep in a pass: one a fair
  plan names, on a candidate pod, and only after its route was taken back on the server. When it reports
  success the engine was asked to sleep and the card of the plan is held for the preemptor; in every
  other case - no plan, a card held for another claim, an engine that began to serve, a runtime that
  refused - no card is held for it any more.
\<close>

theorem preemption_holds_then_sleeps:
  assumes "reservation_run now held" and "now \<le> later" and "\<And>key. swCopy w key = swRoutes w key"
    and "makeRoomByPrioritySleep q par out now later pm perGPU candidates claims ledgers held w = (made, held', w')"
  shows "(swSleeps w' = swSleeps w \<or>
          (\<exists>v pod s. fairVictim pm v \<and> pod \<in> set candidates \<and> swSleeps w' = swSleeps w @ [s] \<and> smPod s = podName pod \<and>
             smModel s = mdlModelName (vicModel v) \<and> smRoute s = Some (routeOf (vicClaim v) 0 ''sleeping'' []))) \<and>
         fst (heldFor (clmNamespace pm) (clmName pm) now held') =
           map_option (\<lambda>plan. (clmNamespace pm, podName (ppPod plan))) made \<and>
         (made = None \<or> length (swSleeps w') = Suc (length (swSleeps w)))"
proof -
  let ?ns = "clmNamespace pm" and ?name = "clmName pm"
  let ?card = "fst (heldFor ?ns ?name now held)" and ?held1 = "reservations_prune now held"
  let ?eligible = "case ?card of None \<Rightarrow> candidates
      | Some key \<Rightarrow> (case find (\<lambda>p. podName p = snd key) candidates of Some p \<Rightarrow> [p] | None \<Rightarrow> [])"
  obtain r held2 w1 where plan: "planSleepPreemption q par out later pm ?eligible claims ledgers ?held1 w = (r, held2, w1)"
    by (metis surj_pair)
  have frame: "onlyRead w w1" and h2: "held2 = ?held1 \<or> held2 = reservations_prune later ?held1"
    using planSleepPreemption_frame [OF plan] by simp_all
  have made: "(case r of
           Inr (Some p) \<Rightarrow> carryOutPreemption out now pm (perGPU_minimumReserveBytes perGPU) p held2 w1
         | _ \<Rightarrow> (None, release ?ns ?name held2, w1)) = (made, held', w')"
    using assms(4) plan by (simp add: makeRoomByPrioritySleep_def heldFor_def Let_def split: sum.splits option.splits)
  show ?thesis
  proof (cases "\<exists>p. r = Inr (Some p)")
    case False
    then have "made = None" "held' = release ?ns ?name held2" "w' = w1" using made by (auto split: sum.splits option.splits)
    then show ?thesis using frame released_is_not_held by (simp add: onlyRead_def)
  next
    case True
    then obtain p where p: "r = Inr (Some p)" by blast
    have fair: "planFair pm p" and pod: "ppPod p \<in> set ?eligible" using planSleepPreemption_fair [OF plan [unfolded p]] by simp_all
    have card: "case ?card of None \<Rightarrow> True | Some key \<Rightarrow> podName (ppPod p) = snd key" and in_candidates: "ppPod p \<in> set candidates"
      using pod by (auto simp: find_Some_iff2 split: option.splits)
    have ok: "reservations_ok now held" by (rule reservation_run_ok [OF assms(1)])
    have ok2: "reservations_ok now held2"
      using h2 reservations_ok_filter [OF ok] reservations_ok_filter by (auto simp: reservations_prune_def)
    have c: "carryOutPreemption out now pm (perGPU_minimumReserveBytes perGPU) p held2 w1 = (made, held', w')" using made p by simp
    have copies: "swCopy w1 key = swRoutes w1 key" for key using frame assms(3) by (simp add: onlyRead_def)
    have refused: "fst (heldFor ?ns ?name now held3) = None"
      if "holdPreemption (?ns, podName (ppPod p)) ?name (perGPU_minimumReserveBytes perGPU) now held2 = (False, held3)" for held3
      by (rule refused_hold [OF ok assms(2) h2 that card])
    have "swSleeps w1 = swSleeps w" using frame by (simp add: onlyRead_def)
    then show ?thesis using carryOut_orderly [OF ok2 fair copies refused c] in_candidates by (simp only:) blast
  qed
qed

theorem preemption_holds_then_sleeps_witness:
  "\<exists>plan held' w'. makeRoomByPrioritySleep intQuantity exParameters exSleepOutside 300 300 exPreemptor exPerGPU [exCandidate]
       [exIdleClaim] [''p'' \<mapsto> exBusyCard] [] exPreemptionWorld = (Some plan, held', w') \<and>
     fst (heldFor ''ns'' ''c'' 300 held') = Some (''ns'', podName (ppPod plan)) \<and> length (swSleeps w') = 1"
proof -
  let ?r = "makeRoomByPrioritySleep intQuantity exParameters exSleepOutside 300 300 exPreemptor exPerGPU [exCandidate]
       [exIdleClaim] [''p'' \<mapsto> exBusyCard] [] exPreemptionWorld"
  have "fst ?r \<noteq> None" by code_simp
  then obtain plan held' w' where r: "?r = (Some plan, held', w')" by (metis not_None_eq prod.collapse)
  have c: "swCopy exPreemptionWorld key = swRoutes exPreemptionWorld key" for key
    by (simp add: exPreemptionWorld_def exSleepWorld_def)
  have n: "clmNamespace exPreemptor = ''ns''" "clmName exPreemptor = ''c''" "swSleeps exPreemptionWorld = []" by code_simp+
  have "(300::int) \<le> 300" by simp
  from preemption_holds_then_sleeps [OF reservation_run.start this c r] r n show ?thesis by simp
qed

end
