(* ===== verification/PdLeg.thy ===== *)
theory PdLeg
  imports Aibrix_Prelude
begin

text \<open>
  The prefill and decode legs of one disaggregated request
  (\<open>PDLegState\<close> of \<^verbatim>\<open>src/pkg/types/pd_leg_state.go\<close>), the abort of its decode leg
  (\<^verbatim>\<open>src/pkg/plugins/gateway/algorithms/pd/abort.go\<close>) and what its client is told
  (\<^verbatim>\<open>src/pkg/plugins/gateway/gateway_pd_fail_fast.go\<close>).

  The goroutines that share a leg are interleaved step by step: a step is one atomic load, store or
  compare-and-swap, one close of a channel, one cancellation, or one section under \<open>abortMu\<close>, except
  that \<open>AbortContext\<close>, which reads an atomic flag inside its section, takes two steps and holds the lock
  between them. A channel that is only ever closed is a flag, and closing it again, on which Go panics,
  is counted. A context is a flag that says whether it was cancelled. The HTTP call of an abort goes out
  unless its context is cancelled before it starts. Log lines and metrics are left out.
\<close>

section \<open>State of a leg\<close>

record prefillFailure =
  pfClass :: string
  pfStatusCode :: int
  pfMessage :: string

record pdAbortOverrides =
  ovTimeout :: int
  ovRetryDelay :: int

record pdLegState =
  lgRID :: "string option"
  lgDecodeResponded :: bool
  lgResetAfterHeaders :: bool
  lgPrefillFailure :: "prefillFailure option"
  lgPrefillFailed :: bool
  lgPrefillSucceededNanos :: int
  lgPrefillSucceeded :: bool
  lgLastChunkNanos :: int
  lgDecodeTarget :: "(string \<times> string) option"
  lgPDOverrides :: "pdAbortOverrides option"
  lgAbort :: "bool option"
  lgAbortDone :: bool
  lgPanics :: nat

definition newPDLegState :: pdLegState where
  "newPDLegState =
     \<lparr>lgRID = None, lgDecodeResponded = False, lgResetAfterHeaders = False, lgPrefillFailure = None,
      lgPrefillFailed = False, lgPrefillSucceededNanos = 0, lgPrefillSucceeded = False, lgLastChunkNanos = 0,
      lgDecodeTarget = None, lgPDOverrides = None, lgAbort = None, lgAbortDone = False, lgPanics = 0\<rparr>"

section \<open>Setters and getters\<close>

definition SetRID :: "string \<Rightarrow> pdLegState \<Rightarrow> pdLegState" where
  "SetRID rid l = (if rid = [] then l else l\<lparr>lgRID := Some rid\<rparr>)"

definition RID :: "pdLegState option \<Rightarrow> string" where
  "RID leg = (case leg of None \<Rightarrow> [] | Some l \<Rightarrow> (case lgRID l of Some rid \<Rightarrow> rid | None \<Rightarrow> []))"

definition DecodeResponded :: "pdLegState option \<Rightarrow> bool" where
  "DecodeResponded leg = (case leg of None \<Rightarrow> False | Some l \<Rightarrow> lgDecodeResponded l)"

definition SetResetAfterHeaders :: "bool \<Rightarrow> pdLegState \<Rightarrow> pdLegState" where
  "SetResetAfterHeaders reset l = l\<lparr>lgResetAfterHeaders := reset\<rparr>"

definition ResetAfterHeaders :: "pdLegState option \<Rightarrow> bool" where
  "ResetAfterHeaders leg = (case leg of None \<Rightarrow> False | Some l \<Rightarrow> lgResetAfterHeaders l)"

definition PrefillFailure :: "pdLegState option \<Rightarrow> prefillFailure option" where
  "PrefillFailure leg = (case leg of None \<Rightarrow> None | Some l \<Rightarrow> lgPrefillFailure l)"

definition MarkDecodeChunk :: "int \<Rightarrow> pdLegState \<Rightarrow> pdLegState" where
  "MarkDecodeChunk now l = l\<lparr>lgLastChunkNanos := (if now = 0 then 1 else now)\<rparr>"

definition LastDecodeChunk :: "pdLegState option \<Rightarrow> int option" where
  "LastDecodeChunk leg =
     (case leg of None \<Rightarrow> None | Some l \<Rightarrow> if lgLastChunkNanos l = 0 then None else Some (lgLastChunkNanos l))"

definition PrefillSucceededAt :: "pdLegState option \<Rightarrow> int option" where
  "PrefillSucceededAt leg =
     (case leg of None \<Rightarrow> None
      | Some l \<Rightarrow> if lgPrefillSucceededNanos l = 0 then None else Some (lgPrefillSucceededNanos l))"

definition SetDecodeTarget :: "string \<Rightarrow> string \<Rightarrow> pdLegState \<Rightarrow> pdLegState" where
  "SetDecodeTarget addr pod l = (if addr = [] then l else l\<lparr>lgDecodeTarget := Some (addr, pod)\<rparr>)"

definition DecodeTarget :: "pdLegState option \<Rightarrow> string \<times> string" where
  "DecodeTarget leg =
     (case leg of None \<Rightarrow> ([], []) | Some l \<Rightarrow> (case lgDecodeTarget l of Some t \<Rightarrow> t | None \<Rightarrow> ([], [])))"

definition SetPDOverrides :: "pdAbortOverrides option \<Rightarrow> pdLegState \<Rightarrow> pdLegState" where
  "SetPDOverrides overrides l =
     (case overrides of None \<Rightarrow> l | Some ov \<Rightarrow> l\<lparr>lgPDOverrides := Some ov\<rparr>)"

text \<open>\<open>defaults\<close> are the overrides of the process.\<close>

definition PDOverrides :: "pdAbortOverrides \<Rightarrow> pdLegState option \<Rightarrow> pdAbortOverrides" where
  "PDOverrides defaults leg =
     (case leg of None \<Rightarrow> defaults
      | Some l \<Rightarrow> (case lgPDOverrides l of Some ov \<Rightarrow> ov | None \<Rightarrow> defaults))"

section \<open>Why a prefill failed\<close>

text \<open>What the chain of an error holds: the first of the executor's own errors, if any, whether it wraps a
  deadline or a cancellation, and whether it says that it is a timeout.\<close>

datatype prefillError =
    HTTPError int
  | BodyError
  | SetupError
  | OtherError (wrapsDeadline: bool) (wrapsCancel: bool) (saysTimeout: bool)

definition classifyPrefillFailure :: "prefillError option \<Rightarrow> string \<times> int" where
  "classifyPrefillFailure err =
     (case err of
        None \<Rightarrow> ([], 0)
      | Some (HTTPError code) \<Rightarrow> (''http_status'', code)
      | Some BodyError \<Rightarrow> (''bad_response'', 0)
      | Some SetupError \<Rightarrow> (''request_setup'', 0)
      | Some (OtherError deadline cancelled timeout) \<Rightarrow>
          if deadline then (''timeout'', 0)
          else if cancelled then (''canceled'', 0)
          else if timeout then (''timeout'', 0)
          else (''transport'', 0))"

definition PrefillFailureIsTerminalFor :: "string \<Rightarrow> bool \<Rightarrow> bool" where
  "PrefillFailureIsTerminalFor cls resetAfterHeaders =
     (if cls = ''bad_response'' then resetAfterHeaders else cls \<noteq> [])"

definition PrefillFailureIsTerminal :: "string \<Rightarrow> bool" where
  "PrefillFailureIsTerminal cls = PrefillFailureIsTerminalFor cls False"

definition recordedFailure :: "prefillError \<Rightarrow> string \<Rightarrow> prefillFailure" where
  "recordedFailure err message =
     (let (cls, code) = classifyPrefillFailure (Some err)
      in \<lparr>pfClass = cls, pfStatusCode = code, pfMessage = message\<rparr>)"

section \<open>The goroutines of a leg\<close>

text \<open>Where a goroutine is. \<open>CancelLoad\<close> and \<open>CancelRun\<close> are \<open>cancelAbort\<close>, which runs at the end of
  \<open>MarkDecodeResponded\<close> and at the start of \<open>FinishDecodeAbort\<close>.\<close>

datatype afterCancel = ReturnAnswered | CloseAbortDone

datatype legThread =
    StoreResponded
  | CancelLoad afterCancel
  | CancelRun bool afterCancel
  | OnceCloseAbortDone
  | FailureCAS prefillFailure
  | FailureClose prefillFailure
  | DecideAbort prefillFailure
  | DecideResponded pdAbortOverrides
  | AbortContextCreate pdAbortOverrides
  | AbortContextCheck pdAbortOverrides
  | AttemptAbort nat pdAbortOverrides
  | PostAbort nat pdAbortOverrides
  | RetryWait pdAbortOverrides
  | SucceededCAS int
  | SucceededClose
  | ThreadDone

text \<open>What the goroutines share. \<open>shAnswered\<close> and \<open>shSent\<close> are not in the code: they say whether a call of
  \<open>MarkDecodeResponded\<close> has returned, and for each abort that went out whether one had by then.\<close>

record legShared =
  shLeg :: pdLegState
  shLock :: bool
  shAnswered :: bool
  shSent :: "bool list"

definition closeFailed :: "pdLegState \<Rightarrow> pdLegState" where
  "closeFailed l = (if lgPrefillFailed l then l\<lparr>lgPanics := Suc (lgPanics l)\<rparr> else l\<lparr>lgPrefillFailed := True\<rparr>)"

definition closeSucceeded :: "pdLegState \<Rightarrow> pdLegState" where
  "closeSucceeded l =
     (if lgPrefillSucceeded l then l\<lparr>lgPanics := Suc (lgPanics l)\<rparr> else l\<lparr>lgPrefillSucceeded := True\<rparr>)"

definition onLeg :: "(pdLegState \<Rightarrow> pdLegState) \<Rightarrow> legShared \<Rightarrow> legShared" where
  "onLeg f s = s\<lparr>shLeg := f (shLeg s)\<rparr>"

text \<open>The steps of \<open>SetPrefillFailure\<close> and \<open>MarkPrefillSucceeded\<close>.\<close>

definition failureCAS :: "prefillFailure \<Rightarrow> legShared \<Rightarrow> legThread \<times> legShared" where
  "failureCAS f s =
     (if lgPrefillFailure (shLeg s) \<noteq> None then (DecideAbort f, s)
      else (FailureClose f, onLeg (\<lambda>l. l\<lparr>lgPrefillFailure := Some f\<rparr>) s))"

definition succeededCAS :: "int \<Rightarrow> legShared \<Rightarrow> legThread \<times> legShared" where
  "succeededCAS now s =
     (let at = (if now = 0 then 1 else now)
      in if lgPrefillSucceededNanos (shLeg s) \<noteq> 0 then (ThreadDone, s)
         else (SucceededClose, onLeg (\<lambda>l. l\<lparr>lgPrefillSucceededNanos := at\<rparr>) s))"

text \<open>The steps of \<open>cancelAbort\<close>, and the rest of \<open>FinishDecodeAbort\<close>.\<close>

definition cancelLoad :: "afterCancel \<Rightarrow> legShared \<Rightarrow> (legThread \<times> legShared) option" where
  "cancelLoad after s = (if shLock s then None else Some (CancelRun (lgAbort (shLeg s) \<noteq> None) after, s))"

definition cancelRun :: "bool \<Rightarrow> afterCancel \<Rightarrow> legShared \<Rightarrow> legThread \<times> legShared" where
  "cancelRun loaded after s =
     (let s' = (if loaded then onLeg (\<lambda>l. l\<lparr>lgAbort := Some True\<rparr>) s else s)
      in case after of
           ReturnAnswered \<Rightarrow> (ThreadDone, s'\<lparr>shAnswered := True\<rparr>)
         | CloseAbortDone \<Rightarrow> (OnceCloseAbortDone, s'))"

definition onceCloseAbortDone :: "legShared \<Rightarrow> legThread \<times> legShared" where
  "onceCloseAbortDone s = (ThreadDone, onLeg (\<lambda>l. l\<lparr>lgAbortDone := True\<rparr>) s)"

text \<open>The two steps of \<open>AbortContext\<close>.\<close>

definition abortContextCreate :: "pdAbortOverrides \<Rightarrow> legShared \<Rightarrow> (legThread \<times> legShared) option" where
  "abortContextCreate ov s =
     (if shLock s then None
      else if lgAbort (shLeg s) \<noteq> None then Some (AttemptAbort 1 ov, s)
      else Some (AbortContextCheck ov, (onLeg (\<lambda>l. l\<lparr>lgAbort := Some False\<rparr>) s)\<lparr>shLock := True\<rparr>))"

definition abortContextCheck :: "pdAbortOverrides \<Rightarrow> legShared \<Rightarrow> legThread \<times> legShared" where
  "abortContextCheck ov s =
     (AttemptAbort 1 ov,
      (if lgDecodeResponded (shLeg s) then onLeg (\<lambda>l. l\<lparr>lgAbort := Some True\<rparr>) s else s)\<lparr>shLock := False\<rparr>)"

text \<open>The steps of \<open>OnPrefillLegFailed\<close> after the failure is recorded, and of the goroutine it starts.\<close>

definition decideAbort :: "pdAbortOverrides \<Rightarrow> prefillFailure \<Rightarrow> legShared \<Rightarrow> legThread \<times> legShared" where
  "decideAbort defaults f s =
     (let ov = PDOverrides defaults (Some (shLeg s))
      in if \<not> PrefillFailureIsTerminal (pfClass f) \<or> RID (Some (shLeg s)) = [] \<or> ovTimeout ov \<le> 0 \<or>
            fst (DecodeTarget (Some (shLeg s))) = []
         then (CancelLoad CloseAbortDone, s) else (DecideResponded ov, s))"

definition decideResponded :: "pdAbortOverrides \<Rightarrow> legShared \<Rightarrow> legThread \<times> legShared" where
  "decideResponded ov s =
     (if DecodeResponded (Some (shLeg s)) then (CancelLoad CloseAbortDone, s) else (AbortContextCreate ov, s))"

definition afterAttempt :: "nat \<Rightarrow> pdAbortOverrides \<Rightarrow> legThread" where
  "afterAttempt n ov =
     (if n = 1 \<and> ovRetryDelay ov > 0 then RetryWait ov else CancelLoad CloseAbortDone)"

definition attemptAbort :: "nat \<Rightarrow> pdAbortOverrides \<Rightarrow> legShared \<Rightarrow> legThread \<times> legShared" where
  "attemptAbort n ov s =
     (if DecodeResponded (Some (shLeg s)) then (afterAttempt n ov, s) else (PostAbort n ov, s))"

definition postDecodeAbort :: "nat \<Rightarrow> pdAbortOverrides \<Rightarrow> legShared \<Rightarrow> legThread \<times> legShared" where
  "postDecodeAbort n ov s =
     (afterAttempt n ov,
      if lgAbort (shLeg s) = Some True then s else s\<lparr>shSent := shSent s @ [shAnswered s]\<rparr>)"

definition threadStep :: "pdAbortOverrides \<Rightarrow> legThread \<Rightarrow> legShared \<Rightarrow> (legThread \<times> legShared) option" where
  "threadStep defaults t s =
     (case t of
        StoreResponded \<Rightarrow> Some (CancelLoad ReturnAnswered, onLeg (\<lambda>l. l\<lparr>lgDecodeResponded := True\<rparr>) s)
      | CancelLoad after \<Rightarrow> cancelLoad after s
      | CancelRun loaded after \<Rightarrow> Some (cancelRun loaded after s)
      | OnceCloseAbortDone \<Rightarrow> Some (onceCloseAbortDone s)
      | FailureCAS f \<Rightarrow> Some (failureCAS f s)
      | FailureClose f \<Rightarrow> Some (DecideAbort f, onLeg closeFailed s)
      | DecideAbort f \<Rightarrow> Some (decideAbort defaults f s)
      | DecideResponded ov \<Rightarrow> Some (decideResponded ov s)
      | AbortContextCreate ov \<Rightarrow> abortContextCreate ov s
      | AbortContextCheck ov \<Rightarrow> Some (abortContextCheck ov s)
      | AttemptAbort n ov \<Rightarrow> Some (attemptAbort n ov s)
      | PostAbort n ov \<Rightarrow> Some (postDecodeAbort n ov s)
      | RetryWait ov \<Rightarrow> Some (AttemptAbort 2 ov, s)
      | SucceededCAS now \<Rightarrow> Some (succeededCAS now s)
      | SucceededClose \<Rightarrow> Some (ThreadDone, onLeg closeSucceeded s)
      | ThreadDone \<Rightarrow> None)"

text \<open>The calls a goroutine may make on a leg.\<close>

definition MarkDecodeResponded :: legThread where
  "MarkDecodeResponded = StoreResponded"

definition MarkPrefillSucceeded :: "int \<Rightarrow> legThread" where
  "MarkPrefillSucceeded now = SucceededCAS now"

definition OnPrefillLegFailed :: "prefillError \<Rightarrow> string \<Rightarrow> legThread" where
  "OnPrefillLegFailed err message = FailureCAS (recordedFailure err message)"

text \<open>A leg in use: goroutines start, each makes steps, and the setters that are one store run in between.\<close>

inductive leg_run :: "pdAbortOverrides \<Rightarrow> legShared \<Rightarrow> legThread list \<Rightarrow> bool" for defaults where
  fresh: "leg_run defaults \<lparr>shLeg = newPDLegState, shLock = False, shAnswered = False, shSent = []\<rparr> []"
| responded: "leg_run defaults s ts \<Longrightarrow> leg_run defaults s (ts @ [MarkDecodeResponded])"
| succeeded: "leg_run defaults s ts \<Longrightarrow> leg_run defaults s (ts @ [MarkPrefillSucceeded now])"
| failed: "leg_run defaults s ts \<Longrightarrow> leg_run defaults s (ts @ [OnPrefillLegFailed err message])"
| set_rid: "leg_run defaults s ts \<Longrightarrow> leg_run defaults (onLeg (SetRID rid) s) ts"
| set_target: "leg_run defaults s ts \<Longrightarrow> leg_run defaults (onLeg (SetDecodeTarget addr pod) s) ts"
| set_overrides: "leg_run defaults s ts \<Longrightarrow> leg_run defaults (onLeg (SetPDOverrides ov) s) ts"
| set_reset: "leg_run defaults s ts \<Longrightarrow> leg_run defaults (onLeg (SetResetAfterHeaders reset) s) ts"
| chunk: "leg_run defaults s ts \<Longrightarrow> leg_run defaults (onLeg (MarkDecodeChunk now) s) ts"
| step: "leg_run defaults s ts \<Longrightarrow> i < length ts \<Longrightarrow> threadStep defaults (ts ! i) s = Some (t, s') \<Longrightarrow>
    leg_run defaults s' (ts[i := t])"

text \<open>The goroutines of a leg going on by themselves, and the number of their steps.\<close>

inductive leg_steps ::
  "pdAbortOverrides \<Rightarrow> nat \<Rightarrow> legShared \<times> legThread list \<Rightarrow> legShared \<times> legThread list \<Rightarrow> bool"
  for defaults where
  here: "leg_steps defaults 0 st st"
| go: "leg_steps defaults n st (s, ts) \<Longrightarrow> i < length ts \<Longrightarrow> threadStep defaults (ts ! i) s = Some (t, s') \<Longrightarrow>
    leg_steps defaults (Suc n) st (s', ts[i := t])"

text \<open>One interleaving, given by which goroutine goes next.\<close>

fun legSchedule :: "pdAbortOverrides \<Rightarrow> nat list \<Rightarrow> legShared \<times> legThread list \<Rightarrow> legShared \<times> legThread list" where
  "legSchedule defaults [] st = st"
| "legSchedule defaults (i # is) (s, ts) =
     (if i < length ts
      then case threadStep defaults (ts ! i) s of
             Some (t, s') \<Rightarrow> legSchedule defaults is (s', ts[i := t])
           | None \<Rightarrow> legSchedule defaults is (s, ts)
      else legSchedule defaults is (s, ts))"

definition exOverrides :: pdAbortOverrides where
  "exOverrides = \<lparr>ovTimeout = 3, ovRetryDelay = 2\<rparr>"

definition exLegShared :: legShared where
  "exLegShared = onLeg (SetDecodeTarget ''10.0.0.2:80'' ''decode'') (onLeg (SetRID ''r'')
     \<lparr>shLeg = newPDLegState, shLock = False, shAnswered = False, shSent = []\<rparr>)"

definition exLegThreads :: "legThread list" where
  "exLegThreads = [OnPrefillLegFailed (HTTPError 500) ''boom'', MarkDecodeResponded]"

text \<open>The first abort goes out, then the decode leg answers, and the second abort is left out.\<close>

definition exLegEnd :: "legShared \<times> legThread list" where
  "exLegEnd = legSchedule exOverrides [0, 0, 0, 0, 0, 0, 0, 0, 1, 1, 1, 0, 0, 0, 0, 0] (exLegShared, exLegThreads)"

section \<open>What the client is told\<close>

datatype failFast = KeepServing | ResetStream string | FailStream int

text \<open>\<open>known\<close> says which status codes the proxy can send.\<close>

definition prefillFailureStatusCode :: "(int \<Rightarrow> bool) \<Rightarrow> prefillFailure option \<Rightarrow> int" where
  "prefillFailureStatusCode known failure =
     (case failure of
        None \<Rightarrow> 503
      | Some f \<Rightarrow>
          if pfClass f = ''http_status''
          then if 400 \<le> pfStatusCode f \<and> pfStatusCode f \<le> 599 \<and> known (pfStatusCode f) then pfStatusCode f else 502
          else 503)"

definition handlePrefillFailFast :: "(int \<Rightarrow> bool) \<Rightarrow> pdLegState option \<Rightarrow> bool \<Rightarrow> failFast" where
  "handlePrefillFailFast known leg completed =
     (case PrefillFailure leg of
        None \<Rightarrow> KeepServing
      | Some f \<Rightarrow>
          if \<not> PrefillFailureIsTerminalFor (pfClass f) (ResetAfterHeaders leg) then KeepServing
          else if completed then KeepServing
          else if DecodeResponded leg
          then if ResetAfterHeaders leg then ResetStream (pfClass f) else KeepServing
          else FailStream (prefillFailureStatusCode known (Some f)))"

definition maxPrefillFailureMessage :: nat where
  "maxPrefillFailureMessage = 256"

definition truncatePrefillMessage :: "string \<Rightarrow> string" where
  "truncatePrefillMessage s =
     (if length s \<le> maxPrefillFailureMessage then s else take maxPrefillFailureMessage s @ ''...'')"


section \<open>Cancelling an abort\<close>

text \<open>What holds of the state shared by the goroutines, and of each of them.\<close>

definition sharedOk :: "legShared \<Rightarrow> bool" where
  "sharedOk s \<longleftrightarrow>
     (shAnswered s \<longrightarrow> lgDecodeResponded (shLeg s)) \<and>
     (shAnswered s \<and> lgAbort (shLeg s) = Some False \<longrightarrow> shLock s) \<and> True \<notin> set (shSent s)"

fun threadOk :: "legShared \<Rightarrow> legThread \<Rightarrow> bool" where
  "threadOk s (CancelLoad ReturnAnswered) = lgDecodeResponded (shLeg s)"
| "threadOk s (CancelRun loaded ReturnAnswered) =
     (lgDecodeResponded (shLeg s) \<and> (\<not> loaded \<and> lgAbort (shLeg s) = Some False \<longrightarrow> shLock s))"
| "threadOk s (AbortContextCheck ov) = (lgAbort (shLeg s) \<noteq> None)"
| "threadOk s (AttemptAbort n ov) = (lgAbort (shLeg s) \<noteq> None \<and> \<not> shLock s)"
| "threadOk s (PostAbort n ov) = (lgAbort (shLeg s) \<noteq> None \<and> \<not> shLock s)"
| "threadOk s (RetryWait ov) = (lgAbort (shLeg s) \<noteq> None \<and> \<not> shLock s)"
| "threadOk s _ = True"

text \<open>The setters touch nothing the abort depends on.\<close>

definition sameRace :: "legShared \<Rightarrow> legShared \<Rightarrow> bool" where
  "sameRace s s' \<longleftrightarrow>
     shLock s' = shLock s \<and> shAnswered s' = shAnswered s \<and> shSent s' = shSent s \<and>
     lgDecodeResponded (shLeg s') = lgDecodeResponded (shLeg s) \<and> lgAbort (shLeg s') = lgAbort (shLeg s) \<and>
     lgAbortDone (shLeg s') = lgAbortDone (shLeg s) \<and> lgPanics (shLeg s') = lgPanics (shLeg s) \<and>
     lgPrefillFailure (shLeg s') = lgPrefillFailure (shLeg s) \<and> lgPrefillFailed (shLeg s') = lgPrefillFailed (shLeg s) \<and>
     lgPrefillSucceededNanos (shLeg s') = lgPrefillSucceededNanos (shLeg s) \<and>
     lgPrefillSucceeded (shLeg s') = lgPrefillSucceeded (shLeg s)"

text \<open>How many goroutines are about to close a channel.\<close>

definition closing :: "(legThread \<Rightarrow> bool) \<Rightarrow> legThread list \<Rightarrow> int" where
  "closing p ts = sum_list (map (\<lambda>t. of_bool (p t)) ts)"

definition closesFailed :: "legThread \<Rightarrow> bool" where
  "closesFailed t \<longleftrightarrow> (\<exists>f. t = FailureClose f)"

definition closesSucceeded :: "legThread \<Rightarrow> bool" where
  "closesSucceeded t \<longleftrightarrow> t = SucceededClose"

definition closedOnce :: "legShared \<Rightarrow> legThread list \<Rightarrow> bool" where
  "closedOnce s ts \<longleftrightarrow>
     lgPanics (shLeg s) = 0 \<and>
     of_bool (lgPrefillFailed (shLeg s)) + closing closesFailed ts = of_bool (lgPrefillFailure (shLeg s) \<noteq> None) \<and>
     of_bool (lgPrefillSucceeded (shLeg s)) + closing closesSucceeded ts = of_bool (lgPrefillSucceededNanos (shLeg s) \<noteq> 0)"

text \<open>The steps that matter to the channels; every other leaves them alone.\<close>

definition sameChannels :: "legShared \<Rightarrow> legShared \<Rightarrow> bool" where
  "sameChannels s s' \<longleftrightarrow>
     lgPanics (shLeg s') = lgPanics (shLeg s) \<and>
     lgPrefillFailure (shLeg s') = lgPrefillFailure (shLeg s) \<and> lgPrefillFailed (shLeg s') = lgPrefillFailed (shLeg s) \<and>
     lgPrefillSucceededNanos (shLeg s') = lgPrefillSucceededNanos (shLeg s) \<and>
     lgPrefillSucceeded (shLeg s') = lgPrefillSucceeded (shLeg s)"

text \<open>How many steps a goroutine has left at most.\<close>

fun stepsLeft :: "legThread \<Rightarrow> nat" where
  "stepsLeft StoreResponded = 3"
| "stepsLeft (CancelLoad ReturnAnswered) = 2"
| "stepsLeft (CancelRun loaded ReturnAnswered) = 1"
| "stepsLeft (CancelLoad CloseAbortDone) = 3"
| "stepsLeft (CancelRun loaded CloseAbortDone) = 2"
| "stepsLeft OnceCloseAbortDone = 1"
| "stepsLeft (PostAbort n ov) = (if n = 1 then 7 else 4)"
| "stepsLeft (AttemptAbort n ov) = (if n = 1 then 8 else 5)"
| "stepsLeft (RetryWait ov) = 6"
| "stepsLeft (AbortContextCheck ov) = 9"
| "stepsLeft (AbortContextCreate ov) = 10"
| "stepsLeft (DecideResponded ov) = 11"
| "stepsLeft (DecideAbort f) = 12"
| "stepsLeft (FailureClose f) = 13"
| "stepsLeft (FailureCAS f) = 14"
| "stepsLeft SucceededClose = 1"
| "stepsLeft (SucceededCAS now) = 2"
| "stepsLeft ThreadDone = 0"

fun handlesFailure :: "legThread \<Rightarrow> bool" where
  "handlesFailure (CancelLoad CloseAbortDone) = True"
| "handlesFailure (CancelRun loaded CloseAbortDone) = True"
| "handlesFailure OnceCloseAbortDone = True"
| "handlesFailure (PostAbort n ov) = True"
| "handlesFailure (AttemptAbort n ov) = True"
| "handlesFailure (RetryWait ov) = True"
| "handlesFailure (AbortContextCheck ov) = True"
| "handlesFailure (AbortContextCreate ov) = True"
| "handlesFailure (DecideResponded ov) = True"
| "handlesFailure (DecideAbort f) = True"
| "handlesFailure (FailureClose f) = True"
| "handlesFailure _ = False"

text \<open>Whoever holds the lock is there to release it, and a recorded failure is handled or being handled.\<close>

definition goesOn :: "legShared \<Rightarrow> legThread list \<Rightarrow> bool" where
  "goesOn s ts \<longleftrightarrow>
     (shLock s \<longrightarrow> (\<exists>ov. AbortContextCheck ov \<in> set ts)) \<and>
     (lgPrefillFailure (shLeg s) \<noteq> None \<longrightarrow> lgAbortDone (shLeg s) \<or> (\<exists>t \<in> set ts. handlesFailure t))"

lemmas thread_step_defs =
  threadStep_def cancelLoad_def cancelRun_def onceCloseAbortDone_def failureCAS_def succeededCAS_def
  abortContextCreate_def abortContextCheck_def decideAbort_def decideResponded_def attemptAbort_def
  postDecodeAbort_def afterAttempt_def onLeg_def closeFailed_def closeSucceeded_def Let_def

lemma step_shared:
  assumes "threadStep defaults t s = Some (t', s')" "sharedOk s" "threadOk s t"
  shows "sharedOk s' \<and> threadOk s' t'"
  using assms
  by (cases t) (auto simp: thread_step_defs sharedOk_def DecodeResponded_def
                     split: if_splits afterCancel.splits elim!: threadOk.elims)

lemma step_others:
  assumes "threadStep defaults t s = Some (t', s')" "threadOk s u"
  shows "threadOk s' u"
  using assms
  by (cases t) (auto simp: thread_step_defs split: if_splits afterCancel.splits elim!: threadOk.elims)


lemmas setter_defs = SetRID_def SetDecodeTarget_def SetPDOverrides_def SetResetAfterHeaders_def MarkDecodeChunk_def

lemma setters_same:
  "sameRace s (onLeg (SetRID rid) s)" "sameRace s (onLeg (SetDecodeTarget addr pod) s)"
  "sameRace s (onLeg (SetPDOverrides ov) s)" "sameRace s (onLeg (SetResetAfterHeaders reset) s)"
  "sameRace s (onLeg (MarkDecodeChunk now) s)"
  by (simp_all add: sameRace_def onLeg_def setter_defs split: option.split)

lemma same_ok:
  assumes "sameRace s s'"
  shows "sharedOk s' = sharedOk s" "threadOk s' t = threadOk s t"
proof -
  show "sharedOk s' = sharedOk s"
    using assms by (simp add: sharedOk_def sameRace_def)
  show "threadOk s' t = threadOk s t"
    using assms by (cases "(s, t)" rule: threadOk.cases) (auto simp: sameRace_def)
qed

text \<open>What a run keeps: it is enough that it holds at first, of the goroutines that start, through the
  setters and through every step.\<close>

lemma leg_run_keeps:
  assumes "leg_run defaults s ts"
    and fresh: "P \<lparr>shLeg = newPDLegState, shLock = False, shAnswered = False, shSent = []\<rparr> []"
    and spawn: "\<And>s ts t. P s ts \<Longrightarrow>
      t = StoreResponded \<or> (\<exists>now. t = SucceededCAS now) \<or> (\<exists>f. t = FailureCAS f) \<Longrightarrow> P s (ts @ [t])"
    and same: "\<And>s s' ts. P s ts \<Longrightarrow> sameRace s s' \<Longrightarrow> P s' ts"
    and step: "\<And>s ts i t s'. P s ts \<Longrightarrow> i < length ts \<Longrightarrow> threadStep defaults (ts ! i) s = Some (t, s') \<Longrightarrow> P s' (ts[i := t])"
  shows "P s ts"
  using assms(1)
proof (induction rule: leg_run.induct)
  case (step s ts i t s')
  then show ?case
    using assms(5) by blast
qed (use fresh spawn same setters_same in
      \<open>auto simp: MarkDecodeResponded_def MarkPrefillSucceeded_def OnPrefillLegFailed_def\<close>)

lemma run_ok: "leg_run defaults s ts \<Longrightarrow> sharedOk s \<and> (\<forall>t \<in> set ts. threadOk s t)"
proof (erule leg_run_keeps)
  fix s s' t and ts :: "legThread list" and i
  assume ok: "sharedOk s \<and> (\<forall>t \<in> set ts. threadOk s t)" and i: "i < length ts"
    and go: "threadStep defaults (ts ! i) s = Some (t, s')"
  have "sharedOk s' \<and> threadOk s' t" "\<forall>u \<in> set ts. threadOk s' u"
    using ok i step_shared [OF go] step_others [OF go] by auto
  then show "sharedOk s' \<and> (\<forall>t \<in> set (ts[i := t]). threadOk s' t)"
    by (auto dest: set_update_subset_insert [THEN subsetD])
qed (auto simp: same_ok, auto simp: sharedOk_def)


section \<open>Closing the channels of a leg\<close>

lemma closing_nonneg: "0 \<le> closing p ts"
  unfolding closing_def by (rule sum_list_nonneg) auto

lemma closing_none: "\<forall>t \<in> set ts. \<not> p t \<Longrightarrow> closing p ts = 0"
  unfolding closing_def by (induction ts) auto

lemma closing_Cons: "closing p (t # ts) = of_bool (p t) + closing p ts"
  by (simp add: closing_def)

lemma closing_member: "t \<in> set ts \<Longrightarrow> p t \<Longrightarrow> 1 \<le> closing p ts"
proof (induction ts)
  case (Cons u ts)
  then show ?case
    using closing_nonneg [of p ts] by (auto simp: closing_Cons)
qed simp

lemma closing_append [simp]: "closing p (ts @ [t]) = closing p ts + of_bool (p t)"
  by (simp add: closing_def)

lemma closing_update:
  "i < length ts \<Longrightarrow> closing p (ts[i := t]) = closing p ts - of_bool (p (ts ! i)) + of_bool (p t)"
  unfolding closing_def by (simp add: map_update sum_list_update_int)

lemma step_channels:
  assumes "threadStep defaults t s = Some (t', s')"
    and "\<And>f. t \<noteq> FailureCAS f" "\<And>f. t \<noteq> FailureClose f" "\<And>now. t \<noteq> SucceededCAS now" "t \<noteq> SucceededClose"
  shows "sameChannels s s' \<and> \<not> closesFailed t \<and> \<not> closesFailed t' \<and> \<not> closesSucceeded t \<and> \<not> closesSucceeded t'"
  using assms
  by (cases t) (auto simp: thread_step_defs sameChannels_def closesFailed_def closesSucceeded_def
                     split: if_splits afterCancel.splits)

lemma closed_kept:
  assumes "closedOnce s ts" "i < length ts" "sameChannels s s'"
    and "closesFailed (ts ! i) = closesFailed t" "closesSucceeded (ts ! i) = closesSucceeded t"
  shows "closedOnce s' (ts[i := t])"
  using assms by (simp add: closedOnce_def sameChannels_def closing_update)

lemma failure_closes:
  assumes "closedOnce s ts" "i < length ts"
  shows "ts ! i = FailureCAS f \<Longrightarrow> failureCAS f s = (t, s') \<Longrightarrow> closedOnce s' (ts[i := t])"
    and "ts ! i = FailureClose f \<Longrightarrow> closedOnce (onLeg closeFailed s) (ts[i := DecideAbort f])"
proof -
  show "closedOnce s' (ts[i := t])" if t: "ts ! i = FailureCAS f" "failureCAS f s = (t, s')"
    using assms t by (auto simp: failureCAS_def onLeg_def closedOnce_def closing_update closesFailed_def closesSucceeded_def split: if_splits)
  show "closedOnce (onLeg closeFailed s) (ts[i := DecideAbort f])" if t: "ts ! i = FailureClose f"
  proof -
    have "1 \<le> closing closesFailed ts"
      using nth_mem [OF assms(2)] t by (intro closing_member) (auto simp: closesFailed_def)
    then have "\<not> lgPrefillFailed (shLeg s)"
      using assms(1) by (auto simp: closedOnce_def of_bool_def split: if_splits)
    then show ?thesis
      using assms t by (simp add: onLeg_def closeFailed_def closedOnce_def closing_update closesFailed_def closesSucceeded_def)
  qed
qed

lemma success_closes:
  assumes "closedOnce s ts" "i < length ts"
  shows "ts ! i = SucceededCAS now \<Longrightarrow> succeededCAS now s = (t, s') \<Longrightarrow> closedOnce s' (ts[i := t])"
    and "ts ! i = SucceededClose \<Longrightarrow> closedOnce (onLeg closeSucceeded s) (ts[i := ThreadDone])"
proof -
  show "closedOnce s' (ts[i := t])" if t: "ts ! i = SucceededCAS now" "succeededCAS now s = (t, s')"
    using assms t by (auto simp: succeededCAS_def onLeg_def closedOnce_def closing_update closesFailed_def closesSucceeded_def Let_def split: if_splits)
  show "closedOnce (onLeg closeSucceeded s) (ts[i := ThreadDone])" if t: "ts ! i = SucceededClose"
  proof -
    have "1 \<le> closing closesSucceeded ts"
      using nth_mem [OF assms(2)] t by (intro closing_member) (auto simp: closesSucceeded_def)
    then have "\<not> lgPrefillSucceeded (shLeg s)"
      using assms(1) by (auto simp: closedOnce_def of_bool_def split: if_splits)
    then show ?thesis
      using assms t by (simp add: onLeg_def closeSucceeded_def closedOnce_def closing_update closesFailed_def closesSucceeded_def)
  qed
qed

lemma step_closes:
  assumes "threadStep defaults (ts ! i) s = Some (t, s')" "closedOnce s ts" "i < length ts"
  shows "closedOnce s' (ts[i := t])"
proof (cases "(\<exists>f. ts ! i = FailureCAS f \<or> ts ! i = FailureClose f) \<or> (\<exists>now. ts ! i = SucceededCAS now) \<or> ts ! i = SucceededClose")
  case True
  then show ?thesis
    using assms failure_closes [OF assms(2,3)] success_closes [OF assms(2,3)]
    by (auto simp: threadStep_def)
next
  case False
  then show ?thesis
    using step_channels [OF assms(1)] closed_kept [OF assms(2,3)] by blast
qed

lemma same_closed: "sameRace s s' \<Longrightarrow> closedOnce s' ts = closedOnce s ts"
  by (simp add: sameRace_def closedOnce_def)

lemma run_closed: "leg_run defaults s ts \<Longrightarrow> closedOnce s ts"
  by (erule leg_run_keeps)
     (auto simp: same_closed intro: step_closes,
      auto simp: closedOnce_def newPDLegState_def closesFailed_def closesSucceeded_def, simp_all add: closing_def)

text \<open>C21. However the goroutines of a leg are interleaved, neither of its channels is closed twice, a channel
  is closed only once what it announces can be read back, and it is announced: when none of the
  goroutines has a close left to make, a recorded failure has closed the one and a recorded success the
  other.\<close>

theorem leg_announces_once:
  assumes "leg_run defaults s ts"
  shows "lgPanics (shLeg s) = 0 \<and>
         (lgPrefillFailed (shLeg s) \<longrightarrow> lgPrefillFailure (shLeg s) \<noteq> None) \<and>
         (lgPrefillSucceeded (shLeg s) \<longrightarrow> lgPrefillSucceededNanos (shLeg s) \<noteq> 0) \<and>
         ((\<forall>f. FailureClose f \<notin> set ts) \<longrightarrow> lgPrefillFailed (shLeg s) = (lgPrefillFailure (shLeg s) \<noteq> None)) \<and>
         (SucceededClose \<notin> set ts \<longrightarrow> lgPrefillSucceeded (shLeg s) = (lgPrefillSucceededNanos (shLeg s) \<noteq> 0))"
proof -
  have "(\<forall>f. FailureClose f \<notin> set ts) \<Longrightarrow> closing closesFailed ts = 0"
    "SucceededClose \<notin> set ts \<Longrightarrow> closing closesSucceeded ts = 0"
    by (rule closing_none, auto simp: closesFailed_def closesSucceeded_def)+
  then show ?thesis
    using run_closed [OF assms] closing_nonneg [of closesFailed ts] closing_nonneg [of closesSucceeded ts]
    by (cases "lgPrefillFailure (shLeg s) = None"; cases "lgPrefillSucceededNanos (shLeg s) = 0")
       (auto simp: closedOnce_def of_bool_def split: if_splits)
qed


section \<open>The goroutines of a leg come to an end\<close>

lemma step_counts: "threadStep defaults t s = Some (t', s') \<Longrightarrow> stepsLeft t' < stepsLeft t"
  by (cases t) (auto simp: thread_step_defs split: if_splits afterCancel.splits, (case_tac x2; simp)+)

lemma step_lock:
  "threadStep defaults t s = Some (t', s') \<Longrightarrow>
     (\<exists>ov. t' = AbortContextCheck ov) \<or> \<not> shLock s' \<or> (shLock s \<and> (\<forall>ov. t \<noteq> AbortContextCheck ov))"
  by (cases t) (auto simp: thread_step_defs split: if_splits afterCancel.splits)

lemma handles_cancel [simp]:
  "handlesFailure (CancelLoad after) = (after = CloseAbortDone)"
  "handlesFailure (CancelRun loaded after) = (after = CloseAbortDone)"
  by (cases after; simp)+

lemma step_failure:
  "threadStep defaults t s = Some (t', s') \<Longrightarrow>
     (handlesFailure t \<longrightarrow> handlesFailure t' \<or> lgAbortDone (shLeg s')) \<and>
     (lgAbortDone (shLeg s) \<longrightarrow> lgAbortDone (shLeg s')) \<and>
     (lgPrefillFailure (shLeg s') \<noteq> None \<longrightarrow> lgPrefillFailure (shLeg s) \<noteq> None \<or> handlesFailure t')"
  by (cases t) (auto simp: thread_step_defs split: if_splits afterCancel.splits)

lemma kept_or_replaced:
  "i < length ts \<Longrightarrow> u \<in> set ts \<Longrightarrow> u = ts ! i \<or> u \<in> set (ts[i := t])"
  by (metis in_set_conv_nth length_list_update nth_list_update_neq)

lemma step_goes_on:
  assumes "goesOn s ts" "i < length ts" "threadStep defaults (ts ! i) s = Some (t, s')"
  shows "goesOn s' (ts[i := t])"
proof -
  have new: "t \<in> set (ts[i := t])"
    using assms(2) by (rule set_update_memI)
  have "\<exists>ov. AbortContextCheck ov \<in> set (ts[i := t])" if "shLock s'"
    using that step_lock [OF assms(3)] assms(1) new kept_or_replaced [OF assms(2)]
    unfolding goesOn_def by metis
  moreover have "lgAbortDone (shLeg s') \<or> (\<exists>u \<in> set (ts[i := t]). handlesFailure u)"
    if "lgPrefillFailure (shLeg s') \<noteq> None"
    using that step_failure [OF assms(3)] assms(1) new kept_or_replaced [OF assms(2)]
    unfolding goesOn_def by metis
  ultimately show ?thesis
    by (simp add: goesOn_def)
qed

lemma run_goes_on: "leg_run defaults s ts \<Longrightarrow> goesOn s ts"
  by (erule leg_run_keeps)
     (auto intro: step_goes_on, auto simp: goesOn_def sameRace_def newPDLegState_def)

lemma blocked_thread:
  "threadStep defaults t s = None \<Longrightarrow> t = ThreadDone \<or> (shLock s \<and> (\<forall>ov. t \<noteq> AbortContextCheck ov))"
  by (cases t) (auto simp: thread_step_defs split: if_splits)

text \<open>A state with no step left.\<close>

lemma nothing_left:
  assumes "goesOn s ts" "\<forall>i < length ts. threadStep defaults (ts ! i) s = None"
  shows "(\<forall>t \<in> set ts. t = ThreadDone) \<and> (lgPrefillFailure (shLeg s) \<noteq> None \<longrightarrow> lgAbortDone (shLeg s))"
proof -
  have blocked: "threadStep defaults t s = None" if "t \<in> set ts" for t
    using that assms(2) by (metis in_set_conv_nth)
  then have "\<not> shLock s"
    using assms(1) blocked_thread unfolding goesOn_def by blast
  then have "\<forall>t \<in> set ts. t = ThreadDone"
    using blocked blocked_thread by blast
  then show ?thesis
    using assms(1) by (auto simp: goesOn_def)
qed

lemma steps_bounded:
  assumes "leg_steps defaults n (s, ts) (s', ts')"
  shows "n + sum_list (map stepsLeft ts') \<le> sum_list (map stepsLeft ts)"
  using assms
proof (induction n "(s, ts)" "(s', ts')" arbitrary: s' ts' rule: leg_steps.induct)
  case (go n s1 ts1 i t s2)
  have "sum_list (map stepsLeft (ts1[i := t])) + stepsLeft (ts1 ! i) = sum_list (map stepsLeft ts1) + stepsLeft t"
    using go.hyps(3) elem_le_sum_list [of i "map stepsLeft ts1"] by (simp add: map_update sum_list_update)
  then show ?case
    using go.hyps(2) step_counts [OF go.hyps(4)] by simp
qed simp

lemma steps_run:
  "leg_steps defaults n (s, ts) (s', ts') \<Longrightarrow> leg_run defaults s ts \<Longrightarrow> leg_run defaults s' ts'"
  by (induction n "(s, ts)" "(s', ts')" arbitrary: s' ts' rule: leg_steps.induct) (auto intro: leg_run.step)

lemma stepsLeft_bound: "stepsLeft t \<le> 14"
  by (cases t rule: stepsLeft.cases) auto

text \<open>C20. The goroutines of a leg come to an end however they are interleaved: from any point of a run on they
  make at most 14 steps each, they are never stuck before they are all done, and by then a recorded
  failure of the prefill has both woken the stream and ended the abort of the decode leg.\<close>

theorem leg_comes_to_rest:
  assumes "leg_run defaults s ts" "leg_steps defaults n (s, ts) (s', ts')"
  shows "n \<le> 14 * length ts \<and>
         ((\<forall>i < length ts'. threadStep defaults (ts' ! i) s' = None) \<longrightarrow>
            (\<forall>t \<in> set ts'. t = ThreadDone) \<and>
            (lgPrefillFailure (shLeg s') \<noteq> None \<longrightarrow> lgPrefillFailed (shLeg s') \<and> lgAbortDone (shLeg s')))"
proof -
  have run: "leg_run defaults s' ts'"
    using assms by (blast intro: steps_run)
  have "sum_list (map stepsLeft ts) \<le> 14 * length ts"
    using stepsLeft_bound by (induction ts) (auto simp: add_mono)
  then have "n \<le> 14 * length ts"
    using steps_bounded [OF assms(2)] by simp
  moreover have "lgPrefillFailed (shLeg s')" if "\<forall>t \<in> set ts'. t = ThreadDone" "lgPrefillFailure (shLeg s') \<noteq> None"
    using that run_closed [OF run] closing_none [of ts' closesFailed]
    by (auto simp: closedOnce_def closesFailed_def of_bool_def split: if_splits)
  ultimately show ?thesis
    using nothing_left [OF run_goes_on [OF run]] by blast
qed


section \<open>A race\<close>

lemma schedule_run:
  "leg_run defaults (fst st) (snd st) \<Longrightarrow>
     leg_run defaults (fst (legSchedule defaults is st)) (snd (legSchedule defaults is st))"
proof (induction "is" arbitrary: st)
  case (Cons i "is")
  obtain s ts where st: "st = (s, ts)"
    by fastforce
  show ?case
  proof (cases "i < length ts \<and> threadStep defaults (ts ! i) s \<noteq> None")
    case True
    then obtain t s' where go: "i < length ts" "threadStep defaults (ts ! i) s = Some (t, s')"
      by auto
    then have "leg_run defaults s' (ts[i := t])"
      using Cons.prems st by (auto intro: leg_run.step)
    then show ?thesis
      using Cons.IH [of "(s', ts[i := t])"] go st by simp
  next
    case False
    then show ?thesis
      using Cons st by (auto split: option.splits)
  qed
qed simp

lemma exLeg_run: "leg_run exOverrides (fst exLegEnd) (snd exLegEnd)"
proof -
  have "leg_run exOverrides exLegShared ([] @ [OnPrefillLegFailed (HTTPError 500) ''boom''] @ [MarkDecodeResponded])"
    unfolding exLegShared_def append_assoc [symmetric]
    by (intro leg_run.responded leg_run.failed leg_run.set_target leg_run.set_rid leg_run.fresh)
  then show ?thesis
    unfolding exLegEnd_def exLegThreads_def by (intro schedule_run) simp
qed

lemma exLeg_end:
  "shSent (fst exLegEnd) = [False]" "shAnswered (fst exLegEnd)" "snd exLegEnd = [ThreadDone, ThreadDone]"
  "lgPrefillFailure (shLeg (fst exLegEnd)) \<noteq> None"
  by code_simp+


theorem leg_announces_once_witness:
  "lgPanics (shLeg (fst exLegEnd)) = 0 \<and> lgPrefillFailed (shLeg (fst exLegEnd)) \<and> \<not> lgPrefillSucceeded (shLeg (fst exLegEnd))"
proof -
  have "lgPrefillSucceededNanos (shLeg (fst exLegEnd)) = 0"
    by code_simp
  then show ?thesis
    using leg_announces_once [OF exLeg_run] exLeg_end(3,4) by auto
qed

theorem leg_comes_to_rest_witness:
  "lgPrefillFailed (shLeg (fst exLegEnd)) \<and> lgAbortDone (shLeg (fst exLegEnd))"
proof -
  have "\<forall>i < length (snd exLegEnd). threadStep exOverrides (snd exLegEnd ! i) (fst exLegEnd) = None"
    by (simp add: exLeg_end(3) threadStep_def less_Suc_eq)
  then show ?thesis
    using leg_comes_to_rest [OF exLeg_run leg_steps.here] exLeg_end(4) by blast
qed

end
