(* ===== verification/LRUStore.thy ===== *)
theory LRUStore
  imports Aibrix_Prelude "HOL-Library.AList"
begin

text \<open>
  The bounded store of the gateway's caches (\<^verbatim>\<open>src/pkg/utils/lrustore/lru_store.go\<close>): a table of
  entries that are also the nodes of a doubly linked list between two sentinels, the most recently
  put entry first.

  Entries are mutated through pointers from the table and from their neighbours, so the heap is
  explicit: an entry is an address, and \<open>lruHeap\<close> holds its fields. A method runs under its lock.
  The order in which Go ranges over the table is the parameter \<open>order\<close> of \<open>evict\<close>.

  \<open>recency_store\<close> is the contract: a store behaves as a list of entries in order of recency. What
  its clients rely on is proved from the contract, and the store of the code is an instance.
\<close>

section \<open>The store of the code\<close>

type_synonym addr = nat

record ('k, 'v) lruHeap =
  entPrev :: "addr \<Rightarrow> addr option"
  entNext :: "addr \<Rightarrow> addr option"
  entKey :: "addr \<Rightarrow> 'k"
  entValue :: "addr \<Rightarrow> 'v"
  entTime :: "addr \<Rightarrow> int"

record ('k, 'v) lruStore =
  heap :: "('k, 'v) lruHeap"
  freeTable :: "('k \<times> addr) list"
  nextAddr :: addr
  capOf :: int
  ttlOf :: int

text \<open>The sentinels of the list.\<close>

abbreviation headAddr :: addr where
  "headAddr \<equiv> 0"

abbreviation tailAddr :: addr where
  "tailAddr \<equiv> 1"

definition NewLRUStore :: "'k \<Rightarrow> 'v \<Rightarrow> int \<Rightarrow> int \<Rightarrow> ('k, 'v) lruStore" where
  "NewLRUStore k0 v0 cap ttl =
     \<lparr>heap = \<lparr>entPrev = (\<lambda>_. None)(tailAddr := Some headAddr), entNext = (\<lambda>_. None)(headAddr := Some tailAddr),
              entKey = (\<lambda>_. k0), entValue = (\<lambda>_. v0), entTime = (\<lambda>_. 0)\<rparr>,
      freeTable = [], nextAddr = 2, capOf = cap, ttlOf = ttl\<rparr>"

definition setNext :: "addr option \<Rightarrow> addr option \<Rightarrow> ('k, 'v) lruHeap \<Rightarrow> ('k, 'v) lruHeap" where
  "setNext p v h = (case p of None \<Rightarrow> h | Some a \<Rightarrow> h\<lparr>entNext := (entNext h)(a := v)\<rparr>)"

definition setPrev :: "addr option \<Rightarrow> addr option \<Rightarrow> ('k, 'v) lruHeap \<Rightarrow> ('k, 'v) lruHeap" where
  "setPrev p v h = (case p of None \<Rightarrow> h | Some a \<Rightarrow> h\<lparr>entPrev := (entPrev h)(a := v)\<rparr>)"

definition addToHead :: "addr \<Rightarrow> ('k, 'v) lruHeap \<Rightarrow> ('k, 'v) lruHeap" where
  "addToHead e h =
     (let h1 = setPrev (Some e) (Some headAddr) h;
          h2 = setNext (Some e) (entNext h1 headAddr) h1;
          h3 = setPrev (entNext h2 headAddr) (Some e) h2
      in setNext (Some headAddr) (Some e) h3)"

definition removeEntry :: "addr \<Rightarrow> ('k, 'v) lruHeap \<Rightarrow> ('k, 'v) lruHeap" where
  "removeEntry e h =
     (let h1 = (if entPrev h e \<noteq> None then setNext (entPrev h e) (entNext h e) h else h);
          h2 = (if entNext h1 e \<noteq> None then setPrev (entNext h1 e) (entPrev h1 e) h1 else h1);
          h3 = setPrev (Some e) None h2
      in setNext (Some e) None h3)"

definition moveToHead :: "addr \<Rightarrow> ('k, 'v) lruHeap \<Rightarrow> ('k, 'v) lruHeap" where
  "moveToHead e h = addToHead e (removeEntry e h)"

definition removeTail :: "('k, 'v) lruHeap \<Rightarrow> addr option \<times> ('k, 'v) lruHeap" where
  "removeTail h =
     (if entPrev h tailAddr = Some headAddr then (None, h)
      else case entPrev h tailAddr of
             None \<Rightarrow> (None, h)
           | Some e \<Rightarrow> (Some e, removeEntry e h))"

definition Put :: "'k \<Rightarrow> 'v \<Rightarrow> int \<Rightarrow> ('k, 'v) lruStore \<Rightarrow> bool \<times> ('k, 'v) lruStore" where
  "Put key v now s =
     (case map_of (freeTable s) key of
        Some e \<Rightarrow>
          (let h1 = (heap s)\<lparr>entTime := (entTime (heap s))(e := now), entValue := (entValue (heap s))(e := v)\<rparr>
           in (False, s\<lparr>heap := moveToHead e h1\<rparr>))
      | None \<Rightarrow>
          (let e = nextAddr s;
               h1 = (heap s)\<lparr>entKey := (entKey (heap s))(e := key), entValue := (entValue (heap s))(e := v),
                             entTime := (entTime (heap s))(e := now)\<rparr>;
               s1 = s\<lparr>heap := addToHead e h1, freeTable := AList.update key e (freeTable s), nextAddr := e + 1\<rparr>
           in if int (length (freeTable s1)) > capOf s1
              then (case removeTail (heap s1) of
                      (None, h2) \<Rightarrow> (False, s1\<lparr>heap := h2\<rparr>)
                    | (Some r, h2) \<Rightarrow> (True, s1\<lparr>heap := h2, freeTable := AList.delete (entKey h2 r) (freeTable s1)\<rparr>))
              else (False, s1)))"

definition Get :: "'k \<Rightarrow> ('k, 'v) lruStore \<Rightarrow> 'v option" where
  "Get key s = (case map_of (freeTable s) key of Some e \<Rightarrow> Some (entValue (heap s) e) | None \<Rightarrow> None)"

definition lruLen :: "('k, 'v) lruStore \<Rightarrow> int" where
  "lruLen s = int (length (freeTable s))"

definition expired :: "int \<Rightarrow> ('k, 'v) lruStore \<Rightarrow> addr \<Rightarrow> bool" where
  "expired now s e \<longleftrightarrow> now - entTime (heap s) e > ttlOf s"

fun evictKeys :: "int \<Rightarrow> 'k list \<Rightarrow> ('k, 'v) lruStore \<Rightarrow> ('k, 'v) lruStore" where
  "evictKeys now [] s = s"
| "evictKeys now (k # ks) s =
     evictKeys now ks
       (case map_of (freeTable s) k of
          Some e \<Rightarrow> if expired now s e
                    then s\<lparr>heap := removeEntry e (heap s), freeTable := AList.delete k (freeTable s)\<rparr> else s
        | None \<Rightarrow> s)"

definition evict :: "int \<Rightarrow> 'k list \<Rightarrow> ('k, 'v) lruStore \<Rightarrow> ('k, 'v) lruStore" where
  "evict now order s =
     evictKeys now
       (filter (\<lambda>k. case map_of (freeTable s) k of Some e \<Rightarrow> expired now s e | None \<Rightarrow> False) order) s"

text \<open>Range over the entries in the order the table gives them, until the callback asks to stop.\<close>

fun rangeEntries :: "('k \<Rightarrow> 'v \<Rightarrow> 'a \<Rightarrow> bool \<times> 'a) \<Rightarrow> ('k, 'v) lruHeap \<Rightarrow> ('k \<times> addr) list \<Rightarrow> 'a \<Rightarrow> 'a" where
  "rangeEntries f h [] a = a"
| "rangeEntries f h ((k, e) # es) a = (let (goOn, a') = f k (entValue h e) a in if goOn then rangeEntries f h es a' else a')"

definition Range :: "('k \<Rightarrow> 'v \<Rightarrow> 'a \<Rightarrow> bool \<times> 'a) \<Rightarrow> ('k, 'v) lruStore \<Rightarrow> 'a \<Rightarrow> 'a" where
  "Range f s a = rangeEntries f (heap s) (freeTable s) a"

section \<open>The abstract store\<close>

text \<open>Entries in order of recency, with their key, value and time.\<close>

type_synonym ('k, 'v) recency = "('k \<times> 'v \<times> int) list"

definition recencyPut :: "int \<Rightarrow> 'k \<Rightarrow> 'v \<Rightarrow> int \<Rightarrow> ('k, 'v) recency \<Rightarrow> bool \<times> ('k, 'v) recency" where
  "recencyPut cap k v now xs =
     (let xs' = (k, v, now) # filter (\<lambda>x. fst x \<noteq> k) xs
      in if k \<notin> fst ` set xs \<and> int (length xs') > cap then (True, butlast xs') else (False, xs'))"

definition recencyGet :: "'k \<Rightarrow> ('k, 'v) recency \<Rightarrow> 'v option" where
  "recencyGet k xs = map_option fst (map_of xs k)"

definition recencyEvict :: "int \<Rightarrow> int \<Rightarrow> ('k, 'v) recency \<Rightarrow> ('k, 'v) recency" where
  "recencyEvict now ttl xs = filter (\<lambda>(k, v, t). \<not> now - t > ttl) xs"

text \<open>The keys of \<open>K\<close> are the most recent ones.\<close>

definition recentKeys :: "('k, 'v) recency \<Rightarrow> 'k set \<Rightarrow> bool" where
  "recentKeys xs K \<longleftrightarrow> (\<exists>A B. xs = A @ B \<and> fst ` set A = K)"

text \<open>A sequence of puts.\<close>

definition puts :: "('k \<Rightarrow> 'v \<Rightarrow> int \<Rightarrow> 's \<Rightarrow> bool \<times> 's) \<Rightarrow> ('k \<times> 'v \<times> int) list \<Rightarrow> 's \<Rightarrow> 's" where
  "puts put ps s = fold (\<lambda>(k, v, t) s. snd (put k v t s)) ps s"

section \<open>Relating the two\<close>

definition link :: "('k, 'v) lruHeap \<Rightarrow> addr \<Rightarrow> addr \<Rightarrow> bool" where
  "link h a b \<longleftrightarrow> entNext h a = Some b \<and> entPrev h b = Some a"

definition chain :: "('k, 'v) lruHeap \<Rightarrow> addr list \<Rightarrow> bool" where
  "chain h as \<longleftrightarrow> distinct as \<and> successively (link h) as"

definition entryOf :: "('k, 'v) lruHeap \<Rightarrow> addr \<Rightarrow> 'k \<times> 'v \<times> int" where
  "entryOf h a = (entKey h a, entValue h a, entTime h a)"

definition storeRel :: "('k, 'v) lruStore \<Rightarrow> addr list \<Rightarrow> bool" where
  "storeRel s as \<longleftrightarrow>
     chain (heap s) (headAddr # as @ [tailAddr]) \<and> (\<forall>a \<in> set as. a < nextAddr s) \<and> 2 \<le> nextAddr s \<and>
     distinct (map fst (freeTable s)) \<and> length (freeTable s) = length as \<and>
     (\<forall>k a. map_of (freeTable s) k = Some a \<longleftrightarrow> a \<in> set as \<and> entKey (heap s) a = k)"

definition storeHolds :: "('k, 'v) lruStore \<Rightarrow> ('k, 'v) recency \<Rightarrow> bool" where
  "storeHolds s xs \<longleftrightarrow> (\<exists>as. storeRel s as \<and> xs = map (entryOf (heap s)) as)"

section \<open>The linked list\<close>

lemma chain_split:
  "chain h (U @ a # V) \<Longrightarrow> U \<noteq> [] \<Longrightarrow> V \<noteq> [] \<Longrightarrow> link h (last U) a \<and> link h a (hd V)"
  by (auto simp: chain_def successively_append_iff successively_Cons)

text \<open>A chain survives an update of links that leaves its own links alone.\<close>

lemma successively_link_cong:
  assumes "successively (link h) as"
    and "\<And>i. Suc i < length as \<Longrightarrow> entNext h' (as ! i) = entNext h (as ! i)"
    and "\<And>i. Suc i < length as \<Longrightarrow> entPrev h' (as ! Suc i) = entPrev h (as ! Suc i)"
  shows "successively (link h') as"
  using assms by (auto simp: successively_conv_nth link_def)

lemma nth_not_last: "distinct as \<Longrightarrow> Suc i < length as \<Longrightarrow> as ! i \<noteq> last as"
proof -
  assume d: "distinct as" and i: "Suc i < length as"
  then have "last as = as ! (length as - 1)" by (intro last_conv_nth) auto
  then show ?thesis using d i nth_eq_iff_index_eq [OF d, of i "length as - 1"] by auto
qed

lemma nth_outside: "i < length as \<Longrightarrow> x \<notin> set as \<Longrightarrow> as ! i \<noteq> x"
  using nth_mem by metis

lemma nth_not_hd: "distinct as \<Longrightarrow> Suc i < length as \<Longrightarrow> as ! Suc i \<noteq> hd as"
  by (cases as) (auto simp: nth_mem)

lemma removeEntry_eq:
  assumes "chain h (U @ a # V)" "U \<noteq> []" "V \<noteq> []"
  shows "removeEntry a h = h\<lparr>entNext := (entNext h)(last U := Some (hd V), a := None),
                            entPrev := (entPrev h)(hd V := Some (last U), a := None)\<rparr>"
proof -
  have l: "entPrev h a = Some (last U)" "entNext h a = Some (hd V)"
    using chain_split [OF assms] by (simp_all add: link_def)
  have "last U \<noteq> a" using assms(1,2) by (auto simp: chain_def)
  then show ?thesis using l by (simp add: removeEntry_def setNext_def setPrev_def Let_def)
qed

lemma chain_remove:
  assumes c: "chain h (U @ a # V)" and ne: "U \<noteq> []" "V \<noteq> []"
  shows "chain (removeEntry a h) (U @ V)"
proof -
  let ?h = "removeEntry a h"
  note eq = removeEntry_eq [OF assms]
  have d: "distinct (U @ a # V)" and su: "successively (link h) U" and sv: "successively (link h) V"
    using c ne by (auto simp: chain_def successively_append_iff successively_Cons)
  have "successively (link ?h) U"
  proof (rule successively_link_cong [OF su])
    fix i assume i: "Suc i < length U"
    have "hd V \<notin> set U" using d hd_in_set [OF ne(2)] by auto
    then have "U ! i \<noteq> a" "U ! Suc i \<noteq> a" "U ! Suc i \<noteq> hd V" "U ! i \<noteq> last U"
      using d i nth_not_last [of U i] by (simp_all add: nth_outside)
    then show "entNext ?h (U ! i) = entNext h (U ! i)" "entPrev ?h (U ! Suc i) = entPrev h (U ! Suc i)"
      unfolding eq by simp_all
  qed
  moreover have "successively (link ?h) V"
  proof (rule successively_link_cong [OF sv])
    fix i assume i: "Suc i < length V"
    have "last U \<notin> set V" using d last_in_set [OF ne(1)] by auto
    then have "V ! i \<noteq> a" "V ! Suc i \<noteq> a" "V ! i \<noteq> last U" "V ! Suc i \<noteq> hd V"
      using d i nth_not_hd [of V i] by (simp_all add: nth_outside)
    then show "entNext ?h (V ! i) = entNext h (V ! i)" "entPrev ?h (V ! Suc i) = entPrev h (V ! Suc i)"
      unfolding eq by simp_all
  qed
  moreover have "link ?h (last U) (hd V)"
    using d ne last_in_set [OF ne(1)] hd_in_set [OF ne(2)] unfolding eq by (auto simp: link_def)
  ultimately show ?thesis using d ne by (auto simp: chain_def successively_append_iff)
qed

lemma addToHead_eq:
  assumes "chain h (headAddr # R)" "R \<noteq> []" "e \<notin> set (headAddr # R)"
  shows "addToHead e h = h\<lparr>entPrev := (entPrev h)(e := Some headAddr, hd R := Some e),
                          entNext := (entNext h)(e := Some (hd R), headAddr := Some e)\<rparr>"
proof -
  have "entNext h headAddr = Some (hd R)"
    using assms(1,2) by (cases R) (auto simp: chain_def link_def)
  then show ?thesis using assms(3) by (simp add: addToHead_def setNext_def setPrev_def Let_def)
qed

lemma chain_add:
  assumes c: "chain h (headAddr # R)" and ne: "R \<noteq> []" and e: "e \<notin> set (headAddr # R)"
  shows "chain (addToHead e h) (headAddr # e # R)"
proof -
  let ?h = "addToHead e h"
  note eq = addToHead_eq [OF assms]
  have d: "distinct (headAddr # R)" and sr: "successively (link h) R"
    using c ne by (auto simp: chain_def successively_Cons)
  have "successively (link ?h) R"
  proof (rule successively_link_cong [OF sr])
    fix i assume i: "Suc i < length R"
    then have "R ! i \<noteq> headAddr" "R ! i \<noteq> e" "R ! Suc i \<noteq> e" "R ! Suc i \<noteq> hd R"
      using d e nth_not_hd [of R i] by (simp_all add: nth_outside)
    then show "entNext ?h (R ! i) = entNext h (R ! i)" "entPrev ?h (R ! Suc i) = entPrev h (R ! Suc i)"
      unfolding eq by simp_all
  qed
  moreover have "link ?h headAddr e" "link ?h e (hd R)"
    using d e ne hd_in_set [OF ne] unfolding eq by (auto simp: link_def)
  ultimately show ?thesis using d e ne by (auto simp: chain_def successively_Cons)
qed

lemma removeEntry_fields [simp]:
  "entKey (removeEntry a h) = entKey h" "entValue (removeEntry a h) = entValue h" "entTime (removeEntry a h) = entTime h"
  by (simp_all add: removeEntry_def setNext_def setPrev_def Let_def split: option.splits)

lemma addToHead_fields [simp]:
  "entKey (addToHead a h) = entKey h" "entValue (addToHead a h) = entValue h" "entTime (addToHead a h) = entTime h"
  by (simp_all add: addToHead_def setNext_def setPrev_def Let_def split: option.splits)

lemma chain_fields:
  "entNext h' = entNext h \<Longrightarrow> entPrev h' = entPrev h \<Longrightarrow> chain h' as = chain h as"
  by (simp add: chain_def link_def [abs_def])

section \<open>The store follows the abstract store\<close>

lemma update_absent: "k \<notin> fst ` set xs \<Longrightarrow> AList.update k v xs = xs @ [(k, v)]"
  by (induction xs) auto

lemma length_delete:
  "distinct (map fst xs) \<Longrightarrow> map_of xs k = Some v \<Longrightarrow> length xs = Suc (length (AList.delete k xs))"
proof (induction xs)
  case (Cons x xs)
  show ?case
  proof (cases "fst x = k")
    case True
    then have "AList.delete k xs = xs" using Cons.prems(1) by (intro delete_id) auto
    then show ?thesis using True by (cases x) simp
  next
    case False
    then show ?thesis using Cons by (cases x) auto
  qed
qed simp

lemma storeRel_keys:
  assumes "storeRel s as"
  shows "inj_on (entKey (heap s)) (set as)" and "distinct as" and "headAddr \<notin> set as" and "tailAddr \<notin> set as"
proof -
  have t: "\<And>k a. map_of (freeTable s) k = Some a \<longleftrightarrow> a \<in> set as \<and> entKey (heap s) a = k"
    using assms by (simp add: storeRel_def)
  show "inj_on (entKey (heap s)) (set as)" by (rule inj_onI) (metis t option.inject)
  show "distinct as" "headAddr \<notin> set as" "tailAddr \<notin> set as" using assms by (auto simp: storeRel_def chain_def)
qed

lemma storeRel_remove:
  assumes r: "storeRel s (A @ a # B)" and k: "k = entKey (heap s) a"
  shows "storeRel (s\<lparr>heap := removeEntry a (heap s), freeTable := AList.delete k (freeTable s)\<rparr>) (A @ B)"
proof -
  have c: "chain (heap s) ((headAddr # A) @ a # (B @ [tailAddr]))" using r by (simp add: storeRel_def)
  have t: "\<And>k' b. map_of (freeTable s) k' = Some b \<longleftrightarrow> b \<in> set (A @ a # B) \<and> entKey (heap s) b = k'"
    and d: "distinct (map fst (freeTable s))" using r by (simp_all add: storeRel_def)
  have a: "map_of (freeTable s) k = Some a" using t k by simp
  have "chain (removeEntry a (heap s)) ((headAddr # A) @ (B @ [tailAddr]))" by (rule chain_remove [OF c]) simp_all
  moreover have "length (freeTable s) = Suc (length (AList.delete k (freeTable s)))" by (rule length_delete [OF d a])
  moreover have "map_of (AList.delete k (freeTable s)) k' = Some b \<longleftrightarrow> b \<in> set (A @ B) \<and> entKey (heap s) b = k'" for k' b
    using t [of k' b] t [of k b] a k storeRel_keys(2) [OF r]
    by (auto simp: delete_conv' [THEN fun_cong] delete_conv)
  ultimately show ?thesis using r d by (auto simp: storeRel_def distinct_delete)
qed

lemma storeRel_add:
  fixes s :: "('k, 'v) lruStore" and v :: 'v and now :: int
  assumes r: "storeRel s as" and k: "map_of (freeTable s) k = None"
  defines "h1 \<equiv> (heap s)\<lparr>entKey := (entKey (heap s))(nextAddr s := k), entValue := (entValue (heap s))(nextAddr s := v),
                             entTime := (entTime (heap s))(nextAddr s := now)\<rparr>"
  shows "storeRel (s\<lparr>heap := addToHead (nextAddr s) h1, freeTable := AList.update k (nextAddr s) (freeTable s),
                     nextAddr := nextAddr s + 1\<rparr>) (nextAddr s # as)"
proof -
  have fresh: "nextAddr s \<notin> set (headAddr # as @ [tailAddr])" using r by (auto simp: storeRel_def)
  have "chain h1 (headAddr # as @ [tailAddr])"
    using r by (simp add: storeRel_def h1_def chain_fields [of h1 "heap s"] chain_def link_def [abs_def])
  then have "chain (addToHead (nextAddr s) h1) (headAddr # nextAddr s # as @ [tailAddr])"
    using fresh by (intro chain_add) simp_all
  moreover have "AList.update k (nextAddr s) (freeTable s) = freeTable s @ [(k, nextAddr s)]"
    using k by (intro update_absent) (simp add: map_of_eq_None_iff)
  moreover have "map_of (AList.update k (nextAddr s) (freeTable s)) k' = Some b \<longleftrightarrow>
      b \<in> set (nextAddr s # as) \<and> (if b = nextAddr s then k else entKey (heap s) b) = k'" for k' b
    using r k fresh by (auto simp: update_conv storeRel_def)
  ultimately show ?thesis
    using r k by (auto simp: storeRel_def h1_def map_of_eq_None_iff distinct_update)
qed

lemma entries_except:
  assumes "inj_on (entKey h) (set (A @ a # B))" and "distinct (A @ a # B)"
    and "\<And>b. b \<noteq> a \<Longrightarrow> entryOf h' b = entryOf h b"
  shows "filter (\<lambda>x. fst x \<noteq> entKey h a) (map (entryOf h) (A @ a # B)) = map (entryOf h') (A @ B)"
proof -
  have "\<And>b. b \<in> set (A @ B) \<Longrightarrow> entKey h b \<noteq> entKey h a"
    using assms(1,2) by (auto simp: inj_on_def)
  then have "filter (\<lambda>x. fst x \<noteq> entKey h a) (map (entryOf h) (A @ a # B)) = map (entryOf h) (A @ B)"
    by (simp add: entryOf_def filter_map comp_def filter_id_conv)
  moreover have "map (entryOf h) (A @ B) = map (entryOf h') (A @ B)"
    using assms(2) by (intro map_cong refl assms(3) [symmetric]) auto
  ultimately show ?thesis by simp
qed

lemma storeRel_touch:
  fixes s :: "('k, 'v) lruStore" and tm :: "addr \<Rightarrow> int" and vl :: "addr \<Rightarrow> 'v"
  assumes r: "storeRel s (A @ e # B)"
  defines "h1 \<equiv> (heap s)\<lparr>entTime := tm, entValue := vl\<rparr>"
  shows "storeRel (s\<lparr>heap := moveToHead e h1\<rparr>) (e # A @ B)"
proof -
  have c: "chain h1 ((headAddr # A) @ e # (B @ [tailAddr]))"
    using r by (simp add: storeRel_def h1_def chain_def link_def [abs_def])
  have c1: "chain (removeEntry e h1) (headAddr # A @ B @ [tailAddr])" using chain_remove [OF c] by simp
  have "e \<notin> set (headAddr # A @ B @ [tailAddr])" using c by (auto simp: chain_def)
  then have "chain (moveToHead e h1) (headAddr # e # A @ B @ [tailAddr])"
    unfolding moveToHead_def by (intro chain_add [OF c1]) simp_all
  then show ?thesis using r by (auto simp: storeRel_def moveToHead_def h1_def)
qed

lemma Put_existing:
  assumes r: "storeRel s as" and k: "map_of (freeTable s) k = Some e"
  shows "\<exists>as'. storeRel (snd (Put k v now s)) as' \<and>
           map (entryOf (heap (snd (Put k v now s)))) as' = snd (recencyPut cap k v now (map (entryOf (heap s)) as)) \<and>
           fst (Put k v now s) = fst (recencyPut cap k v now (map (entryOf (heap s)) as))"
proof -
  have e: "e \<in> set as" "entKey (heap s) e = k" using r k by (auto simp: storeRel_def)
  then obtain A B where as: "as = A @ e # B" by (meson split_list)
  define h1 where "h1 = (heap s)\<lparr>entTime := (entTime (heap s))(e := now), entValue := (entValue (heap s))(e := v)\<rparr>"
  have p: "Put k v now s = (False, s\<lparr>heap := moveToHead e h1\<rparr>)" using k by (simp add: Put_def Let_def h1_def)
  have "entryOf (moveToHead e h1) b = entryOf (heap s) b" if "b \<noteq> e" for b
    using that by (simp add: entryOf_def moveToHead_def h1_def)
  then have ent: "filter (\<lambda>x. fst x \<noteq> k) (map (entryOf (heap s)) as) = map (entryOf (moveToHead e h1)) (A @ B)"
    using entries_except [of "heap s" A e B "moveToHead e h1"] storeRel_keys(1,2) [OF r] e(2) as by simp
  moreover have "entryOf (moveToHead e h1) e = (k, v, now)"
    using e(2) by (simp add: entryOf_def moveToHead_def h1_def)
  moreover have "k \<in> fst ` set (map (entryOf (heap s)) as)" using e by (force simp: entryOf_def)
  moreover have "storeRel (s\<lparr>heap := moveToHead e h1\<rparr>) (e # A @ B)"
    using storeRel_touch r unfolding as h1_def by blast
  ultimately show ?thesis using p by (intro exI [of _ "e # A @ B"]) (simp add: recencyPut_def Let_def)
qed

lemma Put_new:
  assumes r: "storeRel s as" and k: "map_of (freeTable s) k = None"
  shows "\<exists>as'. storeRel (snd (Put k v now s)) as' \<and>
           map (entryOf (heap (snd (Put k v now s)))) as' = snd (recencyPut (capOf s) k v now (map (entryOf (heap s)) as)) \<and>
           fst (Put k v now s) = fst (recencyPut (capOf s) k v now (map (entryOf (heap s)) as))"
proof -
  define h1 where "h1 = (heap s)\<lparr>entKey := (entKey (heap s))(nextAddr s := k), entValue := (entValue (heap s))(nextAddr s := v),
                             entTime := (entTime (heap s))(nextAddr s := now)\<rparr>"
  define s1 where "s1 = s\<lparr>heap := addToHead (nextAddr s) h1, freeTable := AList.update k (nextAddr s) (freeTable s),
                         nextAddr := nextAddr s + 1\<rparr>"
  let ?e = "nextAddr s" and ?xs = "map (entryOf (heap s)) as"
  have r1: "storeRel s1 (?e # as)" using storeRel_add [OF r k] by (simp add: s1_def h1_def)
  have fresh: "?e \<notin> set as" using r by (auto simp: storeRel_def)
  have nok: "k \<notin> fst ` set ?xs" using r k by (auto simp: storeRel_def entryOf_def)
  then have flt: "filter (\<lambda>x. fst x \<noteq> k) ?xs = ?xs" by (auto simp: filter_id_conv)
  have ents: "map (entryOf (heap s1)) (?e # as) = (k, v, now) # ?xs"
    using fresh by (auto simp: s1_def h1_def entryOf_def)
  have len: "length (freeTable s1) = Suc (length as)" using r1 by (simp add: storeRel_def)
  have body: "Put k v now s =
      (if int (length (freeTable s1)) > capOf s1
       then (case removeTail (heap s1) of
               (None, h2) \<Rightarrow> (False, s1\<lparr>heap := h2\<rparr>)
             | (Some r, h2) \<Rightarrow> (True, s1\<lparr>heap := h2, freeTable := AList.delete (entKey h2 r) (freeTable s1)\<rparr>))
       else (False, s1))"
    unfolding Put_def k option.case Let_def s1_def h1_def by (rule refl)
  show ?thesis
  proof (cases "int (length (freeTable s1)) > capOf s1")
    case False
    then have "Put k v now s = (False, s1)" unfolding body by simp
    then show ?thesis using r1 ents nok flt False len
      by (intro exI [of _ "?e # as"]) (simp add: recencyPut_def s1_def)
  next
    case True
    define rm where "rm = last (?e # as)"
    have sp: "?e # as = butlast (?e # as) @ rm # []" by (simp add: rm_def)
    have c: "chain (heap s1) ((headAddr # butlast (?e # as)) @ rm # [tailAddr])"
      using r1 sp by (simp add: storeRel_def del: butlast.simps) (metis append_Cons append_assoc append_Nil)
    have pr: "entPrev (heap s1) tailAddr = Some rm" and "rm \<noteq> headAddr"
      using chain_split [OF c] c by (auto simp: link_def chain_def)
    then have rt: "removeTail (heap s1) = (Some rm, removeEntry rm (heap s1))" by (simp add: removeTail_def)
    have p: "Put k v now s = (True, s1\<lparr>heap := removeEntry rm (heap s1),
        freeTable := AList.delete (entKey (heap s1) rm) (freeTable s1)\<rparr>)"
      unfolding body using True rt by simp
    have "storeRel (snd (Put k v now s)) (butlast (?e # as) @ [])"
      using storeRel_remove [of s1 "butlast (?e # as)" rm "[]"] r1 sp p by simp
    moreover have "entryOf (removeEntry rm (heap s1)) = entryOf (heap s1)" by (simp add: entryOf_def [abs_def])
    then have "map (entryOf (removeEntry rm (heap s1))) (butlast (?e # as)) = butlast ((k, v, now) # ?xs)"
      by (simp only: map_butlast ents)
    ultimately show ?thesis using p nok flt True len
      by (intro exI [of _ "butlast (?e # as)"]) (simp add: recencyPut_def s1_def)
  qed
qed

lemma Put_law:
  assumes "storeHolds s xs"
  shows "storeHolds (snd (Put k v now s)) (snd (recencyPut (capOf s) k v now xs)) \<and>
         fst (Put k v now s) = fst (recencyPut (capOf s) k v now xs)"
proof -
  obtain as where r: "storeRel s as" and xs: "xs = map (entryOf (heap s)) as"
    using assms by (auto simp: storeHolds_def)
  show ?thesis
    using Put_existing [OF r, of k _ v now "capOf s"] Put_new [OF r, of k v now]
    unfolding storeHolds_def xs by (cases "map_of (freeTable s) k") metis+
qed

lemma Put_settings: "capOf (snd (Put k v now s)) = capOf s \<and> ttlOf (snd (Put k v now s)) = ttlOf s"
  by (auto simp: Put_def Let_def split: option.split prod.split)

lemma holds_distinct: "storeHolds s xs \<Longrightarrow> distinct (map fst xs)"
  using storeRel_keys by (force simp: storeHolds_def distinct_map entryOf_def comp_def inj_on_def)

lemma Get_law:
  assumes "storeHolds s xs"
  shows "Get k s = recencyGet k xs"
proof -
  obtain as where r: "storeRel s as" and xs: "xs = map (entryOf (heap s)) as"
    using assms by (auto simp: storeHolds_def)
  have t: "\<And>a. map_of (freeTable s) k = Some a \<longleftrightarrow> a \<in> set as \<and> entKey (heap s) a = k"
    using r by (simp add: storeRel_def)
  show ?thesis
  proof (cases "map_of (freeTable s) k")
    case None
    then have "k \<notin> fst ` set xs" using t by (fastforce simp: xs entryOf_def)
    then have "map_of xs k = None" by (simp add: map_of_eq_None_iff)
    then show ?thesis using None by (simp add: Get_def recencyGet_def)
  next
    case (Some a)
    then have "(k, entValue (heap s) a, entTime (heap s) a) \<in> set xs" using t by (force simp: xs entryOf_def)
    then have "map_of xs k = Some (entValue (heap s) a, entTime (heap s) a)"
      using holds_distinct [OF assms] by (intro map_of_is_SomeI)
    then show ?thesis using Some by (simp add: Get_def recencyGet_def)
  qed
qed

lemma evictKeys_law:
  "storeHolds s xs \<Longrightarrow>
     storeHolds (evictKeys now ks s) (filter (\<lambda>(k, v, t). \<not> (k \<in> set ks \<and> now - t > ttlOf s)) xs) \<and>
     ttlOf (evictKeys now ks s) = ttlOf s \<and> capOf (evictKeys now ks s) = capOf s"
proof (induction ks arbitrary: s xs)
  case (Cons k ks)
  obtain as where r: "storeRel s as" and xs: "xs = map (entryOf (heap s)) as"
    using Cons.prems by (auto simp: storeHolds_def)
  have t: "\<And>a. map_of (freeTable s) k = Some a \<longleftrightarrow> a \<in> set as \<and> entKey (heap s) a = k"
    using r by (simp add: storeRel_def)
  define s1 where "s1 = (case map_of (freeTable s) k of
      Some e \<Rightarrow> if expired now s e then s\<lparr>heap := removeEntry e (heap s), freeTable := AList.delete k (freeTable s)\<rparr> else s
    | None \<Rightarrow> s)"
  let ?ys = "filter (\<lambda>(k', v, tm). \<not> (k' = k \<and> now - tm > ttlOf s)) xs"
  have h1: "storeHolds s1 ?ys \<and> ttlOf s1 = ttlOf s \<and> capOf s1 = capOf s"
  proof (cases "\<exists>a. map_of (freeTable s) k = Some a \<and> expired now s a")
    case True
    then obtain a where a: "map_of (freeTable s) k = Some a" "expired now s a" by blast
    then have "a \<in> set as" and ka: "entKey (heap s) a = k" using t by auto
    then obtain A B where as: "as = A @ a # B" by (meson split_list)
    have "?ys = filter (\<lambda>x. fst x \<noteq> k) xs"
    proof (rule filter_cong [OF refl])
      fix x assume "x \<in> set xs"
      then obtain b where b: "b \<in> set as" "x = entryOf (heap s) b" by (auto simp: xs)
      have "entKey (heap s) b = k \<Longrightarrow> b = a" using t [of b] a(1) b(1) by auto
      then show "(case x of (k', v, tm) \<Rightarrow> \<not> (k' = k \<and> now - tm > ttlOf s)) = (fst x \<noteq> k)"
        using a(2) b(2) ka by (auto simp: entryOf_def expired_def)
    qed
    also have "\<dots> = map (entryOf (removeEntry a (heap s))) (A @ B)"
      unfolding xs as ka [symmetric]
      using storeRel_keys(1,2) [OF r] as by (intro entries_except) (simp_all add: entryOf_def)
    finally have ys: "?ys = map (entryOf (removeEntry a (heap s))) (A @ B)" .
    have "storeRel s1 (A @ B)" using storeRel_remove [of s A a B k] r as ka a by (simp add: s1_def)
    then show ?thesis using ys a by (auto simp: storeHolds_def s1_def)
  next
    case False
    have "?ys = xs"
      using False t by (auto simp: filter_id_conv xs entryOf_def expired_def)
    then show ?thesis using False Cons.prems by (auto simp: s1_def split: option.splits)
  qed
  have eq: "evictKeys now (k # ks) s = evictKeys now ks s1" by (simp add: s1_def)
  have "filter (\<lambda>(k', v, tm). \<not> (k' \<in> set ks \<and> now - tm > ttlOf s)) ?ys
      = filter (\<lambda>(k', v, tm). \<not> (k' \<in> set (k # ks) \<and> now - tm > ttlOf s)) xs"
    by (auto simp: filter_filter intro!: filter_cong)
  then show ?case using Cons.IH [of s1 ?ys] h1 unfolding eq by simp
qed (simp add: filter_id_conv case_prod_beta)

section \<open>The contract and what follows from it\<close>

lemma puts_snoc: "puts put (ps @ [(k, v, t)]) s = snd (put k v t (puts put ps s))"
  by (simp add: puts_def)

lemma remdups_snoc: "remdups (xs @ [x]) = filter (\<lambda>y. y \<noteq> x) (remdups xs) @ [x]"
  by (induction xs) auto

lemma map_of_filter_distinct:
  "distinct (map fst xs) \<Longrightarrow>
   map_of (filter P xs) k = (case map_of xs k of Some v \<Rightarrow> if P (k, v) then Some v else None | None \<Rightarrow> None)"
proof (induction xs)
  case (Cons x xs)
  have "fst x \<notin> fst ` set xs \<Longrightarrow> map_of xs (fst x) = None" by (simp add: map_of_eq_None_iff)
  then show ?case using Cons by (cases x) auto
qed simp

lemma recency_keys:
  assumes d: "distinct L" and n: "n = Suc m"
  shows "(if k \<in> set (take n L) then k # filter (\<lambda>x. x \<noteq> k) (take n L)
          else if Suc (length (take n L)) > n then butlast (k # take n L) else k # take n L)
         = take n (k # filter (\<lambda>x. x \<noteq> k) L)"
proof (cases "k \<in> set L")
  case True
  then obtain A B where L: "L = A @ k # B" by (meson split_list)
  then have k: "k \<notin> set A" "k \<notin> set B" using d by auto
  then have "filter (\<lambda>x. x \<noteq> k) A = A" "filter (\<lambda>x. x \<noteq> k) B = B"
    by (auto simp: filter_id_conv)
  then have fl: "filter (\<lambda>x. x \<noteq> k) L = A @ B" using L by simp
  show ?thesis
  proof (cases "length A < n")
    case lt: True
    then obtain j where j: "n - length A = Suc j" by (metis Suc_diff_Suc)
    then have tk: "take n L = A @ k # take j B" using L lt by simp
    have "filter (\<lambda>x. x \<noteq> k) (take j B) = take j B" "filter (\<lambda>x. x \<noteq> k) A = A"
      using k by (auto simp: filter_id_conv dest: in_set_takeD)
    then have "filter (\<lambda>x. x \<noteq> k) (take n L) = A @ take j B" using tk by simp
    moreover have "m - length A = j" using j n by simp
    ultimately show ?thesis using tk fl n lt by simp
  next
    case False
    then have tk: "take n L = take n A" using L by simp
    then have "k \<notin> set (take n L)" using k by (auto dest: in_set_takeD)
    moreover have "butlast (take n A) = take m A" using False n by (simp add: butlast_take)
    moreover have "take n A \<noteq> []" using False n by auto
    ultimately show ?thesis using tk fl n False by simp
  qed
next
  case False
  then have "filter (\<lambda>x. x \<noteq> k) L = L" "k \<notin> set (take n L)" by (auto simp: filter_id_conv dest: in_set_takeD)
  moreover have "n \<le> length L \<Longrightarrow> butlast (take n L) = take m L \<and> take n L \<noteq> []" using n by (auto simp: butlast_take)
  ultimately show ?thesis using n by (cases "n \<le> length L") auto
qed

lemma recencyGet_put: "1 \<le> cap \<Longrightarrow> recencyGet k (snd (recencyPut cap k v now xs)) = Some v"
  by (cases xs) (auto simp: recencyPut_def recencyGet_def Let_def)

lemma map_of_except: "j \<noteq> k \<Longrightarrow> map_of (filter (\<lambda>x. fst x \<noteq> k) xs) j = map_of xs j"
  by (induction xs) auto

lemma map_of_butlast: "map_of (butlast xs) j = map_of xs j \<or> map_of (butlast xs) j = None"
  by (induction xs) auto

lemma recencyGet_put_other:
  "j \<noteq> k \<Longrightarrow> recencyGet j (snd (recencyPut cap k v now xs)) \<in> {recencyGet j xs, None}"
  using map_of_butlast [of "filter (\<lambda>x. fst x \<noteq> k) xs" j] map_of_except [of j k xs]
  by (auto simp: recencyPut_def recencyGet_def Let_def)

text \<open>A put that fits beside the most recent keys keeps them.\<close>

lemma recencyPut_recent:
  assumes d: "distinct (map fst xs)" and r: "recentKeys xs K" and c: "int (card (insert k K)) \<le> cap"
  shows "recentKeys (snd (recencyPut cap k v now xs)) (insert k K) \<and>
         (\<forall>j \<in> K - {k}. recencyGet j (snd (recencyPut cap k v now xs)) = recencyGet j xs)"
proof -
  obtain A B where xs: "xs = A @ B" and K: "fst ` set A = K" using r by (auto simp: recentKeys_def)
  let ?A = "(k, v, now) # filter (\<lambda>x. fst x \<noteq> k) A" and ?B = "filter (\<lambda>x. fst x \<noteq> k) B"
  have A: "fst ` set ?A = insert k K" using K by auto
  have dA: "distinct (map fst ?A)" using d xs by (auto simp: distinct_map intro: inj_on_subset)
  have len: "length ?A = card (insert k K)" using distinct_card [OF dA] A by (simp only: list.set_map length_map)
  let ?xs = "snd (recencyPut cap k v now xs)"
  have "\<exists>C. ?xs = ?A @ C"
  proof (cases "k \<notin> fst ` set xs \<and> int (length (?A @ ?B)) > cap")
    case True
    then have "?B \<noteq> []" using len c by auto
    then show ?thesis using True by (simp add: recencyPut_def xs butlast_append)
  qed (auto simp: recencyPut_def Let_def xs)
  then obtain C where C: "?xs = ?A @ C" by blast
  have "recencyGet j ?xs = recencyGet j xs" if "j \<in> K - {k}" for j
  proof -
    have "map_of A j \<noteq> None" using that K by (auto simp: map_of_eq_None_iff)
    then show ?thesis using that unfolding C by (auto simp: recencyGet_def xs map_of_except map_add_def)
  qed
  moreover have "recentKeys ?xs (insert k K)" unfolding recentKeys_def using C A by blast
  ultimately show ?thesis by blast
qed

locale recency_store =
  fixes put :: "'k \<Rightarrow> 'v \<Rightarrow> int \<Rightarrow> 's \<Rightarrow> bool \<times> 's"
    and get :: "'k \<Rightarrow> 's \<Rightarrow> 'v option"
    and expire :: "int \<Rightarrow> 'k list \<Rightarrow> 's \<Rightarrow> 's"
    and bound :: "'s \<Rightarrow> int"
    and life :: "'s \<Rightarrow> int"
    and holds :: "'s \<Rightarrow> ('k, 'v) recency \<Rightarrow> bool"
  assumes put_law: "holds s xs \<Longrightarrow> holds (snd (put k v now s)) (snd (recencyPut (bound s) k v now xs)) \<and>
                      fst (put k v now s) = fst (recencyPut (bound s) k v now xs)"
    and get_law: "holds s xs \<Longrightarrow> get k s = recencyGet k xs"
    and expire_law: "holds s xs \<Longrightarrow> fst ` set xs \<subseteq> set order \<Longrightarrow> holds (expire now order s) (recencyEvict now (life s) xs)"
    and bound_put: "bound (snd (put k v now s)) = bound s"
    and life_put: "life (snd (put k v now s)) = life s"
    and keys_distinct: "holds s xs \<Longrightarrow> distinct (map fst xs)"
begin

lemma bound_puts: "bound (puts put ps s) = bound s"
  unfolding puts_def by (induction ps arbitrary: s) (auto simp: bound_put)

lemma life_puts: "life (puts put ps s) = life s"
  unfolding puts_def by (induction ps arbitrary: s) (auto simp: life_put)

lemma puts_keys:
  assumes "holds s []" and "1 \<le> bound s"
  shows "\<exists>xs. holds (puts put ps s) xs \<and> map fst xs = take (nat (bound s)) (rev (remdups (map fst ps))) \<and>
              (\<forall>(k, v, t) \<in> set xs. map_of (rev ps) k = Some (v, t))"
proof (induction ps rule: rev_induct)
  case Nil
  then show ?case using assms by (auto simp: puts_def intro!: exI [of _ "[]"])
next
  case (snoc p ps)
  obtain k v t where p: "p = (k, v, t)" by (metis surj_pair)
  obtain xs where h: "holds (puts put ps s) xs" and keys: "map fst xs = take (nat (bound s)) (rev (remdups (map fst ps)))"
    and vals: "\<forall>(k, v, t) \<in> set xs. map_of (rev ps) k = Some (v, t)" using snoc by blast
  let ?n = "nat (bound s)" and ?L = "rev (remdups (map fst ps))"
  let ?ys = "snd (recencyPut (bound s) k v t xs)"
  have n: "1 \<le> ?n" using assms(2) by simp
  have h': "holds (puts put (ps @ [p]) s) ?ys" using put_law [OF h, of k v t] by (simp add: p puts_snoc bound_puts)
  have tgt: "rev (remdups (map fst (ps @ [p]))) = k # filter (\<lambda>x. x \<noteq> k) ?L"
    by (simp add: p remdups_snoc rev_filter)
  have flt: "map fst (filter (\<lambda>x. fst x \<noteq> k) xs) = filter (\<lambda>x. x \<noteq> k) (take ?n ?L)"
    by (simp add: filter_map comp_def flip: keys)
  have mem: "k \<in> fst ` set xs \<longleftrightarrow> k \<in> set (take ?n ?L)" by (metis keys list.set_map)
  have "map fst ?ys = (if k \<in> set (take ?n ?L) then k # filter (\<lambda>x. x \<noteq> k) (take ?n ?L)
          else if Suc (length (take ?n ?L)) > ?n then butlast (k # take ?n ?L) else k # take ?n ?L)"
  proof (cases "k \<in> set (take ?n ?L)")
    case True
    then show ?thesis using mem flt by (simp add: recencyPut_def Let_def)
  next
    case False
    then have "filter (\<lambda>x. fst x \<noteq> k) xs = xs" using mem by (auto simp: filter_id_conv)
    moreover have "length xs = length (take ?n ?L)" by (metis keys length_map)
    moreover have "int (Suc (length xs)) > bound s \<longleftrightarrow> Suc (length xs) > ?n" using n by linarith
    ultimately show ?thesis using False mem keys
      by (auto simp: recencyPut_def Let_def map_butlast)
  qed
  also have "\<dots> = take ?n (k # filter (\<lambda>x. x \<noteq> k) ?L)"
    using n by (intro recency_keys [of _ _ "?n - 1"]) simp_all
  finally have "map fst ?ys = take ?n (rev (remdups (map fst (ps @ [p]))))" unfolding tgt .
  moreover have "set ?ys \<subseteq> insert (k, v, t) {x \<in> set xs. fst x \<noteq> k}"
    by (auto simp: recencyPut_def Let_def dest!: in_set_butlastD split: if_splits)
  then have "\<forall>(k', v', t') \<in> set ?ys. map_of (rev (ps @ [p])) k' = Some (v', t')"
    using vals by (force simp: p)
  ultimately show ?case using h' by blast
qed

lemma get_puts:
  assumes "holds s []" and "1 \<le> bound s"
  shows "get k (puts put ps s) =
           (if k \<in> set (take (nat (bound s)) (rev (remdups (map fst ps)))) then map_option fst (map_of (rev ps) k) else None)"
proof -
  obtain xs where h: "holds (puts put ps s) xs" and keys: "map fst xs = take (nat (bound s)) (rev (remdups (map fst ps)))"
    and vals: "\<forall>(k, v, t) \<in> set xs. map_of (rev ps) k = Some (v, t)" using puts_keys [OF assms] by blast
  have "k \<in> set (take (nat (bound s)) (rev (remdups (map fst ps)))) \<longleftrightarrow> map_of xs k \<noteq> None"
    by (simp only: keys [symmetric] map_of_eq_None_iff set_map) simp
  moreover have "map_of xs k = Some p \<Longrightarrow> map_of (rev ps) k = Some p" for p using vals by (auto dest!: map_of_SomeD)
  ultimately show ?thesis unfolding get_law [OF h] recencyGet_def by auto
qed

lemma get_expire:
  assumes "holds s []" and "1 \<le> bound s" and "fst ` set ps \<subseteq> set order"
  shows "get k (expire now order (puts put ps s)) =
           (case map_of (rev ps) k of
              Some (v, t) \<Rightarrow> if now - t > life s then None else get k (puts put ps s)
            | None \<Rightarrow> None)"
proof -
  obtain xs where h: "holds (puts put ps s) xs" and keys: "map fst xs = take (nat (bound s)) (rev (remdups (map fst ps)))"
    and vals: "\<forall>(k, v, t) \<in> set xs. map_of (rev ps) k = Some (v, t)" using puts_keys [OF assms(1,2)] by blast
  have "fst ` set xs = set (take (nat (bound s)) (rev (remdups (map fst ps))))" by (simp flip: keys)
  then have "fst ` set xs \<subseteq> set order" using assms(3) by (auto dest!: in_set_takeD)
  then have e: "get k (expire now order (puts put ps s)) = recencyGet k (recencyEvict now (life s) xs)"
    using expire_law [OF h] get_law life_puts by metis
  have d: "distinct (map fst xs)" by (rule keys_distinct [OF h])
  have "map_of (recencyEvict now (life s) xs) k =
          (case map_of xs k of Some (v, t) \<Rightarrow> if now - t > life s then None else Some (v, t) | None \<Rightarrow> None)"
    unfolding recencyEvict_def by (subst map_of_filter_distinct [OF d]) (auto split: option.splits)
  moreover have "map_of xs k = Some p \<Longrightarrow> map_of (rev ps) k = Some p" for p using vals by (auto dest!: map_of_SomeD)
  ultimately show ?thesis unfolding e get_law [OF h] recencyGet_def by (auto split: option.splits)
qed

lemma get_put_same: "holds s xs \<Longrightarrow> 1 \<le> bound s \<Longrightarrow> get k (snd (put k v now s)) = Some v"
  using put_law [of s xs k v now] get_law recencyGet_put by metis

lemma get_put_other: "holds s xs \<Longrightarrow> j \<noteq> k \<Longrightarrow> get j (snd (put k v now s)) \<in> {get j s, None}"
  using put_law [of s xs k v now] get_law [of s xs j] get_law recencyGet_put_other [of j k "bound s" v now xs] by metis

lemma put_recent:
  assumes "holds s xs" and "recentKeys xs K" and "int (card (insert k K)) \<le> bound s"
  shows "\<exists>ys. holds (snd (put k v now s)) ys \<and> recentKeys ys (insert k K) \<and>
              (\<forall>j \<in> K - {k}. get j (snd (put k v now s)) = get j s)"
  using recencyPut_recent [OF keys_distinct [OF assms(1)] assms(2,3), of v now] put_law [OF assms(1), of k v now]
    get_law [OF assms(1)] get_law by metis

end

interpretation lru: recency_store Put Get evict capOf ttlOf storeHolds
proof
  fix s :: "('a, 'b) lruStore" and xs order now
  assume h: "storeHolds s xs" and o: "fst ` set xs \<subseteq> set order"
  let ?ks = "filter (\<lambda>k. case map_of (freeTable s) k of Some e \<Rightarrow> expired now s e | None \<Rightarrow> False) order"
  have "filter (\<lambda>(k', v, t). \<not> (k' \<in> set ?ks \<and> now - t > ttlOf s)) xs = recencyEvict now (ttlOf s) xs"
    unfolding recencyEvict_def
  proof (rule filter_cong [OF refl])
    fix x assume x: "x \<in> set xs"
    obtain as where r: "storeRel s as" and xs: "xs = map (entryOf (heap s)) as" using h by (auto simp: storeHolds_def)
    then obtain a where "a \<in> set as" "x = entryOf (heap s) a" using x by auto
    then have "map_of (freeTable s) (fst x) = Some a" "x = (fst x, fst (snd x), entTime (heap s) a)"
      using r by (auto simp: storeRel_def entryOf_def)
    then show "(case x of (k', v, t) \<Rightarrow> \<not> (k' \<in> set ?ks \<and> now - t > ttlOf s)) = (case x of (k, v, t) \<Rightarrow> \<not> now - t > ttlOf s)"
      using o x by (cases x) (auto simp: expired_def)
  qed
  then show "storeHolds (evict now order s) (recencyEvict now (ttlOf s) xs)"
    using evictKeys_law [OF h, of now ?ks] by (simp add: evict_def)
qed (simp_all only: Put_law Get_law holds_distinct Put_settings simp_thms)

lemma new_store_holds: "storeHolds (NewLRUStore k0 v0 cap ttl) []"
  by (auto simp: storeHolds_def storeRel_def NewLRUStore_def chain_def link_def)

lemma new_store_settings [simp]: "capOf (NewLRUStore k0 v0 cap ttl) = cap" "ttlOf (NewLRUStore k0 v0 cap ttl) = ttl"
  by (simp_all add: NewLRUStore_def)

section \<open>Properties\<close>

text \<open>
  C24. A store of capacity at least one that has taken any sequence of puts answers exactly for the
  \<open>cap\<close> keys put most recently, with the value put last under the key, and has forgotten every other
  key: the linked list and the table never disagree about which entry is the oldest.
\<close>

theorem lru_keeps_most_recent:
  assumes "1 \<le> cap"
  shows "Get k (puts Put ps (NewLRUStore k0 v0 cap ttl)) =
           (if k \<in> set (take (nat cap) (rev (remdups (map fst ps)))) then map_option fst (map_of (rev ps) k) else None)"
  using lru.get_puts [OF new_store_holds, of k0 v0 cap ttl k ps] assms by simp

theorem lru_keeps_most_recent_witness:
  "(1::int) \<le> 2 \<and>
   Get ''a'' (puts Put [(''a'', 1::int, 0), (''b'', 2, 1), (''a'', 3, 2), (''c'', 4, 3)] (NewLRUStore [] 0 2 10)) = Some 3 \<and>
   Get ''b'' (puts Put [(''a'', 1::int, 0), (''b'', 2, 1), (''a'', 3, 2), (''c'', 4, 3)] (NewLRUStore [] 0 2 10)) = None"
  by (subst (1 2) lru_keeps_most_recent) simp_all

text \<open>
  An eviction pass that ranges over the table removes exactly the entries whose last put lies more
  than the time to live in the past, and changes no other answer, in whatever order it visits the keys.
\<close>

theorem lru_evicts_expired:
  assumes "1 \<le> cap" and "fst ` set ps \<subseteq> set order"
  shows "Get k (evict now order (puts Put ps (NewLRUStore k0 v0 cap ttl))) =
           (case map_of (rev ps) k of
              Some (v, t) \<Rightarrow> if now - t > ttl then None else Get k (puts Put ps (NewLRUStore k0 v0 cap ttl))
            | None \<Rightarrow> None)"
  using lru.get_expire [OF new_store_holds, of k0 v0 cap ttl ps order k now] assms
  by (simp split: option.split)

theorem lru_evicts_expired_witness:
  "fst ` set [(''a'', 1::int, 0::int), (''b'', 2, 8)] \<subseteq> set [''b'', ''a''] \<and>
   Get ''a'' (evict 12 [''b'', ''a''] (puts Put [(''a'', 1::int, 0), (''b'', 2, 8)] (NewLRUStore [] 0 2 10))) = None \<and>
   Get ''b'' (evict 12 [''b'', ''a''] (puts Put [(''a'', 1::int, 0), (''b'', 2, 8)] (NewLRUStore [] 0 2 10)))
     = Get ''b'' (puts Put [(''a'', 1::int, 0), (''b'', 2, 8)] (NewLRUStore [] 0 2 10))"
  by (subst (1 2) lru_evicts_expired) simp_all

end
