(* ===== verification/PrefixHash.thy ===== *)
theory PrefixHash
  imports LRUStore "HOL-Library.Word"
begin

text \<open>
  The index of prompt prefixes the gateway routes by (\<^verbatim>\<open>src/pkg/utils/prefixcacheindexer/hash.go\<close>). A prompt is cut into
  blocks, each block is named by a hash that covers everything before it, and a bounded store keeps
  for every block, model and pod when the pod was last routed that block.

  The store is the one of \<^verbatim>\<open>LRUStore\<close>, reached through the contract \<open>recency_store\<close>. A Go map is an
  association list with distinct keys, whose order is the order Go ranges over it; the theorems hold
  for every order. Times are nanoseconds. Arguments of the definitions are what the code calls
  outside the sources: \<open>digest\<close> is \<^verbatim>\<open>xxhash\<close> (the sum of the bytes written after a reset with a
  seed), and \<open>tick\<close> is the clock of the store at each put. A method
  runs under the lock of the table; an eviction pass of the store falls between two methods.
\<close>

section \<open>Configuration\<close>

record prefixConfig =
  prefixCacheBlockNumber :: int
  prefixCacheBlockSize :: int
  prefixCacheEvictionInterval :: int
  prefixCacheEvictionDuration :: int

definition LoadEnvInt :: "(string \<Rightarrow> string) \<Rightarrow> string \<Rightarrow> int \<Rightarrow> int" where
  "LoadEnvInt getenv key defaultValue =
     (let value = getenv key
      in if value \<noteq> []
         then (case parseInt64 value of
                 None \<Rightarrow> defaultValue
               | Some intValue \<Rightarrow> if intValue \<le> 0 then defaultValue else intValue)
         else defaultValue)"

definition prefixSettings :: "(string \<Rightarrow> string) \<Rightarrow> prefixConfig" where
  "prefixSettings getenv =
     \<lparr>prefixCacheBlockNumber = LoadEnvInt getenv ''AIBRIX_PREFIX_CACHE_BLOCK_NUMBER'' 200000,
      prefixCacheBlockSize = LoadEnvInt getenv ''AIBRIX_PREFIX_CACHE_BLOCK_SIZE'' 4,
      prefixCacheEvictionInterval =
        i64 (LoadEnvInt getenv ''AIBRIX_PREFIX_CACHE_EVICTION_INTERVAL_SECONDS'' 1 * 1000000000),
      prefixCacheEvictionDuration =
        i64 (LoadEnvInt getenv ''AIBRIX_PREFIX_CACHE_EVICTION_DURATION_MINS'' 20 * 60000000000)\<rparr>"

definition prefixCacheHashSeed :: "bool \<Rightarrow> string option \<Rightarrow> 64 word \<Rightarrow> 64 word" where
  "prefixCacheHashSeed stateSyncEnabled seedStr random =
     (case seedStr of
        Some s \<Rightarrow>
          if s \<noteq> [] then (case parseUint64 s of
                            Some n \<Rightarrow> word_of_int n
                          | None \<Rightarrow> if stateSyncEnabled then 0 else random)
          else if stateSyncEnabled then 0 else random
      | None \<Rightarrow> if stateSyncEnabled then 0 else random)"

section \<open>The table\<close>

type_synonym podTimes = "(string \<times> int) list"

record prefixBlock =
  modelToPods :: "(string \<times> podTimes) list"

record prefixHashTable =
  tblSeed :: "64 word"
  tblStore :: "(64 word, prefixBlock) lruStore"
  dirtyIds :: "(string \<times> 64 word) list option"
  dirtySeq :: "64 word"
  deltaSeq :: "64 word"

definition NewPrefixHashTable :: "prefixConfig \<Rightarrow> 64 word \<Rightarrow> prefixHashTable" where
  "NewPrefixHashTable cfg seed =
     \<lparr>tblSeed = seed,
      tblStore = NewLRUStore 0 \<lparr>modelToPods = []\<rparr> (prefixCacheBlockNumber cfg) (prefixCacheEvictionDuration cfg),
      dirtyIds = None, dirtySeq = 0, deltaSeq = 0\<rparr>"

definition EnableDeltaSync :: "prefixHashTable \<Rightarrow> prefixHashTable" where
  "EnableDeltaSync c = (case dirtyIds c of None \<Rightarrow> c\<lparr>dirtyIds := Some []\<rparr> | Some _ \<Rightarrow> c)"

section \<open>Hashes of the prefixes of a prompt\<close>

text \<open>\<^verbatim>\<open>binary.LittleEndian.PutUint64\<close>.\<close>

definition putUint64 :: "64 word \<Rightarrow> string" where
  "putUint64 w = map (\<lambda>i. char_of (uint (drop_bit (8 * i) w) mod 256)) [0..<8]"

function blockHashes :: "(64 word \<Rightarrow> string \<Rightarrow> 64 word) \<Rightarrow> nat \<Rightarrow> 64 word \<Rightarrow> 64 word \<Rightarrow> string \<Rightarrow> 64 word list" where
  "blockHashes digest bs seed parentHash tokens =
     (if bs = 0 \<or> length tokens < bs then []
      else let currentHash = digest seed (putUint64 parentHash @ take bs tokens)
           in currentHash # blockHashes digest bs seed currentHash (drop bs tokens))"
  by pat_completeness auto
termination by (relation "measure (\<lambda>(digest, bs, seed, parentHash, tokens). length tokens)") auto

declare blockHashes.simps [simp del]

definition getPrefixHashes :: "(64 word \<Rightarrow> string \<Rightarrow> 64 word) \<Rightarrow> prefixConfig \<Rightarrow> 64 word \<Rightarrow> string \<Rightarrow> 64 word list" where
  "getPrefixHashes digest cfg seed tokens = blockHashes digest (nat (prefixCacheBlockSize cfg)) seed seed tokens"

section \<open>Matching a prompt\<close>

fun narrowAlive :: "podTimes \<Rightarrow> int \<Rightarrow> int \<Rightarrow> string list \<Rightarrow> (string \<rightharpoonup> int) \<Rightarrow> string list \<times> (string \<rightharpoonup> int)" where
  "narrowAlive blockPods staleBefore pct [] pm = ([], pm)"
| "narrowAlive blockPods staleBefore pct (pod # pods) pm =
     (case map_of blockPods pod of
        Some accessed \<Rightarrow>
          if \<not> accessed < staleBefore
          then (let (alive, pm') = narrowAlive blockPods staleBefore pct pods (pm(pod \<mapsto> pct)) in (pod # alive, pm'))
          else narrowAlive blockPods staleBefore pct pods pm
      | None \<Rightarrow> narrowAlive blockPods staleBefore pct pods pm)"

definition keepPod :: "int \<Rightarrow> int \<Rightarrow> string \<Rightarrow> int \<Rightarrow> string list \<times> (string \<rightharpoonup> int) \<Rightarrow> string list \<times> (string \<rightharpoonup> int)" where
  "keepPod staleBefore pct pod accessed st =
     (if \<not> accessed < staleBefore then (List.insert pod (fst st), (snd st)(pod \<mapsto> pct)) else st)"

definition matchPods ::
  "podTimes \<Rightarrow> string list \<Rightarrow> bool \<Rightarrow> (string \<rightharpoonup> int) \<Rightarrow> int \<Rightarrow> int \<Rightarrow> string list \<times> (string \<rightharpoonup> int)" where
  "matchPods blockPods alive owned prefixMatchPods pct staleBefore =
     (if owned \<and> length alive \<le> length blockPods then narrowAlive blockPods staleBefore pct alive prefixMatchPods
      else if length blockPods < length alive
      then fold (\<lambda>(pod, accessed) st. if pod \<in> set alive then keepPod staleBefore pct pod accessed st else st)
             blockPods ([], prefixMatchPods)
      else fold (\<lambda>pod st. case map_of blockPods pod of
                            Some accessed \<Rightarrow> keepPod staleBefore pct pod accessed st
                          | None \<Rightarrow> st) alive ([], prefixMatchPods))"

definition podsOf :: "prefixBlock \<Rightarrow> string \<Rightarrow> podTimes" where
  "podsOf block model = (case map_of (modelToPods block) model of Some pods \<Rightarrow> pods | None \<Rightarrow> [])"

definition matchPercent :: "nat \<Rightarrow> nat \<Rightarrow> int" where
  "matchPercent i n = (let pct = int i * 100 div int n in if pct = 0 then 1 else pct)"

fun searchFrom ::
  "(64 word, prefixBlock) lruStore \<Rightarrow> string \<Rightarrow> int \<Rightarrow> nat \<Rightarrow> nat \<Rightarrow> 64 word list \<Rightarrow> string list \<Rightarrow> (string \<rightharpoonup> int) \<Rightarrow>
   (string \<rightharpoonup> int)" where
  "searchFrom store model staleBefore n i [] alive pm = pm"
| "searchFrom store model staleBefore n i (prefixHash # hs) alive pm =
     (case Get prefixHash store of
        None \<Rightarrow> pm
      | Some block \<Rightarrow>
          (let blockPods = podsOf block model
           in if blockPods = [] then pm
              else let (alive', pm') = matchPods blockPods alive (0 < i) pm (matchPercent (i + 1) n) staleBefore
                   in if alive' = [] then pm' else searchFrom store model staleBefore n (i + 1) hs alive' pm'))"

definition seqSearchPrefix ::
  "prefixConfig \<Rightarrow> int \<Rightarrow> 64 word list \<Rightarrow> string \<Rightarrow> string list \<Rightarrow> prefixHashTable \<Rightarrow> (string \<rightharpoonup> int) \<times> 64 word list" where
  "seqSearchPrefix cfg now prefixHashes model readyPods c =
     (searchFrom (tblStore c) model (now - prefixCacheEvictionDuration cfg) (length prefixHashes) 0 prefixHashes readyPods
        (\<lambda>_. None), prefixHashes)"

definition MatchPrefix ::
  "(64 word \<Rightarrow> string \<Rightarrow> 64 word) \<Rightarrow> prefixConfig \<Rightarrow> int \<Rightarrow> string \<Rightarrow> string \<Rightarrow> string list \<Rightarrow> prefixHashTable \<Rightarrow>
   (string \<rightharpoonup> int) \<times> 64 word list" where
  "MatchPrefix digest cfg now tokens model readyPods c =
     seqSearchPrefix cfg now (getPrefixHashes digest cfg (tblSeed c) tokens) model readyPods c"

section \<open>Recording where a prompt went\<close>

definition formatUint :: "64 word \<Rightarrow> string" where
  "formatUint w = digits (unat w)"

definition markDirty :: "64 word \<Rightarrow> prefixHashTable \<Rightarrow> prefixHashTable" where
  "markDirty prefixHash c =
     (case dirtyIds c of
        None \<Rightarrow> c
      | Some ids \<Rightarrow> c\<lparr>dirtySeq := dirtySeq c + 1,
                      dirtyIds := Some (AList.update (formatUint prefixHash) (dirtySeq c + 1) ids)\<rparr>)"

definition routedBlock :: "int \<Rightarrow> int \<Rightarrow> string \<Rightarrow> string \<Rightarrow> prefixBlock option \<Rightarrow> prefixBlock" where
  "routedBlock now staleBefore model pod found =
     (case found of
        None \<Rightarrow> \<lparr>modelToPods = [(model, [(pod, now)])]\<rparr>
      | Some block \<Rightarrow>
          (let blockPods = filter (\<lambda>(p, accessed). \<not> accessed < staleBefore) (podsOf block model)
           in block\<lparr>modelToPods := AList.update model (AList.update pod now blockPods) (modelToPods block)\<rparr>))"

fun addBlocks ::
  "int \<Rightarrow> int \<Rightarrow> (nat \<Rightarrow> int) \<Rightarrow> nat \<Rightarrow> 64 word list \<Rightarrow> string \<Rightarrow> string \<Rightarrow> prefixHashTable \<Rightarrow> prefixHashTable" where
  "addBlocks now staleBefore tick i [] model pod c = c"
| "addBlocks now staleBefore tick i (prefixHash # hs) model pod c =
     (let block = routedBlock now staleBefore model pod (Get prefixHash (tblStore c));
          c1 = c\<lparr>tblStore := snd (Put prefixHash block (tick i) (tblStore c))\<rparr>
      in addBlocks now staleBefore tick (i + 1) hs model pod (markDirty prefixHash c1))"

definition AddPrefix ::
  "prefixConfig \<Rightarrow> int \<Rightarrow> (nat \<Rightarrow> int) \<Rightarrow> 64 word list \<Rightarrow> string \<Rightarrow> string \<Rightarrow> prefixHashTable \<Rightarrow> prefixHashTable" where
  "AddPrefix cfg now tick prefixHashes model pod c =
     addBlocks now (now - prefixCacheEvictionDuration cfg) tick 0 prefixHashes model pod c"

definition GetPrefixHashes :: "(64 word \<Rightarrow> string \<Rightarrow> 64 word) \<Rightarrow> prefixConfig \<Rightarrow> string \<Rightarrow> prefixHashTable \<Rightarrow> 64 word list" where
  "GetPrefixHashes digest cfg tokens c = getPrefixHashes digest cfg (tblSeed c) tokens"

definition tableLen :: "prefixHashTable \<Rightarrow> int" where
  "tableLen c = lruLen (tblStore c)"

section \<open>What the table promises\<close>

text \<open>When a pod was last routed a block, as the table knows it, and how many leading blocks of a
  prompt a pod still holds.\<close>

definition accessed :: "prefixHashTable \<Rightarrow> 64 word \<Rightarrow> string \<Rightarrow> string \<Rightarrow> int option" where
  "accessed c h model pod = (case Get h (tblStore c) of None \<Rightarrow> None | Some b \<Rightarrow> map_of (podsOf b model) pod)"

definition holdsBlock :: "prefixHashTable \<Rightarrow> string \<Rightarrow> int \<Rightarrow> string \<Rightarrow> 64 word \<Rightarrow> bool" where
  "holdsBlock c model staleBefore pod h \<longleftrightarrow>
     (case accessed c h model pod of None \<Rightarrow> False | Some t \<Rightarrow> staleBefore \<le> t)"

definition heldBlocks :: "prefixHashTable \<Rightarrow> string \<Rightarrow> int \<Rightarrow> 64 word list \<Rightarrow> string \<Rightarrow> nat" where
  "heldBlocks c model staleBefore hs pod = length (takeWhile (holdsBlock c model staleBefore pod) hs)"

definition blockOk :: "prefixBlock \<Rightarrow> bool" where
  "blockOk b \<longleftrightarrow> distinct (map fst (modelToPods b)) \<and> (\<forall>(model, pods) \<in> set (modelToPods b). distinct (map fst pods))"

definition storeOk :: "(64 word, prefixBlock) lruStore \<Rightarrow> bool" where
  "storeOk s \<longleftrightarrow>
     (\<exists>xs. storeHolds s xs \<and> int (length xs) \<le> capOf s) \<and> 1 \<le> capOf s \<and> (\<forall>h b. Get h s = Some b \<longrightarrow> blockOk b)"

definition tableOk :: "prefixHashTable \<Rightarrow> bool" where
  "tableOk c \<longleftrightarrow>
     storeOk (tblStore c) \<and>
     (\<forall>ids. dirtyIds c = Some ids \<longrightarrow> distinct (map fst ids) \<and> (\<forall>bid \<in> fst ` set ids. bid \<in> range formatUint))"

text \<open>A small table for the examples: a digest, and a prompt routed to one pod.\<close>

definition exDigest :: "64 word \<Rightarrow> string \<Rightarrow> 64 word" where
  "exDigest seed bytes = fold (\<lambda>b acc. acc + word_of_int (of_char b)) bytes seed"

definition exSettings :: prefixConfig where
  "exSettings = prefixSettings (\<lambda>_. [])"

definition exTable :: prefixHashTable where
  "exTable = AddPrefix exSettings 100 (\<lambda>_. 100) (getPrefixHashes exDigest exSettings 7 ''abcdefgh'') ''m'' ''ns/p''
     (NewPrefixHashTable exSettings 7)"

section \<open>Matching\<close>

text \<open>A pod's answer in a block, whichever of the two maps is walked.\<close>

definition freshIn :: "podTimes \<Rightarrow> int \<Rightarrow> string \<Rightarrow> bool" where
  "freshIn blockPods staleBefore pod \<longleftrightarrow> (case map_of blockPods pod of None \<Rightarrow> False | Some t \<Rightarrow> staleBefore \<le> t)"

definition matchedPods :: "string set \<Rightarrow> int \<Rightarrow> (string \<rightharpoonup> int) \<Rightarrow> string list \<times> (string \<rightharpoonup> int) \<Rightarrow> bool" where
  "matchedPods S pct pm r \<longleftrightarrow> set (fst r) = S \<and> snd r = (\<lambda>p. if p \<in> S then Some pct else pm p)"

lemma narrowAlive_matches:
  "matchedPods {p \<in> set alive. freshIn blockPods staleBefore p} pct pm (narrowAlive blockPods staleBefore pct alive pm)"
proof (induction alive arbitrary: pm)
  case (Cons pod pods)
  show ?case
  proof (cases "freshIn blockPods staleBefore pod")
    case True
    obtain al pm' where N: "narrowAlive blockPods staleBefore pct pods (pm(pod \<mapsto> pct)) = (al, pm')" by fastforce
    then have "narrowAlive blockPods staleBefore pct (pod # pods) pm = (pod # al, pm')"
      using True by (auto simp: freshIn_def split: option.splits)
    moreover have "matchedPods {p \<in> set pods. freshIn blockPods staleBefore p} pct (pm(pod \<mapsto> pct)) (al, pm')"
      using Cons.IH [of "pm(pod \<mapsto> pct)"] unfolding N .
    ultimately show ?thesis using True by (auto simp: matchedPods_def fun_eq_iff)
  next
    case False
    then have "narrowAlive blockPods staleBefore pct (pod # pods) pm = narrowAlive blockPods staleBefore pct pods pm"
      by (auto simp: freshIn_def split: option.splits)
    moreover have "{p \<in> set (pod # pods). freshIn blockPods staleBefore p} = {p \<in> set pods. freshIn blockPods staleBefore p}"
      using False by auto
    ultimately show ?thesis using Cons.IH [of pm] by simp
  qed
qed (auto simp: matchedPods_def)

lemma keepPod_matches:
  "matchedPods S pct pm st \<Longrightarrow>
     matchedPods (if t < staleBefore then S else insert pod S) pct pm (keepPod staleBefore pct pod t st)"
  by (auto simp: matchedPods_def keepPod_def fun_eq_iff)

lemma holders_match:
  "distinct (map fst bs) \<Longrightarrow> matchedPods S pct pm st \<Longrightarrow>
     matchedPods (S \<union> {p \<in> set alive. freshIn bs staleBefore p}) pct pm
       (fold (\<lambda>(pod, t) st. if pod \<in> set alive then keepPod staleBefore pct pod t st else st) bs st)"
proof (induction bs arbitrary: S st)
  case (Cons b bs)
  obtain pod t where b: "b = (pod, t)" by (cases b)
  let ?S = "if pod \<in> set alive \<and> \<not> t < staleBefore then insert pod S else S"
  let ?st = "if pod \<in> set alive then keepPod staleBefore pct pod t st else st"
  have m: "matchedPods ?S pct pm ?st" using keepPod_matches [OF Cons.prems(2), of t staleBefore pod] Cons.prems(2) by auto
  have "map_of bs pod = None" using Cons.prems(1) b by (simp add: map_of_eq_None_iff)
  then have "?S \<union> {p \<in> set alive. freshIn bs staleBefore p} = S \<union> {p \<in> set alive. freshIn (b # bs) staleBefore p}"
    by (auto simp: freshIn_def b split: if_splits)
  then show ?case using Cons.IH [OF _ m] Cons.prems(1) by (simp add: b)
qed (simp add: freshIn_def)

lemma alive_match:
  "matchedPods S pct pm st \<Longrightarrow>
     matchedPods (S \<union> {p \<in> set alive. freshIn bs staleBefore p}) pct pm
       (fold (\<lambda>pod st. case map_of bs pod of Some t \<Rightarrow> keepPod staleBefore pct pod t st | None \<Rightarrow> st) alive st)"
proof (induction alive arbitrary: S st)
  case (Cons pod pods)
  let ?S = "if freshIn bs staleBefore pod then insert pod S else S"
  let ?st = "case map_of bs pod of Some t \<Rightarrow> keepPod staleBefore pct pod t st | None \<Rightarrow> st"
  have m: "matchedPods ?S pct pm ?st"
    using Cons.prems keepPod_matches [OF Cons.prems, of _ staleBefore pod]
    by (auto simp: freshIn_def split: option.splits) (metis not_le)+
  have "?S \<union> {p \<in> set pods. freshIn bs staleBefore p} = S \<union> {p \<in> set (pod # pods). freshIn bs staleBefore p}" by auto
  then show ?case using Cons.IH [OF m] by (simp del: set_simps)
qed simp

lemma matchPods_matches:
  assumes "distinct (map fst bs)"
  shows "matchedPods {p \<in> set alive. freshIn bs staleBefore p} pct pm (matchPods bs alive owned pm pct staleBefore)"
proof -
  have "matchedPods {} pct pm ([], pm)" by (simp add: matchedPods_def)
  then show ?thesis
    using narrowAlive_matches holders_match [OF assms, of "{}" pct pm "([], pm)" alive staleBefore]
      alive_match [of "{}" pct pm "([], pm)" alive bs staleBefore]
    by (simp add: matchPods_def)
qed

lemma podsOf_distinct: "blockOk b \<Longrightarrow> distinct (map fst (podsOf b model))"
  by (auto simp: podsOf_def blockOk_def split: option.split dest: map_of_SomeD)

lemma searchFrom_run:
  assumes ok: "\<And>h b. Get h (tblStore c) = Some b \<Longrightarrow> blockOk b"
  shows "searchFrom (tblStore c) model sb n i hs alive pm p =
           (let k = heldBlocks c model sb hs p
            in if p \<in> set alive \<and> 0 < k then Some (matchPercent (i + k) n) else pm p)"
proof (induction hs arbitrary: i alive pm)
  case (Cons h hs)
  show ?case
  proof (cases "Get h (tblStore c)")
    case None
    then show ?thesis by (simp add: heldBlocks_def holdsBlock_def accessed_def)
  next
    case (Some b)
    let ?bp = "podsOf b model"
    have hb: "holdsBlock c model sb q h = freshIn ?bp sb q" for q
      by (simp add: holdsBlock_def accessed_def freshIn_def Some)
    let ?r = "matchPods ?bp alive (0 < i) pm (matchPercent (i + 1) n) sb"
    have m: "set (fst ?r) = {q \<in> set alive. freshIn ?bp sb q}"
      "snd ?r = (\<lambda>q. if q \<in> set alive \<and> freshIn ?bp sb q then Some (matchPercent (i + 1) n) else pm q)"
      using matchPods_matches [OF podsOf_distinct [OF ok [OF Some]], where alive = alive and staleBefore = sb and pm = pm
          and owned = "0 < i" and pct = "matchPercent (i + 1) n"] by (auto simp: matchedPods_def)
    have "?bp = [] \<Longrightarrow> \<not> freshIn ?bp sb p" by (simp add: freshIn_def)
    moreover have "fst ?r = [] \<Longrightarrow> \<not> (p \<in> set alive \<and> freshIn ?bp sb p)" using m(1) by auto
    ultimately show ?thesis
      using Cons.IH [of "i + 1" "fst ?r" "snd ?r"] m hb
      by (auto simp: Some heldBlocks_def Let_def case_prod_unfold)
  qed
qed (simp add: heldBlocks_def)

section \<open>Hashes\<close>

lemma blockHashes_step:
  "0 < bs \<Longrightarrow> bs \<le> length tokens \<Longrightarrow>
     blockHashes digest bs seed parent tokens =
       digest seed (putUint64 parent @ take bs tokens) #
       blockHashes digest bs seed (digest seed (putUint64 parent @ take bs tokens)) (drop bs tokens)"
  by (subst blockHashes.simps) (simp add: Let_def)

lemma blockHashes_length:
  "0 < bs \<Longrightarrow> length (blockHashes digest bs seed parent tokens) = length tokens div bs"
proof (induction digest bs seed parent tokens rule: blockHashes.induct)
  case (1 digest bs seed parent tokens)
  show ?case
  proof (cases "length tokens < bs")
    case True
    then show ?thesis by (simp add: blockHashes.simps)
  next
    case False
    then show ?thesis using 1 by (simp add: blockHashes_step le_div_geq)
  qed
qed

lemma blockHashes_common:
  "0 < bs \<Longrightarrow> m * bs \<le> length a \<Longrightarrow> m * bs \<le> length b \<Longrightarrow> take (m * bs) a = take (m * bs) b \<Longrightarrow>
     take m (blockHashes digest bs seed parent a) = take m (blockHashes digest bs seed parent b)"
proof (induction m arbitrary: a b parent)
  case (Suc m)
  have s: "take bs a = take bs b" using arg_cong [OF Suc.prems(4), of "take bs"] by (simp add: min_def)
  have "take (m * bs) (drop bs a) = take (m * bs) (drop bs b)"
    using arg_cong [OF Suc.prems(4), of "drop bs"] by (simp add: drop_take)
  then show ?case
    using Suc.IH [of "drop bs a" "drop bs b"] Suc.prems s by (simp add: blockHashes_step)
qed simp

lemma prefixHashes_length:
  "0 < prefixCacheBlockSize cfg \<Longrightarrow>
     length (getPrefixHashes digest cfg seed tokens) = length tokens div nat (prefixCacheBlockSize cfg)"
  by (simp add: getPrefixHashes_def blockHashes_length)

section \<open>The table stays well formed\<close>

lemma set_AList_update: "set (AList.update k v xs) \<subseteq> insert (k, v) (set xs)"
  by (induction xs) auto

lemma podsOf_update:
  "podsOf (b\<lparr>modelToPods := AList.update m ps (modelToPods b)\<rparr>) m' = (if m' = m then ps else podsOf b m')"
  by (simp add: podsOf_def update_conv)

lemma blockOk_update:
  "blockOk b \<Longrightarrow> distinct (map fst ps) \<Longrightarrow> blockOk (b\<lparr>modelToPods := AList.update m ps (modelToPods b)\<rparr>)"
  using set_AList_update [of m ps "modelToPods b"] by (fastforce simp: blockOk_def distinct_update)

lemma routedBlock_ok: "(\<And>b. found = Some b \<Longrightarrow> blockOk b) \<Longrightarrow> blockOk (routedBlock now sb model pod found)"
  using podsOf_distinct [of _ model]
  by (auto simp: routedBlock_def Let_def blockOk_update distinct_update distinct_map_filter split: option.split)
    (simp add: blockOk_def)

lemma routedBlock_time: "map_of (podsOf (routedBlock now sb model pod found) model) pod = Some now"
  by (cases found) (simp_all add: routedBlock_def Let_def podsOf_update update_conv, simp add: podsOf_def)

lemma recencyPut_bounded:
  "1 \<le> cap \<Longrightarrow> int (length xs) \<le> cap \<Longrightarrow> int (length (snd (recencyPut cap k v now xs))) \<le> cap"
proof (cases "k \<in> fst ` set xs")
  case True
  assume c: "int (length xs) \<le> cap"
  have "length (filter (\<lambda>x. fst x \<noteq> k) xs) < length xs" using True by (auto intro!: length_filter_less)
  then show ?thesis using True c by (simp add: recencyPut_def Let_def)
next
  case False
  assume "int (length xs) \<le> cap"
  moreover have "filter (\<lambda>x. fst x \<noteq> k) xs = xs" using False by (auto simp: filter_id_conv)
  ultimately show ?thesis using False by (simp add: recencyPut_def Let_def)
qed

lemma storeOk_put:
  assumes "storeOk s" and "blockOk b"
  shows "storeOk (snd (Put h b t s))"
proof -
  obtain xs where xs: "storeHolds s xs" "int (length xs) \<le> capOf s" "1 \<le> capOf s" using assms(1) by (auto simp: storeOk_def)
  have "blockOk b'" if "Get k (snd (Put h b t s)) = Some b'" for k b'
  proof (cases "k = h")
    case True
    then show ?thesis using that lru.get_put_same [OF xs(1,3)] assms(2) by simp
  next
    case False
    then show ?thesis using that lru.get_put_other [OF xs(1) False, of b t] assms(1) by (auto simp: storeOk_def)
  qed
  moreover have "storeHolds (snd (Put h b t s)) (snd (recencyPut (capOf s) h b t xs))" using lru.put_law [OF xs(1)] by simp
  moreover have "capOf (snd (Put h b t s)) = capOf s" by (rule lru.bound_put)
  ultimately show ?thesis unfolding storeOk_def using xs(3) recencyPut_bounded [OF xs(3,2), of h b t] by auto
qed

lemma storeOk_evict: "storeOk s \<Longrightarrow> storeOk (evict now order s)"
proof -
  assume s: "storeOk s"
  let ?ks = "filter (\<lambda>k. case map_of (freeTable s) k of Some e \<Rightarrow> expired now s e | None \<Rightarrow> False) order"
  obtain xs where xs: "storeHolds s xs" "int (length xs) \<le> capOf s" "1 \<le> capOf s" using s by (auto simp: storeOk_def)
  let ?P = "\<lambda>(k, v, t). \<not> (k \<in> set ?ks \<and> now - t > ttlOf s)"
  have e: "storeHolds (evict now order s) (filter ?P xs)" "capOf (evict now order s) = capOf s"
    using evictKeys_law [OF xs(1), of now ?ks] by (simp_all add: evict_def)
  have "map_of (filter ?P xs) k = Some v \<Longrightarrow> map_of xs k = Some v" for k v
    using lru.keys_distinct [OF xs(1)] lru.keys_distinct [OF e(1)] by (auto simp: map_of_eq_Some_iff)
  then have "Get k (evict now order s) = Some b \<Longrightarrow> Get k s = Some b" for k b
    using lru.get_law [OF xs(1)] lru.get_law [OF e(1)] by (auto simp: recencyGet_def)
  moreover have "int (length (filter ?P xs)) \<le> capOf s" using xs(2) length_filter_le [of ?P xs] by linarith
  moreover have "\<forall>k b. Get k s = Some b \<longrightarrow> blockOk b" using s by (simp add: storeOk_def)
  ultimately show ?thesis unfolding storeOk_def e(2) using e(1) xs(3) by blast
qed

lemma markDirty_store [simp]: "tblStore (markDirty h c) = tblStore c"
  by (simp add: markDirty_def split: option.split)

lemma tableOk_dirty: "tableOk c \<Longrightarrow> tableOk (markDirty h c)"
  using set_AList_update [of "formatUint h" "dirtySeq c + 1"]
  by (fastforce simp: tableOk_def markDirty_def distinct_update split: option.split)

lemma tableOk_store: "tableOk c \<Longrightarrow> storeOk s \<Longrightarrow> tableOk (c\<lparr>tblStore := s\<rparr>)"
  by (simp add: tableOk_def)

lemma tableOk_add: "tableOk c \<Longrightarrow> tableOk (addBlocks now sb tick i hs model pod c)"
proof (induction hs arbitrary: i c)
  case (Cons h hs)
  have s: "storeOk (tblStore c)" using Cons.prems by (simp add: tableOk_def)
  then have "blockOk (routedBlock now sb model pod (Get h (tblStore c)))" by (intro routedBlock_ok) (simp add: storeOk_def)
  then show ?case
    using Cons.IH tableOk_dirty [OF tableOk_store [OF Cons.prems storeOk_put [OF s]]] by (simp add: Let_def)
qed simp

section \<open>Routed blocks are found again\<close>

lemma addBlocks_seed [simp]: "tblSeed (addBlocks now sb tick i hs model pod c) = tblSeed c"
  by (induction hs arbitrary: i c) (auto simp: Let_def markDirty_def split: option.split)

lemma add_accessed:
  assumes "storeHolds (tblStore c) xs" and "recentKeys xs K" and "int (card (K \<union> set hs)) \<le> capOf (tblStore c)"
    and "1 \<le> capOf (tblStore c)" and "finite K" and "\<And>h. h \<in> K \<Longrightarrow> accessed c h model pod = Some now"
    and "h \<in> K \<union> set hs"
  shows "accessed (addBlocks now sb tick i hs model pod c) h model pod = Some now"
  using assms
proof (induction hs arbitrary: i c xs K)
  case (Cons g hs)
  let ?s = "tblStore c"
  let ?b = "routedBlock now sb model pod (Get g ?s)"
  let ?s' = "snd (Put g ?b (tick i) ?s)"
  let ?c = "markDirty g (c\<lparr>tblStore := ?s'\<rparr>)"
  have "int (card (insert g K)) \<le> capOf ?s"
  proof -
    have "card (insert g K) \<le> card (K \<union> set (g # hs))" using Cons.prems(5) by (intro card_mono) auto
    then show ?thesis using Cons.prems(3) by linarith
  qed
  then obtain ys where ys: "storeHolds ?s' ys" "recentKeys ys (insert g K)" "\<And>j. j \<in> K - {g} \<Longrightarrow> Get j ?s' = Get j ?s"
    using lru.put_recent [OF Cons.prems(1,2), of g ?b "tick i"] by auto
  have cap: "capOf ?s' = capOf ?s" by (rule lru.bound_put)
  have acc: "accessed ?c j model pod = Some now" if "j \<in> insert g K" for j
  proof (cases "j = g")
    case True
    then show ?thesis
      using lru.get_put_same [OF Cons.prems(1,4), of g ?b "tick i"] by (simp add: accessed_def routedBlock_time)
  next
    case False
    then show ?thesis using that ys(3) [of j] Cons.prems(6) [of j] by (simp add: accessed_def)
  qed
  have "accessed (addBlocks now sb tick (i + 1) hs model pod ?c) h model pod = Some now"
    by (rule Cons.IH [where xs = ys and K = "insert g K"]) (use ys cap Cons.prems acc in auto)
  then show ?case by (simp add: Let_def)
qed simp

lemma AddPrefix_accessed:
  assumes "tableOk c" and "int (card (set hs)) \<le> capOf (tblStore c)" and "h \<in> set hs"
  shows "accessed (AddPrefix cfg now tick hs model pod c) h model pod = Some now"
proof -
  obtain xs where "storeHolds (tblStore c) xs" "1 \<le> capOf (tblStore c)" using assms(1) by (auto simp: tableOk_def storeOk_def)
  moreover have "recentKeys xs {}" by (auto simp: recentKeys_def)
  ultimately show ?thesis unfolding AddPrefix_def using assms(2,3) by (intro add_accessed [where K = "{}" and xs = xs]) auto
qed

lemma seqSearch_exact:
  assumes "tableOk c"
  shows "fst (seqSearchPrefix cfg now hs model ready c) p =
           (let k = heldBlocks c model (now - prefixCacheEvictionDuration cfg) hs p
            in if p \<in> set ready \<and> 0 < k then Some (matchPercent k (length hs)) else None)"
  using assms searchFrom_run [of c] by (simp add: seqSearchPrefix_def tableOk_def storeOk_def Let_def)

lemma matchPercent_mono: "0 < n \<Longrightarrow> k \<le> m \<Longrightarrow> matchPercent k n \<le> matchPercent m n"
proof -
  assume a: "0 < n" "k \<le> m"
  have "int k * 100 div int n \<le> int m * 100 div int n" using a by (intro zdiv_mono1) auto
  moreover have "0 \<le> int k * 100 div int n" using a by (simp add: pos_imp_zdiv_nonneg_iff)
  ultimately show ?thesis by (auto simp: matchPercent_def Let_def)
qed

lemma heldBlocks_at_least:
  assumes "m \<le> length hs" and "\<And>h. h \<in> set (take m hs) \<Longrightarrow> holdsBlock c model sb pod h"
  shows "m \<le> heldBlocks c model sb hs pod"
proof -
  have "takeWhile (holdsBlock c model sb pod) (take m hs @ drop m hs) =
          take m hs @ takeWhile (holdsBlock c model sb pod) (drop m hs)"
    using assms(2) by (intro takeWhile_append2) auto
  then show ?thesis using assms(1) by (simp add: heldBlocks_def)
qed

lemma LoadEnvInt_positive: "0 < d \<Longrightarrow> 0 < LoadEnvInt getenv key d"
  by (auto simp: LoadEnvInt_def Let_def split: option.split)

lemma settings_positive: "0 < prefixCacheBlockSize (prefixSettings getenv)" "1 \<le> prefixCacheBlockNumber (prefixSettings getenv)"
  using LoadEnvInt_positive [of 4 getenv] LoadEnvInt_positive [of 200000 getenv "''AIBRIX_PREFIX_CACHE_BLOCK_NUMBER''"]
  by (simp_all add: prefixSettings_def int_one_le_iff_zero_less)

lemma tableOk_new: "1 \<le> prefixCacheBlockNumber cfg \<Longrightarrow> tableOk (NewPrefixHashTable cfg seed)"
  using new_store_holds [of 0 "\<lparr>modelToPods = []\<rparr>" "prefixCacheBlockNumber cfg" "prefixCacheEvictionDuration cfg"]
  by (auto simp: tableOk_def storeOk_def NewPrefixHashTable_def lru.get_law recencyGet_def intro!: exI [of _ "[]"])

lemma matchPercent_range: "0 < k \<Longrightarrow> k \<le> n \<Longrightarrow> 1 \<le> matchPercent k n \<and> matchPercent k n \<le> 100"
proof -
  assume k: "0 < k" "k \<le> n"
  have "int k * 100 div int n \<le> int n * 100 div int n" using k by (intro zdiv_mono1) auto
  moreover have "0 \<le> int k * 100 div int n" using k by (simp add: pos_imp_zdiv_nonneg_iff)
  ultimately show ?thesis using k by (auto simp: matchPercent_def Let_def)
qed

lemma heldBlocks_le: "heldBlocks c model sb hs p \<le> length hs"
  by (simp add: heldBlocks_def length_takeWhile_le)

lemma exTable_ok: "tableOk exTable"
  unfolding exTable_def AddPrefix_def exSettings_def by (intro tableOk_add tableOk_new settings_positive(2))

section \<open>Properties\<close>

text \<open>
  C15. Matching a prompt gives every ready pod exactly the share of the prompt, in percent and at least
  one, that its longest run of leading blocks makes up: the blocks the table says the pod was routed
  within the eviction duration. Pods that do not hold the first block, and pods that are not ready, are
  not listed. Walking the smaller of the two maps, narrowing the set of pods in place and stopping early
  change nothing.
\<close>

theorem match_prefix_is_longest_run:
  assumes "tableOk c"
  shows "(let hs = getPrefixHashes digest cfg (tblSeed c) tokens;
              found = fst (MatchPrefix digest cfg now tokens model ready c);
              k = heldBlocks c model (now - prefixCacheEvictionDuration cfg) hs p
          in found p = (if p \<in> set ready \<and> 0 < k then Some (matchPercent k (length hs)) else None) \<and>
             (case found p of None \<Rightarrow> True | Some pct \<Rightarrow> 1 \<le> pct \<and> pct \<le> 100))"
proof -
  let ?hs = "getPrefixHashes digest cfg (tblSeed c) tokens"
  let ?k = "heldBlocks c model (now - prefixCacheEvictionDuration cfg) ?hs p"
  have f: "fst (MatchPrefix digest cfg now tokens model ready c) p =
      (if p \<in> set ready \<and> 0 < ?k then Some (matchPercent ?k (length ?hs)) else None)"
    using seqSearch_exact [OF assms] by (simp add: MatchPrefix_def Let_def)
  have "0 < ?k \<Longrightarrow> 1 \<le> matchPercent ?k (length ?hs) \<and> matchPercent ?k (length ?hs) \<le> 100"
    by (intro matchPercent_range heldBlocks_le)
  then show ?thesis unfolding Let_def f by simp
qed

theorem match_prefix_is_longest_run_witness:
  "tableOk exTable \<and>
   fst (MatchPrefix exDigest exSettings 200 ''abcdefghijkl'' ''m'' [''ns/p'', ''ns/q''] exTable) ''ns/p'' = Some 66 \<and>
   fst (MatchPrefix exDigest exSettings 200 ''abcdefghijkl'' ''m'' [''ns/p'', ''ns/q''] exTable) ''ns/q'' = None"
proof -
  have k: "heldBlocks exTable ''m'' (200 - prefixCacheEvictionDuration exSettings)
      (getPrefixHashes exDigest exSettings (tblSeed exTable) ''abcdefghijkl'') ''ns/p'' = 2"
    "heldBlocks exTable ''m'' (200 - prefixCacheEvictionDuration exSettings)
      (getPrefixHashes exDigest exSettings (tblSeed exTable) ''abcdefghijkl'') ''ns/q'' = 0"
    "matchPercent 2 (length (getPrefixHashes exDigest exSettings (tblSeed exTable) ''abcdefghijkl'')) = 66"
    by code_simp+
  show ?thesis
    using match_prefix_is_longest_run [OF exTable_ok, where digest = exDigest and cfg = exSettings and tokens = "''abcdefghijkl''"
        and now = 200 and model = "''m''" and ready = "[''ns/p'', ''ns/q'']"] k exTable_ok
    by (auto simp: Let_def)
qed



end
