(* ===== verification/PrefixSync.thy ===== *)
theory PrefixSync
  imports PrefixHash
begin

text \<open>
  The exchange of the index of prompt prefixes between replicas of the gateway
  (\<^verbatim>\<open>src/pkg/utils/prefixcacheindexer/sync.go\<close>). A replica pushes the blocks that changed since its last
  push, named by their hash in decimal, and merges the blocks it receives.

  Arguments of the definitions are what the code calls outside the sources: \<open>marshal\<close> and
  \<open>unmarshal\<close> are \<^verbatim>\<open>encoding/json\<close> on the wire form of a block, and \<open>ended\<close> says whether the context
  has ended by a poll. \<open>deltaSpec\<close> is the contract of the delta: a set of blocks to push and a set of
  blocks offered, with no sequence numbers.
\<close>

section \<open>Exchange with the other replicas\<close>

datatype sync_error = InvalidBlockId string | DecodeFailed | EncodeFailed "64 word" | ContextEnded

type_synonym blockWire = "(string \<times> (string \<times> int) list) list"

definition encodeBlock :: "(blockWire \<Rightarrow> string option) \<Rightarrow> prefixBlock \<Rightarrow> string option" where
  "encodeBlock marshal b = marshal (map (\<lambda>(model, pods). (model, map (\<lambda>(pod, t). (pod, i64 t)) pods)) (modelToPods b))"

definition decodeBlock :: "(string \<Rightarrow> blockWire option) \<Rightarrow> string \<Rightarrow> prefixBlock option" where
  "decodeBlock unmarshal data =
     (case unmarshal data of
        None \<Rightarrow> None
      | Some w \<Rightarrow> Some \<lparr>modelToPods = map (\<lambda>(model, pods). (model, map (\<lambda>(pod, nano). (pod, nano)) pods)) w\<rparr>)"

definition copyBlock :: "prefixBlock \<Rightarrow> prefixBlock" where
  "copyBlock b = \<lparr>modelToPods = map (\<lambda>(model, pods). (model, map (\<lambda>(pod, t). (pod, t)) pods)) (modelToPods b)\<rparr>"

text \<open>The callback of the range: what was collected, the block that could not be encoded, and how
  often the context was polled.\<close>

definition snapshotBlock ::
  "(blockWire \<Rightarrow> string option) \<Rightarrow> (nat \<Rightarrow> bool) \<Rightarrow> 64 word \<Rightarrow> prefixBlock \<Rightarrow>
   (string \<times> string) list \<times> 64 word option \<times> nat \<Rightarrow> bool \<times> (string \<times> string) list \<times> 64 word option \<times> nat" where
  "snapshotBlock marshal ended blockHash block acc =
     (case acc of (out, encodeErr, k) \<Rightarrow>
        if ended k then (False, out, encodeErr, k + 1)
        else case encodeBlock marshal block of
               None \<Rightarrow> (False, out, Some blockHash, k + 1)
             | Some data \<Rightarrow> (True, AList.update (formatUint blockHash) data out, encodeErr, k + 1))"

definition GetSnapshotForSync ::
  "(blockWire \<Rightarrow> string option) \<Rightarrow> (nat \<Rightarrow> bool) \<Rightarrow> prefixHashTable \<Rightarrow> (string \<times> string) list option \<times> sync_error option" where
  "GetSnapshotForSync marshal ended c =
     (case Range (snapshotBlock marshal ended) (tblStore c) ([], None, 0) of
        (out, Some h, k) \<Rightarrow> (None, Some (EncodeFailed h))
      | (out, None, k) \<Rightarrow> (Some out, if ended k then Some ContextEnded else None))"

definition EncodeBlockForSync ::
  "(blockWire \<Rightarrow> string option) \<Rightarrow> 64 word \<Rightarrow> prefixHashTable \<Rightarrow> string option" where
  "EncodeBlockForSync marshal blockHash c =
     (case Get blockHash (tblStore c) of None \<Rightarrow> None | Some block \<Rightarrow> encodeBlock marshal block)"

fun deltaWork :: "(64 word, prefixBlock) lruStore \<Rightarrow> (string \<times> 64 word) list \<Rightarrow> (string \<times> prefixBlock) list" where
  "deltaWork store [] = []"
| "deltaWork store ((bid, _) # ids) =
     (case parseUint64 bid of
        None \<Rightarrow> deltaWork store ids
      | Some n \<Rightarrow> (case Get (word_of_int n) store of
                      None \<Rightarrow> deltaWork store ids
                    | Some block \<Rightarrow> (bid, copyBlock block) # deltaWork store ids))"

fun encodeWork ::
  "(blockWire \<Rightarrow> string option) \<Rightarrow> (nat \<Rightarrow> bool) \<Rightarrow> nat \<Rightarrow> (string \<times> prefixBlock) list \<Rightarrow> (string \<times> string) list \<Rightarrow>
   (string \<times> string) list option \<times> sync_error option" where
  "encodeWork marshal ended k [] updated = (Some updated, None)"
| "encodeWork marshal ended k ((bid, block) # work) updated =
     (if ended k then (None, Some ContextEnded)
      else case encodeBlock marshal block of
             None \<Rightarrow> encodeWork marshal ended (k + 1) work updated
           | Some data \<Rightarrow> encodeWork marshal ended (k + 1) work (AList.update bid data updated))"

definition GetDeltaForSync ::
  "(blockWire \<Rightarrow> string option) \<Rightarrow> (nat \<Rightarrow> bool) \<Rightarrow> prefixHashTable \<Rightarrow>
   ((string \<times> string) list option \<times> sync_error option) \<times> prefixHashTable" where
  "GetDeltaForSync marshal ended c =
     (let c1 = c\<lparr>deltaSeq := dirtySeq c\<rparr>;
          ids = (case dirtyIds c of Some ids \<Rightarrow> ids | None \<Rightarrow> [])
      in if ids = [] then ((None, None), c1)
         else let work = deltaWork (tblStore c) ids
              in if work = [] then ((None, None), c1) else (encodeWork marshal ended 0 work [], c1))"

definition ClearDirtyForSync :: "prefixHashTable \<Rightarrow> prefixHashTable" where
  "ClearDirtyForSync c =
     (let pushed = deltaSeq c
      in c\<lparr>dirtyIds := map_option (filter (\<lambda>(bid, seq). \<not> seq \<le> pushed)) (dirtyIds c)\<rparr>)"

fun mergePods :: "podTimes \<Rightarrow> podTimes \<Rightarrow> podTimes" where
  "mergePods [] existing = existing"
| "mergePods ((pod, t) # pods) existing =
     mergePods pods
       (case map_of existing pod of
          None \<Rightarrow> AList.update pod t existing
        | Some cur \<Rightarrow> if cur < t then AList.update pod t existing else existing)"

fun mergeModels :: "(string \<times> podTimes) list \<Rightarrow> prefixBlock \<Rightarrow> prefixBlock" where
  "mergeModels [] existing = existing"
| "mergeModels ((model, pods) # ms) existing =
     mergeModels ms
       (existing\<lparr>modelToPods := AList.update model (mergePods pods (podsOf existing model)) (modelToPods existing)\<rparr>)"

definition ApplyRemoteForSync ::
  "(string \<Rightarrow> blockWire option) \<Rightarrow> int \<Rightarrow> string \<Rightarrow> string \<Rightarrow> prefixHashTable \<Rightarrow> sync_error option \<times> prefixHashTable" where
  "ApplyRemoteForSync unmarshal at bid data c =
     (case parseUint64 bid of
        None \<Rightarrow> (Some (InvalidBlockId bid), c)
      | Some n \<Rightarrow>
          (let blockHash = word_of_int n
           in case decodeBlock unmarshal data of
                None \<Rightarrow> (Some DecodeFailed, c)
              | Some block \<Rightarrow>
                  (case Get blockHash (tblStore c) of
                     Some existing \<Rightarrow>
                       (None, c\<lparr>tblStore := snd (Put blockHash (mergeModels (modelToPods block) existing) at (tblStore c))\<rparr>)
                   | None \<Rightarrow> (None, c\<lparr>tblStore := snd (Put blockHash block at (tblStore c))\<rparr>))))"

section \<open>Histories of a table\<close>

text \<open>What may happen to a table, in any order: prompts routed, deltas taken, a push that succeeded,
  blocks received, and eviction passes of the store.\<close>

datatype tableOp =
    OpEnable
  | OpAdd int "nat \<Rightarrow> int" "64 word list" string string
  | OpDelta "nat \<Rightarrow> bool"
  | OpClear
  | OpRemote int string string
  | OpEvict int "64 word list"

fun runOp ::
  "prefixConfig \<Rightarrow> (blockWire \<Rightarrow> string option) \<Rightarrow> (string \<Rightarrow> blockWire option) \<Rightarrow> tableOp \<Rightarrow> prefixHashTable \<Rightarrow> prefixHashTable" where
  "runOp cfg marshal unmarshal OpEnable c = EnableDeltaSync c"
| "runOp cfg marshal unmarshal (OpAdd now tick hs model pod) c = AddPrefix cfg now tick hs model pod c"
| "runOp cfg marshal unmarshal (OpDelta ended) c = snd (GetDeltaForSync marshal ended c)"
| "runOp cfg marshal unmarshal OpClear c = ClearDirtyForSync c"
| "runOp cfg marshal unmarshal (OpRemote at bid data) c = snd (ApplyRemoteForSync unmarshal at bid data c)"
| "runOp cfg marshal unmarshal (OpEvict now order) c = c\<lparr>tblStore := evict now order (tblStore c)\<rparr>"

definition runOps ::
  "prefixConfig \<Rightarrow> (blockWire \<Rightarrow> string option) \<Rightarrow> (string \<Rightarrow> blockWire option) \<Rightarrow> tableOp list \<Rightarrow> prefixHashTable \<Rightarrow> prefixHashTable" where
  "runOps cfg marshal unmarshal ops c = fold (runOp cfg marshal unmarshal) ops c"

section \<open>What the exchange promises\<close>

definition newest :: "int option \<Rightarrow> int option \<Rightarrow> int option" where
  "newest a b = (case (a, b) of (None, _) \<Rightarrow> b | (_, None) \<Rightarrow> a | (Some x, Some y) \<Rightarrow> Some (max x y))"

definition wireOk :: "blockWire \<Rightarrow> bool" where
  "wireOk w \<longleftrightarrow> distinct (map fst w) \<and> (\<forall>(model, pods) \<in> set w. distinct (map fst pods))"

text \<open>The contract of the delta: a set of blocks to push, and those of them that the delta taken last
  offered in their current form.\<close>

record deltaSpec =
  toPush :: "64 word set"
  offered :: "64 word set"

fun specOp :: "tableOp \<Rightarrow> deltaSpec \<Rightarrow> deltaSpec" where
  "specOp (OpAdd now tick hs model pod) s = s\<lparr>toPush := toPush s \<union> set hs, offered := offered s - set hs\<rparr>"
| "specOp (OpDelta ended) s = s\<lparr>offered := toPush s\<rparr>"
| "specOp OpClear s = s\<lparr>toPush := toPush s - offered s\<rparr>"
| "specOp _ s = s"

text \<open>How many blocks a history routes.\<close>

fun routedBlocks :: "tableOp list \<Rightarrow> nat" where
  "routedBlocks [] = 0"
| "routedBlocks (OpAdd now tick hs model pod # ops) = length hs + routedBlocks ops"
| "routedBlocks (_ # ops) = routedBlocks ops"

text \<open>The table and the contract agree.\<close>

definition deltaRel :: "prefixHashTable \<Rightarrow> deltaSpec \<Rightarrow> bool" where
  "deltaRel c s \<longleftrightarrow>
     (case dirtyIds c of
        None \<Rightarrow> False
      | Some ids \<Rightarrow>
          distinct (map fst ids) \<and> fst ` set ids = formatUint ` toPush s \<and> deltaSeq c \<le> dirtySeq c \<and>
          (\<forall>h q. map_of ids (formatUint h) = Some q \<longrightarrow> q \<le> dirtySeq c \<and> (q \<le> deltaSeq c \<longleftrightarrow> h \<in> offered s)))"

text \<open>What a delta sends for a block.\<close>

definition sent :: "(string \<times> string) list option \<Rightarrow> 64 word \<Rightarrow> string option" where
  "sent updated h = (case updated of None \<Rightarrow> None | Some u \<Rightarrow> map_of u (formatUint h))"

definition wireTime :: "blockWire \<Rightarrow> string \<Rightarrow> string \<Rightarrow> int option" where
  "wireTime w model pod = (case map_of w model of None \<Rightarrow> None | Some pods \<Rightarrow> map_of pods pod)"

text \<open>Small examples: a block on the wire, a codec for it, and two replicas.\<close>

definition exWire :: blockWire where
  "exWire = [(''m'', [(''ns/p'', 100)])]"

definition exMarshal :: "blockWire \<Rightarrow> string option" where
  "exMarshal w = (if w = exWire then Some ''x'' else None)"

definition exUnmarshal :: "string \<Rightarrow> blockWire option" where
  "exUnmarshal d = (if d = ''x'' then Some exWire else None)"

definition exReplica :: prefixHashTable where
  "exReplica = runOps exSettings exMarshal exUnmarshal [OpEnable, OpAdd 100 (\<lambda>_. 100) [5] ''m'' ''ns/p'']
     (NewPrefixHashTable exSettings 7)"

definition exHistory :: "tableOp list" where
  "exHistory = [OpAdd 100 (\<lambda>_. 100) [5, 6] ''m'' ''ns/p'', OpDelta (\<lambda>_. False), OpAdd 110 (\<lambda>_. 110) [6] ''m'' ''ns/p'',
     OpClear, OpRemote 120 ''9'' ''x'']"

section \<open>Dirty blocks\<close>

lemma parse_format: "parseUint64 (formatUint h) = Some (uint h)"
  using uint_lt2p [of h] by (simp add: parseUint64_def formatUint_def digitsValue_digits)

lemma formatUint_inj: "formatUint g = formatUint h \<longleftrightarrow> g = h"
  by (metis parse_format option.inject word_uint_eq_iff)

lemma unat_next: "unat (w :: 64 word) + 1 < 2 ^ 64 \<Longrightarrow> unat (w + 1) = unat w + 1"
  by (simp add: unat_word_ariths)

lemma deltaRel_mark:
  assumes r: "deltaRel c s" and n: "unat (dirtySeq c) + 1 < 2 ^ 64"
  shows "deltaRel (markDirty h c) (s\<lparr>toPush := insert h (toPush s), offered := offered s - {h}\<rparr>) \<and>
         unat (dirtySeq (markDirty h c)) = unat (dirtySeq c) + 1"
proof -
  obtain ids where ids: "dirtyIds c = Some ids" using r by (auto simp: deltaRel_def split: option.splits)
  have lt: "dirtySeq c < dirtySeq c + 1" using unat_next [OF n] by (simp add: word_less_nat_alt)
  have le: "deltaSeq c \<le> dirtySeq c" using r by (simp add: deltaRel_def ids)
  have "dirtySeq c < q" if "q = dirtySeq c + 1" for q using lt that by simp
  then show ?thesis
    using r unat_next [OF n] lt le
    by (auto simp: deltaRel_def markDirty_def ids update_conv distinct_update dom_update formatUint_inj
        split: if_splits)
      (meson less_imp_le order_trans)
qed

lemma deltaRel_store: "deltaRel (c\<lparr>tblStore := st\<rparr>) s = deltaRel c s"
  by (simp add: deltaRel_def split: option.split)

lemma deltaRel_add:
  "deltaRel c s \<Longrightarrow> unat (dirtySeq c) + length hs < 2 ^ 64 \<Longrightarrow>
     deltaRel (addBlocks now sb tick i hs model pod c) (s\<lparr>toPush := toPush s \<union> set hs, offered := offered s - set hs\<rparr>) \<and>
     unat (dirtySeq (addBlocks now sb tick i hs model pod c)) = unat (dirtySeq c) + length hs"
proof (induction hs arbitrary: i c s)
  case (Cons h hs)
  let ?c = "c\<lparr>tblStore := snd (Put h (routedBlock now sb model pod (Get h (tblStore c))) (tick i) (tblStore c))\<rparr>"
  let ?s = "s\<lparr>toPush := insert h (toPush s), offered := offered s - {h}\<rparr>"
  have "deltaRel ?c s" "unat (dirtySeq ?c) + 1 < 2 ^ 64" using Cons.prems by (simp_all add: deltaRel_store)
  note m' = deltaRel_mark [OF this, of h]
  have m: "deltaRel (markDirty h ?c) ?s" "unat (dirtySeq (markDirty h ?c)) = unat (dirtySeq c) + 1"
    using m' by simp_all
  have o: "offered s - {h} - set hs = offered s - set (h # hs)" by auto
  have s: "?s\<lparr>toPush := toPush ?s \<union> set hs, offered := offered ?s - set hs\<rparr> =
          s\<lparr>toPush := toPush s \<union> set (h # hs), offered := offered s - set (h # hs)\<rparr>" using o by simp
  have "unat (dirtySeq (markDirty h ?c)) + length hs < 2 ^ 64" unfolding m(2) using Cons.prems(2) by simp
  note IH = Cons.IH [OF m(1) this, of "i + 1", unfolded s m(2)]
  have "addBlocks now sb tick i (h # hs) model pod c = addBlocks now sb tick (i + 1) hs model pod (markDirty h ?c)"
    by (simp only: addBlocks.simps Let_def)
  then show ?case using IH by (simp only: list.size add_Suc_right) simp
qed simp

lemma deltaRel_known: "deltaRel c s \<Longrightarrow> dirtyIds c = Some ids \<Longrightarrow> map_of ids (formatUint h) \<noteq> None \<longleftrightarrow> h \<in> toPush s"
  using map_of_eq_None_iff [of ids "formatUint h"] by (auto simp: deltaRel_def formatUint_inj)

lemma deltaRel_taken: "deltaRel c s \<Longrightarrow> deltaRel (c\<lparr>deltaSeq := dirtySeq c\<rparr>) (s\<lparr>offered := toPush s\<rparr>)"
  using deltaRel_known [of c s] by (simp add: deltaRel_def split: option.splits)

lemma map_of_kept:
  "distinct (map fst xs) \<Longrightarrow> map_of (filter (\<lambda>(k, v). P v) xs) k = Some v \<longleftrightarrow> map_of xs k = Some v \<and> P v"
  by (simp add: map_of_eq_Some_iff distinct_map_filter)

lemma key_iff_map_of: "k \<in> fst ` set xs \<longleftrightarrow> (\<exists>v. map_of xs k = Some v)"
  using map_of_eq_None_iff [of xs k] by (cases "map_of xs k") simp_all

lemma deltaRel_clear: "deltaRel c s \<Longrightarrow> deltaRel (ClearDirtyForSync c) (s\<lparr>toPush := toPush s - offered s\<rparr>)"
proof -
  assume r: "deltaRel c s"
  then obtain ids where ids: "dirtyIds c = Some ids" by (auto simp: deltaRel_def split: option.splits)
  let ?ids = "filter (\<lambda>(bid, seq). \<not> seq \<le> deltaSeq c) ids"
  have d: "distinct (map fst ids)" and keys: "fst ` set ids = formatUint ` toPush s" and le: "deltaSeq c \<le> dirtySeq c"
    and q: "\<forall>h q. map_of ids (formatUint h) = Some q \<longrightarrow> q \<le> dirtySeq c \<and> (q \<le> deltaSeq c \<longleftrightarrow> h \<in> offered s)"
    using r unfolding deltaRel_def ids option.case by blast+
  note m = map_of_kept [OF d, of "\<lambda>seq. \<not> seq \<le> deltaSeq c"]
  have f: "formatUint h \<in> fst ` set ?ids \<longleftrightarrow> h \<in> toPush s - offered s" for h
  proof -
    have "formatUint h \<in> fst ` set ?ids \<longleftrightarrow> formatUint h \<in> fst ` set ids \<and> h \<notin> offered s"
      unfolding key_iff_map_of m using q by blast
    then show ?thesis unfolding keys by (auto simp: formatUint_inj)
  qed
  have "fst ` set ?ids \<subseteq> fst ` set ids" by (intro image_mono filter_is_subset)
  then have g: "fst ` set ?ids \<subseteq> range formatUint" unfolding keys by (rule subset_trans) (rule image_mono [OF subset_UNIV])
  have "fst ` set ?ids = formatUint ` (toPush s - offered s)"
  proof (intro set_eqI iffI)
    fix x assume x: "x \<in> fst ` set ?ids"
    then obtain h where "x = formatUint h" using g by (auto dest: subsetD)
    then show "x \<in> formatUint ` (toPush s - offered s)" using x f [of h] by simp
  next
    fix x assume "x \<in> formatUint ` (toPush s - offered s)"
    then obtain h where "x = formatUint h" "h \<in> toPush s - offered s" by auto
    then show "x \<in> fst ` set ?ids" using f [of h] by simp
  qed
  moreover have "\<forall>h q. map_of ?ids (formatUint h) = Some q \<longrightarrow> q \<le> dirtySeq c \<and> (q \<le> deltaSeq c \<longleftrightarrow> h \<in> offered s)"
    unfolding m using q by blast
  moreover have "distinct (map fst ?ids)" using d by (rule distinct_map_filter)
  moreover have c': "dirtyIds (ClearDirtyForSync c) = Some ?ids" "deltaSeq (ClearDirtyForSync c) = deltaSeq c"
    "dirtySeq (ClearDirtyForSync c) = dirtySeq c" by (simp_all add: ClearDirtyForSync_def ids Let_def)
  moreover have s': "toPush (s\<lparr>toPush := toPush s - offered s\<rparr>) = toPush s - offered s"
    "offered (s\<lparr>toPush := toPush s - offered s\<rparr>) = offered s" by simp_all
  ultimately show ?thesis unfolding deltaRel_def c' s' option.case using le by blast
qed

lemma deltaRel_op:
  assumes "deltaRel c s" and "unat (dirtySeq c) + routedBlocks (op # ops) < 2 ^ 64"
  shows "deltaRel (runOp cfg marshal unmarshal op c) (specOp op s) \<and>
         unat (dirtySeq (runOp cfg marshal unmarshal op c)) + routedBlocks ops = unat (dirtySeq c) + routedBlocks (op # ops)"
proof (cases op)
  case OpEnable
  then show ?thesis using assms(1) by (auto simp: deltaRel_def EnableDeltaSync_def split: option.splits)
next
  case (OpAdd now tick hs model pod)
  then show ?thesis using assms deltaRel_add [OF assms(1), of hs] by (simp add: AddPrefix_def)
next
  case (OpDelta ended)
  then show ?thesis using deltaRel_taken [OF assms(1)] by (simp add: GetDeltaForSync_def Let_def)
next
  case OpClear
  then show ?thesis using deltaRel_clear [OF assms(1)] by (simp add: ClearDirtyForSync_def Let_def)
next
  case (OpRemote at bid data)
  then show ?thesis using assms(1) by (simp add: ApplyRemoteForSync_def Let_def deltaRel_store split: option.split)
next
  case (OpEvict now order)
  then show ?thesis using assms(1) by (simp add: deltaRel_store)
qed

lemma deltaRel_ops:
  "deltaRel c s \<Longrightarrow> unat (dirtySeq c) + routedBlocks ops < 2 ^ 64 \<Longrightarrow>
     deltaRel (runOps cfg marshal unmarshal ops c) (fold specOp ops s)"
proof (induction ops arbitrary: c s)
  case (Cons op ops)
  then show ?case using deltaRel_op [of c s op ops cfg marshal unmarshal] by (simp add: runOps_def)
qed (simp add: runOps_def)

lemma deltaRel_new: "deltaRel (EnableDeltaSync (NewPrefixHashTable cfg seed)) \<lparr>toPush = {}, offered = {}\<rparr>"
  by (simp add: deltaRel_def EnableDeltaSync_def NewPrefixHashTable_def)

section \<open>What a delta sends\<close>

lemma copyBlock_same [simp]: "copyBlock b = b"
  by (simp add: copyBlock_def case_prod_beta)

lemma deltaWork_keys: "fst ` set (deltaWork store ids) \<subseteq> fst ` set ids"
proof (induction ids)
  case (Cons x ids)
  then show ?case by (cases x) (auto split: option.split)
qed simp

lemma deltaWork_distinct: "distinct (map fst ids) \<Longrightarrow> distinct (map fst (deltaWork store ids))"
proof (induction store ids rule: deltaWork.induct)
  case (2 store bid q ids)
  then show ?case using deltaWork_keys [of store ids] by (auto split: option.split)
qed simp

lemma deltaWork_block:
  "map_of (deltaWork store ids) (formatUint h) =
     (if formatUint h \<in> fst ` set ids then Get h store else None)"
proof (induction store ids rule: deltaWork.induct)
  case (2 store bid q ids)
  show ?case
  proof (cases "bid = formatUint h")
    case True
    moreover have "parseUint64 bid = Some (uint h)" using True by (simp add: parse_format)
    moreover have "Get h store = None \<Longrightarrow> map_of (deltaWork store ids) (formatUint h) = None"
      using 2 \<open>parseUint64 bid = Some (uint h)\<close> by (simp split: if_splits)
    ultimately show ?thesis by (auto split: option.split)
  next
    case False
    then show ?thesis using 2 by (auto split: option.splits)
  qed
qed simp

lemma encodeWork_encodes:
  "distinct (map fst work) \<Longrightarrow> encodeWork marshal ended k work u = (upd, None) \<Longrightarrow>
     (case upd of
        None \<Rightarrow> False
      | Some u' \<Rightarrow>
          (distinct (map fst u) \<longrightarrow> distinct (map fst u')) \<and>
          map_of u' = (\<lambda>bid. case map_of work bid of
                              None \<Rightarrow> map_of u bid
                            | Some b \<Rightarrow> (case encodeBlock marshal b of None \<Rightarrow> map_of u bid | Some d \<Rightarrow> Some d)))"
proof (induction work arbitrary: k u)
  case Nil
  then show ?case by auto
next
  case (Cons w work)
  obtain bid b where w: "w = (bid, b)" by (cases w)
  have n: "map_of work bid = None" and d: "distinct (map fst work)" using Cons.prems w by (simp_all add: map_of_eq_None_iff)
  show ?case
  proof (cases "encodeBlock marshal b")
    case None
    then have "encodeWork marshal ended (k + 1) work u = (upd, None)" using Cons.prems(2) w by (simp split: if_splits)
    from Cons.IH [OF d this] show ?thesis using None n w by (auto simp: fun_eq_iff split: option.splits)
  next
    case (Some data)
    then have "encodeWork marshal ended (k + 1) work (AList.update bid data u) = (upd, None)"
      using Cons.prems(2) w by (simp split: if_splits)
    from Cons.IH [OF d this] show ?thesis
      using Some n w by (auto simp: fun_eq_iff update_conv distinct_update split: option.splits)
  qed
qed

lemma encodeWork_never_ended: "snd (encodeWork marshal (\<lambda>_. False) k work u) = None"
  by (induction work arbitrary: k u) (auto split: option.split)

lemma delta_never_ended: "snd (fst (GetDeltaForSync marshal (\<lambda>_. False) c)) = None"
  by (simp add: GetDeltaForSync_def Let_def encodeWork_never_ended)

text \<open>A delta that was taken without an error, whatever its context.\<close>

lemma delta_taken:
  assumes "distinct (map fst ids)" and "dirtyIds c = Some ids" and "fst (GetDeltaForSync marshal ended c) = (upd, None)"
  shows "sent upd h = (if formatUint h \<in> fst ` set ids then Option.bind (Get h (tblStore c)) (encodeBlock marshal) else None)"
    and "upd = Some u \<Longrightarrow> distinct (map fst u)"
proof -
  note w = deltaWork_block [of "tblStore c" ids h]
  show "sent upd h = (if formatUint h \<in> fst ` set ids then Option.bind (Get h (tblStore c)) (encodeBlock marshal) else None)"
  proof (cases "deltaWork (tblStore c) ids = []")
    case True
    then have "upd = None" and "(if formatUint h \<in> fst ` set ids then Get h (tblStore c) else None) = None"
      using w assms(2,3) by (auto simp: GetDeltaForSync_def Let_def split: if_splits)
    then show ?thesis by (simp add: sent_def split: if_splits)
  next
    case False
    then have "encodeWork marshal ended 0 (deltaWork (tblStore c) ids) [] = (upd, None)"
      using assms(2,3) by (auto simp: GetDeltaForSync_def Let_def split: if_splits)
    from encodeWork_encodes [OF deltaWork_distinct [OF assms(1)] this] show ?thesis
      by (cases upd) (simp_all add: sent_def w split: option.split)
  qed
  show "distinct (map fst u)" if "upd = Some u"
  proof (cases "ids = [] \<or> deltaWork (tblStore c) ids = []")
    case True
    then show ?thesis using assms(2,3) that by (auto simp: GetDeltaForSync_def Let_def split: if_splits)
  next
    case False
    then have "encodeWork marshal ended 0 (deltaWork (tblStore c) ids) [] = (Some u, None)"
      using assms(2,3) that by (auto simp: GetDeltaForSync_def Let_def)
    from encodeWork_encodes [OF deltaWork_distinct [OF assms(1)] this] show ?thesis by simp
  qed
qed

lemma delta_sends:
  assumes "distinct (map fst ids)" and "dirtyIds c = Some ids"
  shows "sent (fst (fst (GetDeltaForSync marshal (\<lambda>_. False) c))) h =
           (if formatUint h \<in> fst ` set ids then Option.bind (Get h (tblStore c)) (encodeBlock marshal) else None)"
  using delta_taken(1) [OF assms, of marshal "\<lambda>_. False"] delta_never_ended [of marshal c] by (metis prod.collapse)

section \<open>Merging\<close>

lemma newest_simps [simp]: "newest None b = b" "newest a None = a" "newest (Some x) (Some y) = Some (max x y)"
  by (simp_all add: newest_def split: option.split)

lemma mergePods_distinct: "distinct (map fst ex) \<Longrightarrow> distinct (map fst (mergePods pods ex))"
  by (induction pods ex rule: mergePods.induct) (auto simp: distinct_update split: option.split)

lemma mergePods_newest:
  "distinct (map fst pods) \<Longrightarrow> map_of (mergePods pods ex) p = newest (map_of ex p) (map_of pods p)"
proof (induction pods ex rule: mergePods.induct)
  case (2 pod t pods ex)
  have "map_of pods pod = None" using 2(2) by (simp add: map_of_eq_None_iff)
  then show ?case using 2 by (auto simp: update_conv split: option.split)
qed simp

lemma mergeModels_ok: "blockOk ex \<Longrightarrow> blockOk (mergeModels ms ex)"
  by (induction ms ex rule: mergeModels.induct) (auto intro!: blockOk_update mergePods_distinct podsOf_distinct)

lemma mergeModels_newest:
  "wireOk ms \<Longrightarrow>
     map_of (podsOf (mergeModels ms ex) m) p = newest (map_of (podsOf ex m) p) (wireTime ms m p)"
proof (induction ms ex rule: mergeModels.induct)
  case (2 model pods ms ex)
  have "wireOk ms" and d: "distinct (map fst pods)" and n: "map_of ms model = None"
    using 2(2) by (auto simp: wireOk_def map_of_eq_None_iff)
  note IH = 2(1) [OF this(1)]
  show ?case
  proof (cases "m = model")
    case True
    then show ?thesis using IH n by (simp add: podsOf_update mergePods_newest [OF d] wireTime_def)
  next
    case False
    then show ?thesis using IH by (simp add: podsOf_update wireTime_def)
  qed
qed (simp add: wireTime_def)

lemma decodeBlock_pods: "decodeBlock unmarshal data = map_option (\<lambda>w. \<lparr>modelToPods = w\<rparr>) (unmarshal data)"
  by (simp add: decodeBlock_def case_prod_beta split: option.split)

lemma fresh_block_times: "map_of (podsOf \<lparr>modelToPods = w\<rparr> m) p = wireTime w m p"
  by (simp add: podsOf_def wireTime_def split: option.split)

lemma apply_remote:
  assumes c: "tableOk c" and u: "unmarshal data = Some w" and w: "wireOk w" and n: "parseUint64 bid = Some n"
  defines "h \<equiv> word_of_int n :: 64 word"
  shows "fst (ApplyRemoteForSync unmarshal at bid data c) = None"
    and "tableOk (snd (ApplyRemoteForSync unmarshal at bid data c))"
    and "accessed (snd (ApplyRemoteForSync unmarshal at bid data c)) h m p = newest (accessed c h m p) (wireTime w m p)"
    and "g \<noteq> h \<Longrightarrow> accessed (snd (ApplyRemoteForSync unmarshal at bid data c)) g m p \<in> {accessed c g m p, None}"
proof -
  let ?b = "case Get h (tblStore c) of Some ex \<Rightarrow> mergeModels w ex | None \<Rightarrow> \<lparr>modelToPods = w\<rparr>"
  have eq: "ApplyRemoteForSync unmarshal at bid data c =
      (None, c\<lparr>tblStore := snd (Put h ?b at (tblStore c))\<rparr>)"
    using u n by (simp add: h_def ApplyRemoteForSync_def decodeBlock_pods split: option.split)
  have s: "storeOk (tblStore c)" using c by (simp add: tableOk_def)
  then obtain xs where xs: "storeHolds (tblStore c) xs" "1 \<le> capOf (tblStore c)" by (auto simp: storeOk_def)
  have "blockOk ?b"
  proof (cases "Get h (tblStore c)")
    case None
    then show ?thesis using w by (simp add: blockOk_def wireOk_def)
  next
    case (Some ex)
    then have "blockOk ex" using s by (simp add: storeOk_def)
    then show ?thesis using Some mergeModels_ok by simp
  qed
  then show "tableOk (snd (ApplyRemoteForSync unmarshal at bid data c))"
    using tableOk_store [OF c storeOk_put [OF s]] by (simp add: eq)
  show "fst (ApplyRemoteForSync unmarshal at bid data c) = None" by (simp add: eq)
  show "accessed (snd (ApplyRemoteForSync unmarshal at bid data c)) h m p = newest (accessed c h m p) (wireTime w m p)"
    using lru.get_put_same [OF xs, of h ?b at] mergeModels_newest [OF w]
    by (auto simp: eq accessed_def fresh_block_times split: option.split)
  show "accessed (snd (ApplyRemoteForSync unmarshal at bid data c)) g m p \<in> {accessed c g m p, None}" if "g \<noteq> h"
    using lru.get_put_other [OF xs(1) that, of ?b at] by (auto simp: eq accessed_def)
qed

section \<open>Histories keep the table well formed\<close>

lemma storeHolds_len: "storeHolds s xs \<Longrightarrow> lruLen s = int (length xs)"
  by (auto simp: storeHolds_def storeRel_def lruLen_def)

lemma tableOk_len: "tableOk c \<Longrightarrow> tableLen c \<le> capOf (tblStore c)"
  unfolding tableOk_def storeOk_def tableLen_def by (metis storeHolds_len)

lemma tableOk_clear: "tableOk c \<Longrightarrow> tableOk (ClearDirtyForSync c)"
  by (fastforce simp: tableOk_def ClearDirtyForSync_def Let_def distinct_map_filter)

lemma addBlocks_cap: "capOf (tblStore (addBlocks now sb tick i hs model pod c)) = capOf (tblStore c)"
  by (induction hs arbitrary: i c) (simp_all add: Let_def lru.bound_put)

lemma evict_cap: "storeHolds s xs \<Longrightarrow> capOf (evict now order s) = capOf s"
  using evictKeys_law [of s xs] by (simp add: evict_def)

lemma tableOk_remote:
  assumes "tableOk c" and "\<And>d w. unmarshal d = Some w \<Longrightarrow> wireOk w"
  shows "tableOk (snd (ApplyRemoteForSync unmarshal at bid data c))"
proof (cases "parseUint64 bid")
  case None
  then show ?thesis using assms(1) by (simp add: ApplyRemoteForSync_def)
next
  case (Some n)
  show ?thesis
  proof (cases "unmarshal data")
    case None
    then show ?thesis using assms(1) Some by (simp add: ApplyRemoteForSync_def decodeBlock_pods)
  next
    case (Some w)
    show ?thesis
      by (rule apply_remote(2) [where unmarshal = unmarshal and data = data, OF assms(1) Some assms(2) [OF Some] \<open>parseUint64 bid = Some n\<close>])
  qed
qed

lemma remote_cap: "capOf (tblStore (snd (ApplyRemoteForSync unmarshal at bid data c))) = capOf (tblStore c)"
  by (simp add: ApplyRemoteForSync_def Let_def lru.bound_put split: option.split)

lemma tableOk_op:
  assumes c: "tableOk c" and u: "\<And>d w. unmarshal d = Some w \<Longrightarrow> wireOk w"
  shows "tableOk (runOp cfg marshal unmarshal op c) \<and>
         capOf (tblStore (runOp cfg marshal unmarshal op c)) = capOf (tblStore c)"
proof (cases op)
  case OpEnable
  then show ?thesis using c by (simp add: EnableDeltaSync_def tableOk_def split: option.split)
next
  case (OpAdd now tick hs model pod)
  then show ?thesis using tableOk_add [OF c] by (simp add: AddPrefix_def addBlocks_cap)
next
  case (OpDelta ended)
  then show ?thesis using c by (simp add: GetDeltaForSync_def Let_def tableOk_def)
next
  case OpClear
  then show ?thesis using tableOk_clear [OF c] by (simp add: ClearDirtyForSync_def Let_def)
next
  case (OpRemote at bid data)
  then show ?thesis using tableOk_remote [OF c u] by (simp add: remote_cap)
next
  case (OpEvict now order)
  have s: "storeOk (tblStore c)" using c by (simp add: tableOk_def)
  then obtain xs where "storeHolds (tblStore c) xs" by (auto simp: storeOk_def)
  then show ?thesis using OpEvict tableOk_store [OF c storeOk_evict [OF s]] by (simp add: evict_cap)
qed

lemma tableOk_ops:
  assumes "\<And>d w. unmarshal d = Some w \<Longrightarrow> wireOk w"
  shows "tableOk c \<Longrightarrow> tableOk (runOps cfg marshal unmarshal ops c) \<and>
           capOf (tblStore (runOps cfg marshal unmarshal ops c)) = capOf (tblStore c)"
proof (induction ops arbitrary: c)
  case (Cons op ops)
  then show ?case using tableOk_op [OF Cons.prems assms, where cfg = cfg and marshal = marshal and op = op] by (simp add: runOps_def)
qed (simp add: runOps_def)

lemma snapshot_collects:
  assumes "\<And>b. marshal b \<noteq> None" and "distinct (map fst es)"
  shows "case rangeEntries (snapshotBlock marshal (\<lambda>_. False)) h es (out, None, k) of (out', err, k') \<Rightarrow>
           err = None \<and>
           map_of out' = (\<lambda>bid. case map_of (map (\<lambda>(g, e). (formatUint g, e)) es) bid of
                                 None \<Rightarrow> map_of out bid
                               | Some e \<Rightarrow> encodeBlock marshal (entValue h e))"
  using assms(2)
proof (induction es arbitrary: out k)
  case (Cons x es)
  obtain g e where x: "x = (g, e)" by (cases x)
  obtain d where d: "encodeBlock marshal (entValue h e) = Some d" using assms(1) by (auto simp: encodeBlock_def)
  have n: "map_of (map (\<lambda>(g, e). (formatUint g, e)) es) (formatUint g) = None"
    using Cons.prems x by (auto simp: map_of_eq_None_iff formatUint_inj image_iff)
  have step: "rangeEntries (snapshotBlock marshal (\<lambda>_. False)) h (x # es) (out, None, k) =
      rangeEntries (snapshotBlock marshal (\<lambda>_. False)) h es (AList.update (formatUint g) d out, None, k + 1)"
    using d by (simp add: x snapshotBlock_def)
  have "(\<lambda>bid. case map_of (map (\<lambda>(g, e). (formatUint g, e)) es) bid of
                 None \<Rightarrow> map_of (AList.update (formatUint g) d out) bid | Some e \<Rightarrow> encodeBlock marshal (entValue h e)) =
        (\<lambda>bid. case map_of (map (\<lambda>(g, e). (formatUint g, e)) (x # es)) bid of
                 None \<Rightarrow> map_of out bid | Some e \<Rightarrow> encodeBlock marshal (entValue h e))"
    using d n by (auto simp: x fun_eq_iff update_conv split: option.split)
  then show ?case using Cons.IH [of "AList.update (formatUint g) d out" "k + 1"] Cons.prems unfolding step by simp
qed simp

text \<open>A snapshot holds every block of the table, under the decimal form of its hash.\<close>

lemma snapshot_is_complete:
  assumes "tableOk c" and "\<And>b. marshal b \<noteq> None"
  shows "snd (GetSnapshotForSync marshal (\<lambda>_. False) c) = None \<and>
         sent (fst (GetSnapshotForSync marshal (\<lambda>_. False) c)) h = Option.bind (Get h (tblStore c)) (encodeBlock marshal)"
proof -
  let ?es = "freeTable (tblStore c)"
  have d: "distinct (map fst ?es)" using assms(1) by (auto simp: tableOk_def storeOk_def storeHolds_def storeRel_def)
  have "map_of (map (\<lambda>(g, e). (formatUint g, e)) es) (formatUint h) = map_of es h" for es :: "(64 word \<times> addr) list"
    by (induction es) (auto simp: formatUint_inj)
  moreover obtain out err k where
    "rangeEntries (snapshotBlock marshal (\<lambda>_. False)) (heap (tblStore c)) ?es ([], None, 0) = (out, err, k)" by (rule prod_cases3)
  ultimately show ?thesis
    using snapshot_collects [of marshal, OF assms(2) d, where out = "[]" and k = 0 and h = "heap (tblStore c)"]
    by (simp add: GetSnapshotForSync_def Range_def sent_def Get_def split: option.split)
qed

lemma wireOk_encoded:
  "blockOk blk \<Longrightarrow> wireOk (map (\<lambda>(model, pods). (model, map (\<lambda>(pod, t). (pod, f t)) pods)) (modelToPods blk))"
  by (auto simp: blockOk_def wireOk_def comp_def case_prod_beta)

lemma map_of_values: "map_of (map (\<lambda>(k, v). (k, f v)) xs) k = map_option f (map_of xs k)"
  by (induction xs) auto

lemma wireTime_encoded:
  assumes "\<And>m p t. map_of (podsOf blk m) p = Some t \<Longrightarrow> in_i64 t"
  shows "wireTime (map (\<lambda>(model, pods). (model, map (\<lambda>(pod, t). (pod, i64 t)) pods)) (modelToPods blk)) m p =
           map_of (podsOf blk m) p"
proof -
  have "wireTime (map (\<lambda>(model, pods). (model, map (\<lambda>(pod, t). (pod, i64 t)) pods)) (modelToPods blk)) m p =
          map_option i64 (map_of (podsOf blk m) p)"
    by (simp add: wireTime_def podsOf_def map_of_values [of "map (\<lambda>(pod, t). (pod, i64 t))"] map_of_values split: option.split)
  also have "\<dots> = map_of (podsOf blk m) p"
    using assms [of m p] by (cases "map_of (podsOf blk m) p") (simp_all add: wrap_simps)
  finally show ?thesis .
qed

lemma exCodec:
  "exUnmarshal d = Some w \<Longrightarrow> wireOk w"
  "exMarshal w = Some d \<Longrightarrow>
     (case exUnmarshal d of None \<Rightarrow> False | Some w' \<Rightarrow> wireOk w' \<and> (\<forall>m p. wireTime w' m p = wireTime w m p))"
  by (auto simp: exUnmarshal_def exMarshal_def exWire_def wireOk_def split: if_splits)

lemma exReplica_ok: "tableOk exReplica"
  unfolding exReplica_def exSettings_def
  by (rule tableOk_ops [THEN conjunct1, OF _ tableOk_new [OF settings_positive(2)]]) (erule exCodec(1))

lemma exReplica_block: "Get 5 (tblStore exReplica) = Some \<lparr>modelToPods = exWire\<rparr>"
  by code_simp

section \<open>Properties\<close>

text \<open>
  C38. Whatever is done to a table that was set up from the environment, in whatever order - prompts
  routed, deltas taken and pushed, blocks received, eviction passes - it stays well formed: it never
  holds more blocks than it was configured for, every block lists a model once and a pod of a model
  once, and every dirty identifier is listed once and is the decimal form of a block hash, so a delta
  can read it back. A block that cannot be read is refused without touching the table.
\<close>

theorem table_stays_well_formed:
  assumes "\<And>d w. unmarshal d = Some w \<Longrightarrow> wireOk w" and "cfg = prefixSettings getenv"
    and "c = runOps cfg marshal unmarshal ops (NewPrefixHashTable cfg seed)"
  shows "tableLen c \<le> prefixCacheBlockNumber cfg \<and> (\<forall>h b. Get h (tblStore c) = Some b \<longrightarrow> blockOk b) \<and>
         (case dirtyIds c of
            None \<Rightarrow> True
          | Some ids \<Rightarrow> distinct (map fst ids) \<and> (\<forall>bid \<in> fst ` set ids. \<exists>h. bid = formatUint h \<and> parseUint64 bid = Some (uint h))) \<and>
         (\<forall>at bid data. fst (ApplyRemoteForSync unmarshal at bid data c) \<noteq> None \<longrightarrow>
            snd (ApplyRemoteForSync unmarshal at bid data c) = c)"
proof -
  have "tableOk (NewPrefixHashTable cfg seed)" using settings_positive(2) assms(2) by (intro tableOk_new) simp
  then have c: "tableOk c" "capOf (tblStore c) = prefixCacheBlockNumber cfg"
    using tableOk_ops [where unmarshal = unmarshal and cfg = cfg and marshal = marshal and ops = ops, OF assms(1)] assms(3)
    by (simp_all add: NewPrefixHashTable_def)
  have "fst (ApplyRemoteForSync unmarshal at bid data c) \<noteq> None \<longrightarrow> snd (ApplyRemoteForSync unmarshal at bid data c) = c" for at bid data
    by (simp add: ApplyRemoteForSync_def Let_def split: option.split)
  moreover have "case dirtyIds c of None \<Rightarrow> True
      | Some ids \<Rightarrow> distinct (map fst ids) \<and> (\<forall>bid \<in> fst ` set ids. \<exists>h. bid = formatUint h \<and> parseUint64 bid = Some (uint h))"
    using c(1) parse_format unfolding tableOk_def by (cases "dirtyIds c") (simp, fastforce)
  ultimately show ?thesis using tableOk_len [OF c(1)] c by (simp add: tableOk_def storeOk_def)
qed

theorem table_stays_well_formed_witness:
  "tableLen (runOps exSettings exMarshal exUnmarshal exHistory (NewPrefixHashTable exSettings 7)) \<le> prefixCacheBlockNumber exSettings"
  by (rule table_stays_well_formed [THEN conjunct1, OF _ exSettings_def refl]) (erule exCodec(1))

text \<open>
  C14. The sequence numbers of the dirty blocks implement the contract of the delta: after any history
  of fewer than \<open>2\<^sup>6\<^sup>4\<close> routed blocks, the blocks that wait to be pushed are exactly those routed since
  the delta that was taken before the last successful push, and a delta sends each of them that is still
  in the table. A block routed between taking a delta and clearing it is not lost.
\<close>

theorem delta_sync_loses_nothing:
  assumes "routedBlocks ops < 2 ^ 64"
    and "c = runOps cfg marshal unmarshal ops (EnableDeltaSync (NewPrefixHashTable cfg seed))"
    and "s = fold specOp ops \<lparr>toPush = {}, offered = {}\<rparr>"
  shows "map_option (\<lambda>ids. fst ` set ids) (dirtyIds c) = Some (formatUint ` toPush s) \<and>
         sent (fst (fst (GetDeltaForSync marshal (\<lambda>_. False) c))) h =
           (if h \<in> toPush s then Option.bind (Get h (tblStore c)) (encodeBlock marshal) else None)"
proof -
  have "unat (dirtySeq (EnableDeltaSync (NewPrefixHashTable cfg seed))) = 0"
    by (simp add: EnableDeltaSync_def NewPrefixHashTable_def)
  then have r: "deltaRel c s"
    unfolding assms(2,3) by (intro deltaRel_ops deltaRel_new) (simp only: add_0 assms(1))
  then obtain ids where ids: "dirtyIds c = Some ids" by (cases "dirtyIds c") (simp_all add: deltaRel_def)
  then have d: "distinct (map fst ids)" and k: "fst ` set ids = formatUint ` toPush s"
    using r unfolding deltaRel_def ids option.case by blast+
  have "formatUint h \<in> fst ` set ids \<longleftrightarrow> h \<in> toPush s" unfolding k by (auto simp: formatUint_inj)
  then show ?thesis using delta_sends [OF d ids, of marshal h] ids k by simp
qed

theorem delta_sync_loses_nothing_witness:
  "routedBlocks exHistory < 2 ^ 64 \<and>
   map_option (\<lambda>ids. fst ` set ids)
     (dirtyIds (runOps exSettings exMarshal exUnmarshal exHistory (EnableDeltaSync (NewPrefixHashTable exSettings 7)))) =
       Some (formatUint ` {6})"
proof -
  have r: "routedBlocks exHistory < 2 ^ 64" by (simp add: exHistory_def)
  have "toPush (fold specOp exHistory \<lparr>toPush = {}, offered = {}\<rparr>) = {6}" by (auto simp: exHistory_def)
  then show ?thesis using r delta_sync_loses_nothing [OF r refl refl] by simp
qed

text \<open>
  A block that one replica sends in a delta and another receives ends up there with, for every model
  and pod, the newer of the two access times, whichever of the replicas knew it; every other block keeps
  its times or was evicted to make room. Receiving blocks is therefore independent of their order and of
  repetition. The hypothesis on \<open>unmarshal\<close> is that decoding what was encoded gives the same maps.
\<close>

theorem delta_reaches_replica:
  assumes "tableOk a" and "tableOk b" and "dirtyIds a = Some ids"
    and "sent (fst (fst (GetDeltaForSync marshal (\<lambda>_. False) a))) h = Some data"
    and "\<And>w d. wireOk w \<Longrightarrow> marshal w = Some d \<Longrightarrow>
           (case unmarshal d of None \<Rightarrow> False | Some w' \<Rightarrow> wireOk w' \<and> (\<forall>m p. wireTime w' m p = wireTime w m p))"
    and "\<And>m p t. accessed a h m p = Some t \<Longrightarrow> in_i64 t"
  shows "(case ApplyRemoteForSync unmarshal at (formatUint h) data b of (err, b') \<Rightarrow>
            err = None \<and> accessed b' h m p = newest (accessed b h m p) (accessed a h m p) \<and>
            (\<forall>g. g \<noteq> h \<longrightarrow> accessed b' g m p \<in> {accessed b g m p, None}))"
proof -
  have "distinct (map fst ids)" using assms(1,3) by (simp add: tableOk_def)
  then have "Option.bind (Get h (tblStore a)) (encodeBlock marshal) = Some data"
    using delta_sends [OF _ assms(3), of marshal h] assms(4) by (metis option.distinct(1))
  then obtain blk where blk: "Get h (tblStore a) = Some blk" and enc: "encodeBlock marshal blk = Some data"
    unfolding bind_eq_Some_conv by blast
  let ?w = "map (\<lambda>(model, pods). (model, map (\<lambda>(pod, t). (pod, i64 t)) pods)) (modelToPods blk)"
  have "blockOk blk" using assms(1) blk by (simp add: tableOk_def storeOk_def)
  then have "wireOk ?w" by (rule wireOk_encoded)
  then obtain w where w: "unmarshal data = Some w" "wireOk w" "\<And>m p. wireTime w m p = wireTime ?w m p"
    using assms(5) [of ?w data] enc by (auto simp: encodeBlock_def split: option.splits)
  have "wireTime ?w m p = accessed a h m p"
    using wireTime_encoded [of blk] assms(6) blk by (simp add: accessed_def)
  then show ?thesis
    using apply_remote [where unmarshal = unmarshal and data = data, OF assms(2) w(1,2) parse_format [of h], where at = at] w(3)
    by (auto simp: case_prod_beta)
qed

theorem delta_reaches_replica_witness:
  "sent (fst (fst (GetDeltaForSync exMarshal (\<lambda>_. False) exReplica))) 5 = Some ''x'' \<and>
   accessed (snd (ApplyRemoteForSync exUnmarshal 200 (formatUint 5) ''x'' exTable)) 5 ''m'' ''ns/p'' = Some 100"
proof -
  have s: "sent (fst (fst (GetDeltaForSync exMarshal (\<lambda>_. False) exReplica))) 5 = Some ''x''"
    "dirtyIds exReplica = Some [(''5'', 1)]" "accessed exTable 5 ''m'' ''ns/p'' = None" by code_simp+
  have i: "in_i64 t" if "accessed exReplica 5 m p = Some t" for m p t
    using that by (auto simp: accessed_def exReplica_block exWire_def podsOf_def split: if_splits)
  have "accessed exReplica 5 ''m'' ''ns/p'' = Some 100" by (simp add: accessed_def exReplica_block exWire_def podsOf_def)
  then show ?thesis
    using delta_reaches_replica [where unmarshal = exUnmarshal and m = "''m''" and p = "''ns/p''" and at = 200,
        OF exReplica_ok exTable_ok s(2,1) exCodec(2) i] s
    by (simp add: case_prod_beta)
qed

end
