(* ===== verification/RedisSync.thy ===== *)
theory RedisSync
  imports PrefixSync "HOL-Library.Sublist"
begin

text \<open>
  The exchange of state between replicas through Redis
  (\<^verbatim>\<open>src/pkg/plugins/gateway/statesync/redissync.go\<close>, the interfaces of
  \<^verbatim>\<open>src/pkg/utils/syncable/syncable.go\<close>, and the adapter of the prefix index in
  \<^verbatim>\<open>src/pkg/utils/prefixcacheindexer/sync.go\<close>). A replica pulls every entity of a namespace and merges it,
  then pushes what changed; the loop waits between the cycles, longer after an error.

  Redis is an argument: \<open>redisClient\<close> has the calls the code makes, over a state that is not
  interpreted, and \<open>redisServes\<close> is what the code relies on, through a reading of that state as a map
  from keys to values. What other goroutines do to a state while its delta is written is the argument
  \<open>meanwhile\<close>. The interface \<open>DeltaSyncable\<close> is the locale \<open>delta_syncable\<close>, and the prefix index is
  its interpretation.
\<close>

section \<open>The interfaces of a state that is exchanged\<close>

record 's syncHooks =
  OnSyncStart :: "'s \<Rightarrow> sync_error option \<times> 's"
  OnSyncEnd :: "'s \<Rightarrow> sync_error option \<times> 's"

record 's deltaSyncable =
  GetDelta :: "'s \<Rightarrow> ((string \<times> string) list option \<times> string list \<times> sync_error option) \<times> 's"
  ClearDirty :: "'s \<Rightarrow> sync_error option \<times> 's"

record 's tombstoneSupport =
  MakeTombstone :: "string \<Rightarrow> 's \<Rightarrow> string"
  IsTombstone :: "string \<Rightarrow> string \<Rightarrow> 's \<Rightarrow> bool"
  DeleteLocal :: "string \<Rightarrow> 's \<Rightarrow> sync_error option \<times> 's"

text \<open>The interfaces a state need not implement are optional fields.\<close>

record 's syncable =
  Namespace :: string
  GetSnapshot :: "'s \<Rightarrow> (string \<times> string) list option \<times> sync_error option"
  ApplyRemote :: "string \<Rightarrow> string \<Rightarrow> 's \<Rightarrow> sync_error option \<times> 's"
  OptionalHooks :: "'s syncHooks option"
  DeltaSyncable :: "'s deltaSyncable option"
  StalePolicy :: "(string \<Rightarrow> string \<Rightarrow> 's \<Rightarrow> bool) option"
  TombstoneSupport :: "'s tombstoneSupport option"

section \<open>Redis\<close>

datatype redisCmd = SetEx string string int | Del string

text \<open>A call that failed answers \<open>True\<close>, or no values. \<open>scanKeys\<close> is what the iterator of a scan yields
  until it ends, and whether it ended with an error.\<close>

record 'r redisClient =
  runCmd :: "redisCmd \<Rightarrow> 'r \<Rightarrow> bool \<times> 'r"
  pipeExec :: "redisCmd list \<Rightarrow> 'r \<Rightarrow> bool \<times> 'r"
  mGet :: "string list \<Rightarrow> 'r \<Rightarrow> string option list option \<times> 'r"
  scanKeys :: "string \<Rightarrow> 'r \<Rightarrow> string list \<times> bool"

section \<open>The manager\<close>

definition defaultRecordTTL :: int where
  "defaultRecordTTL = 120000000000"

definition defaultStopWaitTimeout :: int where
  "defaultStopWaitTimeout = 90000000000"

definition stdSetexChunkSize :: int where
  "stdSetexChunkSize = 25"

definition stdMgetBatchSize :: int where
  "stdMgetBatchSize = 200"

definition maxBackoff :: int where
  "maxBackoff = 60000000000"

record 's redisSync =
  keyPrefix :: string
  syncPeriod :: int
  opTimeout :: int
  recordTTL :: int
  stopWaitTimeout :: int
  syncables :: "'s syncable list"
  started :: bool
  setexChunkSize :: int
  mgetBatchSize :: int
  stopClosed :: bool
  loopsRunning :: nat

datatype redisOption =
    WithKeyPrefix string
  | WithSyncPeriod int
  | WithOpTimeout int
  | WithSetexChunkSize int
  | WithMGetBatchSize int
  | WithRecordTTL int
  | WithStopWaitTimeout int

fun applyOption :: "redisOption \<Rightarrow> 's redisSync \<Rightarrow> 's redisSync" where
  "applyOption (WithKeyPrefix p) r = r\<lparr>keyPrefix := p\<rparr>"
| "applyOption (WithSyncPeriod d) r = r\<lparr>syncPeriod := d\<rparr>"
| "applyOption (WithOpTimeout d) r = r\<lparr>opTimeout := d\<rparr>"
| "applyOption (WithSetexChunkSize n) r = r\<lparr>setexChunkSize := n\<rparr>"
| "applyOption (WithMGetBatchSize n) r = r\<lparr>mgetBatchSize := n\<rparr>"
| "applyOption (WithRecordTTL d) r = (if 0 < d then r\<lparr>recordTTL := d\<rparr> else r)"
| "applyOption (WithStopWaitTimeout d) r = (if 0 < d then r\<lparr>stopWaitTimeout := d\<rparr> else r)"

text \<open>The period of the environment is an argument.\<close>

definition newRedisSync :: "int \<Rightarrow> redisOption list \<Rightarrow> 's redisSync" where
  "newRedisSync period opts =
     fold applyOption opts
       \<lparr>keyPrefix = ''aibrix'', syncPeriod = period, opTimeout = 30000000000, recordTTL = defaultRecordTTL,
        stopWaitTimeout = defaultStopWaitTimeout, syncables = [], started = False, setexChunkSize = 0,
        mgetBatchSize = 0, stopClosed = False, loopsRunning = 0\<rparr>"

definition recordLife :: "'s redisSync \<Rightarrow> int" where
  "recordLife r = (if 0 < recordTTL r then recordTTL r else defaultRecordTTL)"

definition Register :: "'s syncable \<Rightarrow> 's redisSync \<Rightarrow> 's redisSync" where
  "Register y r =
     (if started r then r
      else if Namespace y = [] then r
      else r\<lparr>syncables := syncables r @ [y]\<rparr>)"

definition redisKeyForEntity :: "'s redisSync \<Rightarrow> string \<Rightarrow> string \<Rightarrow> string" where
  "redisKeyForEntity r namespace entityID = keyPrefix r @ '':{'' @ namespace @ ''}:e:'' @ entityID"

definition redisScanPattern :: "'s redisSync \<Rightarrow> string \<Rightarrow> string" where
  "redisScanPattern r namespace = keyPrefix r @ '':{'' @ namespace @ ''}:e:*''"

definition entityIDFromKey :: "'s redisSync \<Rightarrow> string \<Rightarrow> string \<Rightarrow> string" where
  "entityIDFromKey r namespace key =
     (let pre = keyPrefix r @ '':{'' @ namespace @ ''}:e:''
      in if length pre \<le> length key then drop (length pre) key else [])"

datatype redis_error =
    PutNoNamespace
  | PutFailed string string
  | DeleteNoNamespace
  | DeleteFailed string string
  | PullNoNamespace
  | PullMGet string
  | PullScan string
  | PushGetDelta string sync_error
  | PushSetexDelta string
  | PushDeletions string
  | PushClearDirty string sync_error
  | PushGetSnapshot string sync_error
  | PushSetex string

definition redisPut ::
  "'r redisClient \<Rightarrow> 's redisSync \<Rightarrow> string \<Rightarrow> string \<Rightarrow> string \<Rightarrow> 'r \<Rightarrow> redis_error option \<times> 'r" where
  "redisPut c r namespace eid data rd =
     (if namespace = [] then (Some PutNoNamespace, rd)
      else case runCmd c (SetEx (redisKeyForEntity r namespace eid) data (recordLife r)) rd of
             (failed, rd1) \<Rightarrow> (if failed then Some (PutFailed namespace eid) else None, rd1))"

definition redisDelete ::
  "'r redisClient \<Rightarrow> 's redisSync \<Rightarrow> string \<Rightarrow> string \<Rightarrow> 'r \<Rightarrow> redis_error option \<times> 'r" where
  "redisDelete c r namespace eid rd =
     (if namespace = [] then (Some DeleteNoNamespace, rd)
      else case runCmd c (Del (redisKeyForEntity r namespace eid)) rd of
             (failed, rd1) \<Rightarrow> (if failed then Some (DeleteFailed namespace eid) else None, rd1))"

section \<open>Pull\<close>

definition applyEntry ::
  "'r redisClient \<Rightarrow> 's redisSync \<Rightarrow> 's syncable \<Rightarrow> string \<times> string option \<Rightarrow> 'r \<times> 's \<Rightarrow> 'r \<times> 's" where
  "applyEntry c r y kv w =
     (case (kv, w) of ((key, v), rd, st) \<Rightarrow>
        (case v of
           None \<Rightarrow> (rd, st)
         | Some sv \<Rightarrow>
             (let entityID = entityIDFromKey r (Namespace y) key
              in if entityID = [] then (rd, st)
                 else if (case TombstoneSupport y of Some ts \<Rightarrow> IsTombstone ts entityID sv st | None \<Rightarrow> False)
                      then (rd, case TombstoneSupport y of Some ts \<Rightarrow> snd (DeleteLocal ts entityID st) | None \<Rightarrow> st)
                 else if (case StalePolicy y of Some stale \<Rightarrow> stale entityID sv st | None \<Rightarrow> False)
                      then (snd (runCmd c (Del key) rd), st)
                 else (rd, snd (ApplyRemote y entityID sv st)))))"

definition applyBatch ::
  "'r redisClient \<Rightarrow> 's redisSync \<Rightarrow> 's syncable \<Rightarrow> string list \<Rightarrow> 'r \<times> 's \<Rightarrow> redis_error option \<times> 'r \<times> 's" where
  "applyBatch c r y batch w =
     (case w of (rd, st) \<Rightarrow>
        (case mGet c batch rd of
           (None, rd1) \<Rightarrow> (Some (PullMGet (Namespace y)), rd1, st)
         | (Some vals, rd1) \<Rightarrow> (None, fold (applyEntry c r y) (zip batch vals) (rd1, st))))"

fun pullLoop ::
  "'r redisClient \<Rightarrow> 's redisSync \<Rightarrow> 's syncable \<Rightarrow> int \<Rightarrow> bool \<Rightarrow> string list \<Rightarrow> string list \<Rightarrow> 'r \<times> 's \<Rightarrow>
   redis_error option \<times> 'r \<times> 's" where
  "pullLoop c r y batchSize scanFailed [] batch w =
     (if scanFailed then (Some (PullScan (Namespace y)), w)
      else if batch \<noteq> [] then applyBatch c r y batch w
      else (None, w))"
| "pullLoop c r y batchSize scanFailed (key # keys) batch w =
     (let batch1 = batch @ [key]
      in if batchSize \<le> int (length batch1)
         then (case applyBatch c r y batch1 w of
                 (Some err, w1) \<Rightarrow> (Some err, w1)
               | (None, w1) \<Rightarrow> pullLoop c r y batchSize scanFailed keys [] w1)
         else pullLoop c r y batchSize scanFailed keys batch1 w)"

definition pullEntities ::
  "'r redisClient \<Rightarrow> 's redisSync \<Rightarrow> 's syncable \<Rightarrow> 'r \<times> 's \<Rightarrow> redis_error option \<times> 'r \<times> 's" where
  "pullEntities c r y w =
     (if Namespace y = [] then (Some PullNoNamespace, w)
      else let batchSize = (if mgetBatchSize r \<le> 0 then stdMgetBatchSize else mgetBatchSize r)
           in case scanKeys c (redisScanPattern r (Namespace y)) (fst w) of
                (keys, scanFailed) \<Rightarrow> pullLoop c r y batchSize scanFailed keys [] w)"

definition Pull ::
  "'r redisClient \<Rightarrow> 's redisSync \<Rightarrow> 's syncable \<Rightarrow> 'r \<times> 's \<Rightarrow> redis_error option \<times> 'r \<times> 's" where
  "Pull c r y w =
     (case OptionalHooks y of
        None \<Rightarrow> pullEntities c r y w
      | Some o' \<Rightarrow>
          (case pullEntities c r y (fst w, snd (OnSyncStart o' (snd w))) of
             (err, rd, st) \<Rightarrow> (err, rd, snd (OnSyncEnd o' st))))"

section \<open>Push\<close>

text \<open>Commands in pipelines of a bounded size: the loop of \<open>setexChunked\<close> and of the deletions.\<close>

fun pipelined :: "'r redisClient \<Rightarrow> int \<Rightarrow> redisCmd list \<Rightarrow> redisCmd list \<Rightarrow> 'r \<Rightarrow> bool \<times> 'r" where
  "pipelined c chunkSize pipe [] rd = (if pipe \<noteq> [] then pipeExec c pipe rd else (False, rd))"
| "pipelined c chunkSize pipe (cmd # cmds) rd =
     (let pipe1 = pipe @ [cmd]
      in if chunkSize \<le> int (length pipe1)
         then (case pipeExec c pipe1 rd of
                 (True, rd1) \<Rightarrow> (True, rd1)
               | (False, rd1) \<Rightarrow> pipelined c chunkSize [] cmds rd1)
         else pipelined c chunkSize pipe1 cmds rd)"

definition chunkSizeOf :: "'s redisSync \<Rightarrow> int" where
  "chunkSizeOf r = (if setexChunkSize r \<le> 0 then stdSetexChunkSize else setexChunkSize r)"

definition setexChunked ::
  "'r redisClient \<Rightarrow> 's redisSync \<Rightarrow> string \<Rightarrow> (string \<times> string) list \<Rightarrow> 'r \<Rightarrow> bool \<times> 'r" where
  "setexChunked c r namespace m rd =
     (if m = [] then (False, rd)
      else pipelined c (chunkSizeOf r) []
             (map (\<lambda>(eid, data). SetEx (redisKeyForEntity r namespace eid) data (recordLife r)) m) rd)"

definition deletionCmd :: "'s redisSync \<Rightarrow> string \<Rightarrow> 's tombstoneSupport option \<Rightarrow> 's \<Rightarrow> string \<Rightarrow> redisCmd" where
  "deletionCmd r namespace tombs st eid =
     (let key = redisKeyForEntity r namespace eid
      in case tombs of
           Some ts \<Rightarrow> SetEx key (MakeTombstone ts eid st) (recordLife r)
         | None \<Rightarrow> Del key)"

definition pushDelta ::
  "'r redisClient \<Rightarrow> 's redisSync \<Rightarrow> ('s \<Rightarrow> 's) \<Rightarrow> string \<Rightarrow> 's tombstoneSupport option \<Rightarrow> 's deltaSyncable \<Rightarrow> 'r \<times> 's \<Rightarrow>
   redis_error option \<times> 'r \<times> 's" where
  "pushDelta c r meanwhile namespace tombs d w =
     (case w of (rd, st) \<Rightarrow>
        (case GetDelta d st of
           ((upd, deleted, Some e), st1) \<Rightarrow> (Some (PushGetDelta namespace e), rd, meanwhile st1)
         | ((upd, deleted, None), st1) \<Rightarrow>
             (let updated = (case upd of Some u \<Rightarrow> u | None \<Rightarrow> [])
              in case (if updated \<noteq> [] then setexChunked c r namespace updated rd else (False, rd)) of
                   (True, rd1) \<Rightarrow> (Some (PushSetexDelta namespace), rd1, meanwhile st1)
                 | (False, rd1) \<Rightarrow>
                     (case (if deleted \<noteq> []
                            then pipelined c (chunkSizeOf r) [] (map (deletionCmd r namespace tombs st1) deleted) rd1
                            else (False, rd1)) of
                        (True, rd2) \<Rightarrow> (Some (PushDeletions namespace), rd2, meanwhile st1)
                      | (False, rd2) \<Rightarrow>
                          (if updated \<noteq> [] \<or> deleted \<noteq> []
                           then (case ClearDirty d (meanwhile st1) of
                                   (Some e, st2) \<Rightarrow> (Some (PushClearDirty namespace e), rd2, st2)
                                 | (None, st2) \<Rightarrow> (None, rd2, st2))
                           else (None, rd2, meanwhile st1))))))"

definition pushFull ::
  "'r redisClient \<Rightarrow> 's redisSync \<Rightarrow> string \<Rightarrow> 's syncable \<Rightarrow> 'r \<times> 's \<Rightarrow> redis_error option \<times> 'r \<times> 's" where
  "pushFull c r namespace y w =
     (case w of (rd, st) \<Rightarrow>
        (case GetSnapshot y st of
           (_, Some e) \<Rightarrow> (Some (PushGetSnapshot namespace e), rd, st)
         | (snap, None) \<Rightarrow>
             (case setexChunked c r namespace (case snap of Some m \<Rightarrow> m | None \<Rightarrow> []) rd of
                (failed, rd1) \<Rightarrow> (if failed then Some (PushSetex namespace) else None, rd1, st))))"

definition Push ::
  "'r redisClient \<Rightarrow> 's redisSync \<Rightarrow> ('s \<Rightarrow> 's) \<Rightarrow> 's syncable \<Rightarrow> 'r \<times> 's \<Rightarrow> redis_error option \<times> 'r \<times> 's" where
  "Push c r meanwhile y w =
     (case DeltaSyncable y of
        Some d \<Rightarrow> pushDelta c r meanwhile (Namespace y) (TombstoneSupport y) d w
      | None \<Rightarrow> pushFull c r (Namespace y) y w)"

section \<open>Cycles and the loop\<close>

fun overSyncables ::
  "('s syncable \<Rightarrow> 'r \<times> 's \<Rightarrow> redis_error option \<times> 'r \<times> 's) \<Rightarrow> 's syncable list \<Rightarrow> 's list \<Rightarrow>
   redis_error option \<Rightarrow> 'r \<Rightarrow> redis_error option \<times> 'r \<times> 's list" where
  "overSyncables f (y # ys) (st # sts) lastErr rd =
     (case f y (rd, st) of
        (err, rd1, st1) \<Rightarrow>
          (case overSyncables f ys sts (case err of Some e \<Rightarrow> Some e | None \<Rightarrow> lastErr) rd1 of
             (err2, rd2, sts2) \<Rightarrow> (err2, rd2, st1 # sts2)))"
| "overSyncables f _ sts lastErr rd = (lastErr, rd, sts)"

definition runOneSyncCycle ::
  "'r redisClient \<Rightarrow> 's redisSync \<Rightarrow> ('s \<Rightarrow> 's) \<Rightarrow> 'r \<times> 's list \<Rightarrow> redis_error option \<times> 'r \<times> 's list" where
  "runOneSyncCycle c r meanwhile w =
     (case overSyncables (Pull c r) (syncables r) (snd w) None (fst w) of
        (err1, rd1, sts1) \<Rightarrow> overSyncables (Push c r meanwhile) (syncables r) sts1 err1 rd1)"

definition Start :: "'s redisSync \<Rightarrow> 's redisSync" where
  "Start r = (if started r then r else r\<lparr>started := True, loopsRunning := loopsRunning r + 1\<rparr>)"

text \<open>\<open>Stop\<close> also tells how long it waits for the loop at most.\<close>

definition Stop :: "'s redisSync \<Rightarrow> int \<times> 's redisSync" where
  "Stop r = (if stopWaitTimeout r \<le> 0 then defaultStopWaitTimeout else stopWaitTimeout r, r\<lparr>stopClosed := True\<rparr>)"

text \<open>Division of durations truncates towards zero.\<close>

definition durDiv :: "int \<Rightarrow> int \<Rightarrow> int" where
  "durDiv a b = (if 0 \<le> a then a div b else - ((- a) div b))"

definition nextBackoff :: "int \<Rightarrow> bool \<Rightarrow> int \<Rightarrow> int" where
  "nextBackoff period failed backoff =
     (if failed
      then if backoff < maxBackoff
           then let doubled = i64 (backoff * 2) in if maxBackoff < doubled then maxBackoff else doubled
           else backoff
      else period)"

definition waitInterval :: "int \<Rightarrow> int \<Rightarrow> int \<Rightarrow> int" where
  "waitInterval period backoff random =
     (let jitter = (if 0 < durDiv period 5 then i64 (random - durDiv period 10) else 0);
          interval = i64 (backoff + jitter)
      in if interval < durDiv period 2 then durDiv period 2 else interval)"

text \<open>A wait of the loop: what the random generator gave, and whether the loop was stopped during it.\<close>

record loopTurn =
  turnRandom :: int
  turnStopped :: bool

text \<open>The rounds of the loop, and the waits it made. The list of turns bounds how long the loop is
  observed.\<close>

fun syncRounds ::
  "int \<Rightarrow> ('w \<Rightarrow> redis_error option \<times> 'w) \<Rightarrow> loopTurn list \<Rightarrow> int \<Rightarrow> 'w \<Rightarrow> int list \<times> 'w" where
  "syncRounds period cycle [] backoff w = ([], w)"
| "syncRounds period cycle (t # ts) backoff w =
     (let interval = waitInterval period backoff (turnRandom t)
      in if turnStopped t then ([interval], w)
         else case cycle w of
                (err, w1) \<Rightarrow>
                  (case syncRounds period cycle ts (nextBackoff period (err \<noteq> None) backoff) w1 of
                     (waits, w2) \<Rightarrow> (interval # waits, w2)))"

definition syncLoop ::
  "'s redisSync \<Rightarrow> ('w \<Rightarrow> redis_error option \<times> 'w) \<Rightarrow> loopTurn \<Rightarrow> loopTurn list \<Rightarrow> 'w \<Rightarrow> int list \<times> 'w" where
  "syncLoop r cycle first turns w =
     (if 0 < durDiv (syncPeriod r) 2 \<and> turnStopped first then ([], w)
      else case cycle w of
             (err, w1) \<Rightarrow> syncRounds (syncPeriod r) cycle turns (nextBackoff (syncPeriod r) (err \<noteq> None) (syncPeriod r)) w1)"

section \<open>The prefix index as a state that is exchanged\<close>

text \<open>A state is the table and how many blocks it was handed, which numbers the readings of the clock.\<close>

type_synonym tableState = "prefixHashTable \<times> nat"

definition tableDelta :: "(blockWire \<Rightarrow> string option) \<Rightarrow> (nat \<Rightarrow> bool) \<Rightarrow> tableState deltaSyncable" where
  "tableDelta marshal ended =
     \<lparr>GetDelta = (\<lambda>(c, n). case GetDeltaForSync marshal ended c of ((updated, err), c1) \<Rightarrow> ((updated, [], err), c1, n)),
      ClearDirty = (\<lambda>(c, n). (None, ClearDirtyForSync c, n))\<rparr>"

definition PrefixHashTableSyncable ::
  "(blockWire \<Rightarrow> string option) \<Rightarrow> (string \<Rightarrow> blockWire option) \<Rightarrow> (nat \<Rightarrow> bool) \<Rightarrow> (nat \<Rightarrow> int) \<Rightarrow> tableState syncable" where
  "PrefixHashTableSyncable marshal unmarshal ended clock =
     \<lparr>Namespace = ''prefixcache'',
      GetSnapshot = (\<lambda>(c, n). GetSnapshotForSync marshal ended c),
      ApplyRemote = (\<lambda>bid data (c, n).
        case ApplyRemoteForSync unmarshal (clock n) bid data c of (err, c1) \<Rightarrow> (err, c1, n + 1)),
      OptionalHooks = None, DeltaSyncable = Some (tableDelta marshal ended), StalePolicy = None, TombstoneSupport = None\<rparr>"

section \<open>What the exchange relies on and promises\<close>

fun cmdEffect :: "redisCmd \<Rightarrow> (string \<rightharpoonup> string) \<Rightarrow> (string \<rightharpoonup> string)" where
  "cmdEffect (SetEx key v _) m = m(key \<mapsto> v)"
| "cmdEffect (Del key) m = m(key := None)"

text \<open>A prefix of keys that a pattern of Redis matches literally.\<close>

definition literalPattern :: "string \<Rightarrow> bool" where
  "literalPattern p = list_all (\<lambda>ch. ch \<noteq> CHR ''*'' \<and> ch \<noteq> CHR ''?'' \<and> ch \<noteq> CHR ''['' \<and> ch \<noteq> CHR 0x5C) p"

text \<open>What the code relies on of Redis, where \<open>holds\<close> reads its state: a pipeline that did not fail
  carried out its commands in order, a get answers the values of its keys, and a scan that ends without
  an error yields every key with the prefix. No record expires during the exchange.\<close>

definition redisServes :: "'r redisClient \<Rightarrow> ('r \<Rightarrow> string \<rightharpoonup> string) \<Rightarrow> bool" where
  "redisServes c holds \<longleftrightarrow>
     (\<forall>cmds rd rd'. pipeExec c cmds rd = (False, rd') \<longrightarrow> holds rd' = fold cmdEffect cmds (holds rd)) \<and>
     (\<forall>keys rd vals rd'. mGet c keys rd = (Some vals, rd') \<longrightarrow> vals = map (holds rd) keys \<and> holds rd' = holds rd) \<and>
     (\<forall>p rd keys key. literalPattern p \<longrightarrow> scanKeys c (p @ ''*'') rd = (keys, False) \<longrightarrow> holds rd key \<noteq> None \<longrightarrow>
        prefix p key \<longrightarrow> key \<in> set keys)"

text \<open>A decoder of JSON gives maps: no key of an object twice.\<close>

definition decodesMaps :: "(string \<Rightarrow> blockWire option) \<Rightarrow> bool" where
  "decodesMaps unmarshal \<longleftrightarrow> (\<forall>d w. unmarshal d = Some w \<longrightarrow> wireOk w)"

text \<open>What one entity of a pull does to a state that never calls an entity stale.\<close>

definition mergeEntry :: "'s redisSync \<Rightarrow> 's syncable \<Rightarrow> string \<times> string option \<Rightarrow> 's \<Rightarrow> 's" where
  "mergeEntry r y kv st =
     (case kv of
        (key, None) \<Rightarrow> st
      | (key, Some sv) \<Rightarrow>
          (let entityID = entityIDFromKey r (Namespace y) key
           in if entityID = [] then st
              else case TombstoneSupport y of
                     Some ts \<Rightarrow> if IsTombstone ts entityID sv st then snd (DeleteLocal ts entityID st)
                                else snd (ApplyRemote y entityID sv st)
                   | None \<Rightarrow> snd (ApplyRemote y entityID sv st)))"

text \<open>The identifiers that wait to be pushed, and what would be sent for one.\<close>

definition tablePending :: "tableState \<Rightarrow> string set" where
  "tablePending st = (case dirtyIds (fst st) of Some ids \<Rightarrow> fst ` set ids | None \<Rightarrow> {})"

definition tableWire :: "(blockWire \<Rightarrow> string option) \<Rightarrow> tableState \<Rightarrow> string \<Rightarrow> string option" where
  "tableWire marshal st bid =
     (case parseUint64 bid of
        None \<Rightarrow> None
      | Some n \<Rightarrow> Option.bind (Get (word_of_int n) (tblStore (fst st))) (encodeBlock marshal))"

text \<open>What other goroutines may do to a table while its delta is written, and which blocks they route.\<close>

fun quietOp :: "tableOp \<Rightarrow> bool" where
  "quietOp (OpDelta ended) = False"
| "quietOp OpClear = False"
| "quietOp _ = True"

fun routedHashes :: "tableOp list \<Rightarrow> 64 word set" where
  "routedHashes [] = {}"
| "routedHashes (OpAdd now tick hs model pod # ops) = set hs \<union> routedHashes ops"
| "routedHashes (_ # ops) = routedHashes ops"

definition tableTouch ::
  "prefixConfig \<Rightarrow> (blockWire \<Rightarrow> string option) \<Rightarrow> (string \<Rightarrow> blockWire option) \<Rightarrow> string set \<Rightarrow> tableState \<Rightarrow> tableState \<Rightarrow> bool" where
  "tableTouch cfg marshal unmarshal T st st' \<longleftrightarrow>
     (\<exists>ops. list_all quietOp ops \<and> fst st' = runOps cfg marshal unmarshal ops (fst st) \<and>
            T = formatUint ` routedHashes ops \<and> unat (dirtySeq (fst st)) + routedBlocks ops < 2 ^ 64)"

text \<open>A table knows a block for a model and a pod, with a time no older than the given one.\<close>

abbreviation knownSince :: "tableState \<Rightarrow> 64 word \<Rightarrow> string \<Rightarrow> string \<Rightarrow> int \<Rightarrow> bool" where
  "knownSince st h m p t \<equiv> \<exists>t'. accessed (fst st) h m p = Some t' \<and> t \<le> t'"

text \<open>Small examples: a server that keeps its records in a list, and a replica that pushes.\<close>

definition exClient :: "(string \<times> string) list redisClient" where
  "exClient =
     (let run = (\<lambda>cmd rd. case cmd of SetEx key v _ \<Rightarrow> AList.update key v rd | Del key \<Rightarrow> AList.delete key rd)
      in \<lparr>runCmd = (\<lambda>cmd rd. (False, run cmd rd)), pipeExec = (\<lambda>cmds rd. (False, fold run cmds rd)),
          mGet = (\<lambda>keys rd. (Some (map (map_of rd) keys), rd)),
          scanKeys = (\<lambda>pat rd. (filter (prefix (butlast pat)) (map fst rd), False))\<rparr>)"

definition exManager :: "tableState redisSync" where
  "exManager = newRedisSync 10000000000 []"

abbreviation exSyncable :: "tableState syncable" where
  "exSyncable \<equiv> PrefixHashTableSyncable exMarshal exUnmarshal (\<lambda>_. False) (\<lambda>_. 200)"

definition exPush :: "redis_error option \<times> (string \<times> string) list \<times> tableState" where
  "exPush = Push exClient exManager (\<lambda>(t, n). (runOps exSettings exMarshal exUnmarshal [OpAdd 110 (\<lambda>_. 110) [6] ''m'' ''ns/q''] t, n))
     exSyncable ([], exReplica, 0)"

definition exPull :: "redis_error option \<times> (string \<times> string) list \<times> tableState" where
  "exPull = Pull exClient exManager exSyncable
     (fst (snd exPush), runOps exSettings exMarshal exUnmarshal [] (NewPrefixHashTable exSettings 9), 0)"

section \<open>Lemmas on Redis\<close>

lemma redisServes_exec:
  "redisServes c holds \<Longrightarrow> pipeExec c cmds rd = (False, rd') \<Longrightarrow> holds rd' = fold cmdEffect cmds (holds rd)"
  by (auto simp: redisServes_def)

lemma redisServes_get:
  "redisServes c holds \<Longrightarrow> mGet c keys rd = (Some vals, rd') \<Longrightarrow> vals = map (holds rd) keys \<and> holds rd' = holds rd"
  unfolding redisServes_def by blast

lemma redisServes_scan:
  "redisServes c holds \<Longrightarrow> literalPattern p \<Longrightarrow> scanKeys c (p @ ''*'') rd = (keys, False) \<Longrightarrow> holds rd key \<noteq> None \<Longrightarrow>
     prefix p key \<Longrightarrow> key \<in> set keys"
  unfolding redisServes_def by blast

lemma key_inj: "redisKeyForEntity r ns a = redisKeyForEntity r ns b \<longleftrightarrow> a = b"
  by (simp add: redisKeyForEntity_def)

lemma entity_of_key [simp]: "entityIDFromKey r ns (redisKeyForEntity r ns eid) = eid"
proof -
  let ?p = "keyPrefix r @ '':{'' @ ns @ ''}:e:''"
  have k: "redisKeyForEntity r ns eid = ?p @ eid" by (simp add: redisKeyForEntity_def)
  have d: "drop (length xs) (xs @ eid) = eid" "length xs \<le> length (xs @ eid)" for xs :: string by simp_all
  show ?thesis unfolding entityIDFromKey_def Let_def k if_P [OF d(2)] by (rule d(1))
qed

lemma pipelined_effect:
  assumes "redisServes c holds"
  shows "pipelined c n pipe cmds rd = (False, rd') \<Longrightarrow> holds rd' = fold cmdEffect (pipe @ cmds) (holds rd)"
proof (induction cmds arbitrary: pipe rd)
  case Nil
  then show ?case using redisServes_exec [OF assms, of pipe rd rd'] by (auto split: if_splits)
next
  case (Cons cmd cmds)
  show ?case
  proof (cases "n \<le> int (length (pipe @ [cmd]))")
    case True
    then obtain rd1 where e: "pipeExec c (pipe @ [cmd]) rd = (False, rd1)" and p: "pipelined c n [] cmds rd1 = (False, rd')"
      using Cons.prems by (auto simp: Let_def split: prod.splits bool.splits)
    show ?thesis using Cons.IH [OF p] redisServes_exec [OF assms e] by simp
  next
    case False
    then have "pipelined c n (pipe @ [cmd]) cmds rd = (False, rd')" using Cons.prems by (simp add: Let_def)
    from Cons.IH [OF this] show ?thesis by simp
  qed
qed

lemma setex_writes:
  assumes "redisServes c holds" and "setexChunked c r ns m rd = (False, rd')" and "distinct (map fst m)"
  shows "holds rd' (redisKeyForEntity r ns eid) =
           (case map_of m eid of Some data \<Rightarrow> Some data | None \<Rightarrow> holds rd (redisKeyForEntity r ns eid))"
proof -
  have f: "fold cmdEffect (map (\<lambda>(eid, data). SetEx (redisKeyForEntity r ns eid) data t) m) h (redisKeyForEntity r ns eid) =
      (case map_of m eid of Some data \<Rightarrow> Some data | None \<Rightarrow> h (redisKeyForEntity r ns eid))" for h t
    using assms(3)
  proof (induction m arbitrary: h)
    case (Cons x m)
    then have "map_of m (fst x) = None" by (simp add: map_of_eq_None_iff)
    then show ?case using Cons by (cases x) (auto simp: key_inj split: option.split)
  qed simp
  show ?thesis
  proof (cases "m = []")
    case True
    then show ?thesis using assms(2) by (simp add: setexChunked_def)
  next
    case False
    then have "pipelined c (chunkSizeOf r) [] (map (\<lambda>(eid, data). SetEx (redisKeyForEntity r ns eid) data (recordLife r)) m) rd = (False, rd')"
      using assms(2) by (simp add: setexChunked_def)
    from pipelined_effect [OF assms(1) this] show ?thesis using f by simp
  qed
qed

lemma deletions_spare:
  assumes "redisServes c holds" and "pipelined c n [] (map (deletionCmd r ns tombs st) deleted) rd = (False, rd')"
    and "eid \<notin> set deleted"
  shows "holds rd' (redisKeyForEntity r ns eid) = holds rd (redisKeyForEntity r ns eid)"
proof -
  have "fold cmdEffect (map (deletionCmd r ns tombs st) deleted) h (redisKeyForEntity r ns eid) = h (redisKeyForEntity r ns eid)" for h
    using assms(3)
    by (induction deleted arbitrary: h) (auto simp: deletionCmd_def Let_def key_inj split: option.split)
  then show ?thesis using pipelined_effect [OF assms(1,2)] by simp
qed

section \<open>Pushing a delta\<close>

lemma pushDelta_done:
  assumes "pushDelta c r meanwhile ns tombs d (rd, st) = (None, rd', st')"
  shows "\<exists>upd deleted st1 rd1.
           GetDelta d st = ((upd, deleted, None), st1) \<and>
           setexChunked c r ns (case upd of Some u \<Rightarrow> u | None \<Rightarrow> []) rd = (False, rd1) \<and>
           pipelined c (chunkSizeOf r) [] (map (deletionCmd r ns tombs st1) deleted) rd1 = (False, rd') \<and>
           (if (case upd of Some u \<Rightarrow> u | None \<Rightarrow> []) \<noteq> [] \<or> deleted \<noteq> [] then ClearDirty d (meanwhile st1) = (None, st')
            else st' = meanwhile st1)"
proof -
  obtain upd deleted e st1 where g: "GetDelta d st = ((upd, deleted, e), st1)" by (metis surj_pair)
  have n: "setexChunked c r ns [] rd = (False, rd)" for rd by (simp add: setexChunked_def)
  show ?thesis
    using assms by (auto simp: pushDelta_def g Let_def n split: option.splits prod.splits bool.splits if_splits)
qed

lemma pushDelta_failed:
  assumes "pushDelta c r meanwhile ns tombs d (rd, st) = (Some err, rd', st')"
  shows "st' = meanwhile (snd (GetDelta d st)) \<or> (\<exists>e. ClearDirty d (meanwhile (snd (GetDelta d st))) = (Some e, st'))"
proof -
  obtain upd deleted e st1 where g: "GetDelta d st = ((upd, deleted, e), st1)" by (metis surj_pair)
  show ?thesis
    using assms by (auto simp: pushDelta_def g Let_def split: option.splits prod.splits bool.splits if_splits)
qed

text \<open>The contract of a state with deltas: \<open>pending\<close> are the identifiers that wait to be pushed, \<open>wire\<close> is
  the form an entity has on the wire, and \<open>touch T\<close> relates a state to what it becomes when other
  goroutines change the entities \<open>T\<close>. A delta offers what is pending, and clearing after a delta
  leaves exactly what was touched since.\<close>

locale delta_syncable =
  fixes d :: "'s deltaSyncable"
    and ok :: "'s \<Rightarrow> bool"
    and pending :: "'s \<Rightarrow> string set"
    and wire :: "'s \<Rightarrow> string \<Rightarrow> string option"
    and touch :: "string set \<Rightarrow> 's \<Rightarrow> 's \<Rightarrow> bool"
  assumes offers: "ok s \<Longrightarrow> GetDelta d s = ((upd, deleted, None), s1) \<Longrightarrow> eid \<in> pending s \<Longrightarrow>
                     wire s eid = Some data \<Longrightarrow> map_of (case upd of Some u \<Rightarrow> u | None \<Rightarrow> []) eid = Some data"
    and offers_once: "ok s \<Longrightarrow> GetDelta d s = ((Some u, deleted, None), s1) \<Longrightarrow> distinct (map fst u)"
    and deleted_gone: "ok s \<Longrightarrow> GetDelta d s = ((upd, deleted, None), s1) \<Longrightarrow> eid \<in> set deleted \<Longrightarrow> wire s eid = None"
    and touched: "ok s \<Longrightarrow> touch T (snd (GetDelta d s)) s2 \<Longrightarrow> pending s2 = pending s \<union> T"
    and cleared: "ok s \<Longrightarrow> touch T (snd (GetDelta d s)) s2 \<Longrightarrow> ClearDirty d s2 = (None, s3) \<Longrightarrow> pending s3 = T"
    and not_cleared: "ok s \<Longrightarrow> touch T (snd (GetDelta d s)) s2 \<Longrightarrow> ClearDirty d s2 = (Some e, s3) \<Longrightarrow> pending s3 = pending s2"
begin

lemma push_writes:
  assumes "ok st" and "redisServes c holds" and "pushDelta c r meanwhile ns tombs d (rd, st) = (None, rd', st')"
    and "eid \<in> pending st" and "wire st eid = Some data"
  shows "holds rd' (redisKeyForEntity r ns eid) = Some data"
proof -
  obtain upd deleted st1 rd1 where g: "GetDelta d st = ((upd, deleted, None), st1)"
    and s: "setexChunked c r ns (case upd of Some u \<Rightarrow> u | None \<Rightarrow> []) rd = (False, rd1)"
    and p: "pipelined c (chunkSizeOf r) [] (map (deletionCmd r ns tombs st1) deleted) rd1 = (False, rd')"
    using pushDelta_done [OF assms(3)] by blast
  have "distinct (map fst (case upd of Some u \<Rightarrow> u | None \<Rightarrow> []))"
    using offers_once [OF assms(1)] g by (cases upd) simp_all
  from setex_writes [OF assms(2) s this, of eid] have "holds rd1 (redisKeyForEntity r ns eid) = Some data"
    using offers [OF assms(1) g assms(4,5)] by simp
  moreover have "eid \<notin> set deleted" using deleted_gone [OF assms(1) g] assms(5) by auto
  ultimately show ?thesis using deletions_spare [OF assms(2) p] by simp
qed

lemma push_pending:
  assumes "ok st" and "touch T (snd (GetDelta d st)) (meanwhile (snd (GetDelta d st)))"
    and "pushDelta c r meanwhile ns tombs d (rd, st) = (err, rd', st')"
  shows "pending st' = pending st \<union> T \<or> err = None \<and> pending st' = T"
proof (cases err)
  case None
  then obtain upd deleted st1 where g: "GetDelta d st = ((upd, deleted, None), st1)"
    and c: "st' = meanwhile st1 \<or> ClearDirty d (meanwhile st1) = (None, st')"
    using pushDelta_done [of c r meanwhile ns tombs d rd st rd' st'] assms(3) by (metis (no_types, lifting))
  then show ?thesis using None touched [OF assms(1,2)] cleared [OF assms(1,2)] by (auto simp: g)
next
  case (Some e)
  then show ?thesis
    using pushDelta_failed [of c r meanwhile ns tombs d rd st e rd' st'] assms(3)
      touched [OF assms(1,2)] not_cleared [OF assms(1,2)] by auto
qed

end

section \<open>The prefix index keeps the contract\<close>

lemma quiet_history:
  "list_all quietOp ops \<Longrightarrow>
     toPush (fold specOp ops s) = toPush s \<union> routedHashes ops \<and> offered (fold specOp ops s) = offered s - routedHashes ops"
proof (induction ops arbitrary: s)
  case (Cons op ops)
  then show ?case by (cases op) auto
qed simp

lemma deltaRel_pending: "deltaRel c s \<Longrightarrow> tablePending (c, n) = formatUint ` toPush s"
  by (auto simp: deltaRel_def tablePending_def split: option.splits)

lemma delta_state: "snd (GetDeltaForSync marshal ended c) = c\<lparr>deltaSeq := dirtySeq c\<rparr>"
  by (simp add: GetDeltaForSync_def Let_def)

lemma touch_pending:
  assumes "deltaRel c s" and "tableTouch cfg marshal unmarshal T (snd (GetDeltaForSync marshal ended c), n) (c2, n2)"
  shows "tablePending (c2, n2) = tablePending (c, n) \<union> T" and "tablePending (ClearDirtyForSync c2, n2) = T"
proof -
  obtain ops where q: "list_all quietOp ops" and T: "T = formatUint ` routedHashes ops"
    and c2: "c2 = runOps cfg marshal unmarshal ops (c\<lparr>deltaSeq := dirtySeq c\<rparr>)" and b: "unat (dirtySeq c) + routedBlocks ops < 2 ^ 64"
    using assms(2) by (auto simp: tableTouch_def delta_state)
  let ?s = "s\<lparr>offered := toPush s\<rparr>"
  have "unat (dirtySeq (c\<lparr>deltaSeq := dirtySeq c\<rparr>)) + routedBlocks ops < 2 ^ 64" using b by simp
  from deltaRel_ops [OF deltaRel_taken [OF assms(1)] this] have r: "deltaRel c2 (fold specOp ops ?s)" unfolding c2 .
  note h = quiet_history [OF q, of ?s]
  show "tablePending (c2, n2) = tablePending (c, n) \<union> T"
    using deltaRel_pending [OF r] deltaRel_pending [OF assms(1)] h by (simp add: T image_Un)
  have "toPush s \<union> routedHashes ops - (toPush s - routedHashes ops) = routedHashes ops" by auto
  then show "tablePending (ClearDirtyForSync c2, n2) = T"
    using deltaRel_pending [OF deltaRel_clear [OF r]] h by (simp add: T)
qed

lemma table_offers:
  assumes "deltaRel c s" and "fst (GetDeltaForSync marshal ended c) = (upd, None)"
    and "bid \<in> tablePending (c, n)" and "tableWire marshal (c, n) bid = Some data"
  shows "map_of (case upd of Some u \<Rightarrow> u | None \<Rightarrow> []) bid = Some data"
proof -
  obtain ids where ids: "dirtyIds c = Some ids" "distinct (map fst ids)" using assms(1) by (auto simp: deltaRel_def split: option.splits)
  obtain h where h: "bid = formatUint h" using assms(3) deltaRel_pending [OF assms(1), of n] by auto
  have "sent upd h = Some data"
    using delta_taken(1) [OF ids(2,1) assms(2), of h] assms(3,4) by (simp add: h tablePending_def tableWire_def ids(1) parse_format)
  then show ?thesis by (simp add: sent_def h split: option.splits)
qed

interpretation indexDelta: delta_syncable "tableDelta marshal ended" "\<lambda>st. \<exists>s. deltaRel (fst st) s" tablePending
  "tableWire marshal" "tableTouch cfg marshal unmarshal"
  for marshal ended cfg unmarshal
proof unfold_locales
  let ?d = "tableDelta marshal ended"
  have get: "GetDelta ?d (c, n) = ((fst (fst (GetDeltaForSync marshal ended c)), [], snd (fst (GetDeltaForSync marshal ended c))),
      snd (GetDeltaForSync marshal ended c), n)" for c n by (simp add: tableDelta_def split: prod.split)
  fix s s1 s2 s3 :: tableState and upd deleted eid data T e u
  assume ok: "\<exists>p. deltaRel (fst s) p"
  then obtain p where p: "deltaRel (fst s) p" by blast
  obtain c n where s: "s = (c, n)" by (cases s)
  obtain c2 n2 where s2: "s2 = (c2, n2)" by (cases s2)
  show "map_of (case upd of Some u \<Rightarrow> u | None \<Rightarrow> []) eid = Some data"
    if "GetDelta ?d s = ((upd, deleted, None), s1)" "eid \<in> tablePending s" "tableWire marshal s eid = Some data"
    using table_offers [of c p marshal ended upd eid n data] p that by (simp add: s get prod_eq_iff)
  show "distinct (map fst u)" if "GetDelta ?d s = ((Some u, deleted, None), s1)"
  proof -
    obtain ids where ids: "dirtyIds c = Some ids" "distinct (map fst ids)" using p s by (auto simp: deltaRel_def split: option.splits)
    show ?thesis using delta_taken(2) [OF ids(2,1), of marshal ended "Some u"] that by (simp add: s get prod_eq_iff)
  qed
  show "tableWire marshal s eid = None" if "GetDelta ?d s = ((upd, deleted, None), s1)" "eid \<in> set deleted"
    using that by (simp add: s get)
  assume t: "tableTouch cfg marshal unmarshal T (snd (GetDelta ?d s)) s2"
  note tp = touch_pending [of c p cfg marshal unmarshal T ended n c2 n2]
  show "tablePending s2 = tablePending s \<union> T" using tp(1) p t by (simp add: s s2 get)
  show "tablePending s3 = T" if "ClearDirty ?d s2 = (None, s3)"
  proof -
    have "s3 = (ClearDirtyForSync c2, n2)" using that by (simp add: tableDelta_def s2)
    then show ?thesis using tp(2) p t by (simp add: s s2 get)
  qed
  show "tablePending s3 = tablePending s2" if "ClearDirty ?d s2 = (Some e, s3)" using that by (simp add: tableDelta_def s2)
qed

section \<open>Pulling\<close>

lemma applyEntry_merges:
  "StalePolicy y = None \<Longrightarrow> applyEntry c r y kv (rd, st) = (rd, mergeEntry r y kv st)"
  by (auto simp: applyEntry_def mergeEntry_def Let_def split: prod.split option.split)

lemma applyEntries_merge:
  "StalePolicy y = None \<Longrightarrow> fold (applyEntry c r y) kvs (rd, st) = (rd, fold (mergeEntry r y) kvs st)"
  by (induction kvs arbitrary: st) (simp_all add: applyEntry_merges)

lemma applyBatch_merges:
  assumes "redisServes c holds" and "StalePolicy y = None" and "applyBatch c r y batch (rd, st) = (None, rd', st')"
  shows "st' = fold (mergeEntry r y) (map (\<lambda>key. (key, holds rd key)) batch) st \<and> holds rd' = holds rd"
proof -
  obtain vals where v: "mGet c batch rd = (Some vals, rd')" and st: "st' = fold (mergeEntry r y) (zip batch vals) st"
    using assms(3) by (auto simp: applyBatch_def applyEntries_merge [OF assms(2)] split: prod.splits option.splits)
  have "zip batch (map (holds rd) batch) = map (\<lambda>key. (key, holds rd key)) batch" by (induction batch) simp_all
  then show ?thesis using redisServes_get [OF assms(1) v] st by simp
qed

text \<open>How the keys are cut into batches does not show.\<close>

lemma pullLoop_merges:
  assumes "redisServes c holds" and "StalePolicy y = None"
  shows "pullLoop c r y n failed keys batch (rd, st) = (None, rd', st') \<Longrightarrow>
           \<not> failed \<and> st' = fold (mergeEntry r y) (map (\<lambda>key. (key, holds rd key)) (batch @ keys)) st \<and> holds rd' = holds rd"
proof (induction keys arbitrary: batch rd st)
  case Nil
  then show ?case using applyBatch_merges [OF assms, of r batch rd st rd' st'] by (auto split: if_splits)
next
  case (Cons key keys)
  show ?case
  proof (cases "n \<le> int (length (batch @ [key]))")
    case True
    then obtain rd1 st1 where a: "applyBatch c r y (batch @ [key]) (rd, st) = (None, rd1, st1)"
      and p: "pullLoop c r y n failed keys [] (rd1, st1) = (None, rd', st')"
      using Cons.prems by (auto simp: Let_def split: prod.splits option.splits)
    show ?thesis using Cons.IH [OF p] applyBatch_merges [OF assms a] by simp
  next
    case False
    then have "pullLoop c r y n failed keys (batch @ [key]) (rd, st) = (None, rd', st')" using Cons.prems by (simp add: Let_def)
    from Cons.IH [OF this] show ?thesis by simp
  qed
qed

lemma Pull_merges:
  assumes "redisServes c holds" and "StalePolicy y = None" and "OptionalHooks y = None"
    and "Pull c r y (rd, st) = (None, rd', st')"
  shows "\<exists>keys. scanKeys c (redisScanPattern r (Namespace y)) rd = (keys, False) \<and>
           st' = fold (mergeEntry r y) (map (\<lambda>key. (key, holds rd key)) keys) st"
proof -
  obtain keys failed where k: "scanKeys c (redisScanPattern r (Namespace y)) rd = (keys, failed)" by (metis surj_pair)
  then have "pullLoop c r y (if mgetBatchSize r \<le> 0 then stdMgetBatchSize else mgetBatchSize r) failed keys [] (rd, st) = (None, rd', st')"
    using assms(3,4) by (simp add: Pull_def pullEntities_def Let_def split: if_splits)
  from pullLoop_merges [OF assms(1,2) this] show ?thesis using k by auto
qed

section \<open>A pulled block stays\<close>

lemma newest_later: "newest (Some t) b = Some t' \<Longrightarrow> t \<le> t'" "newest a (Some t) = Some t' \<Longrightarrow> t \<le> t'"
  by (auto simp: newest_def split: option.splits)

lemma newest_known: "\<exists>t'. newest (Some t) b = Some t'" "\<exists>t'. newest a (Some t) = Some t'"
  by (auto simp: newest_def split: option.split)

lemma tableOk_holds: "tableOk c \<Longrightarrow> \<exists>xs. storeHolds (tblStore c) xs"
  by (auto simp: tableOk_def storeOk_def)

text \<open>What a received block does to the blocks received before it.\<close>

lemma remote_put:
  fixes at :: int
  assumes c: "tableOk c" and u: "unmarshal data = Some w" "wireOk w" and n: "parseUint64 bid = Some n"
    and x: "storeHolds (tblStore c) xs" "recentKeys xs K" and k: "finite K" "int (card K) < capOf (tblStore c)"
  defines "c' \<equiv> snd (ApplyRemoteForSync unmarshal at bid data c)" and "h \<equiv> word_of_int n :: 64 word"
  shows "\<exists>ys. storeHolds (tblStore c') ys \<and> recentKeys ys (insert h K)"
    and "accessed c' h m p = newest (accessed c h m p) (wireTime w m p)"
    and "g \<in> K \<Longrightarrow> g \<noteq> h \<Longrightarrow> accessed c' g m p = accessed c g m p"
proof -
  let ?b = "case Get h (tblStore c) of Some ex \<Rightarrow> mergeModels w ex | None \<Rightarrow> \<lparr>modelToPods = w\<rparr>"
  have eq: "c' = c\<lparr>tblStore := snd (Put h ?b at (tblStore c))\<rparr>"
    using u n by (simp add: c'_def h_def ApplyRemoteForSync_def decodeBlock_pods split: option.split)
  have "int (card (insert h K)) \<le> capOf (tblStore c)" using k by (simp add: card_insert_if)
  note r = lru.put_recent [OF x this, of ?b at]
  show "\<exists>ys. storeHolds (tblStore c') ys \<and> recentKeys ys (insert h K)" using r by (auto simp: eq)
  show "accessed c' h m p = newest (accessed c h m p) (wireTime w m p)"
    unfolding c'_def h_def by (rule apply_remote(3) [where unmarshal = unmarshal and data = data, OF c u n])
  show "accessed c' g m p = accessed c g m p" if "g \<in> K" "g \<noteq> h" using r that by (auto simp: eq accessed_def)
qed

lemma table_merge:
  "mergeEntry r (PrefixHashTableSyncable marshal unmarshal ended clock) kv (c, n) =
     (case kv of
        (key, None) \<Rightarrow> (c, n)
      | (key, Some sv) \<Rightarrow>
          (let bid = entityIDFromKey r ''prefixcache'' key
           in if bid = [] then (c, n) else (snd (ApplyRemoteForSync unmarshal (clock n) bid sv c), n + 1)))"
  by (auto simp: mergeEntry_def PrefixHashTableSyncable_def Let_def split: prod.split option.split)

lemma decoded_map: "decodesMaps unmarshal \<Longrightarrow> unmarshal d = Some w \<Longrightarrow> wireOk w"
  by (auto simp: decodesMaps_def)

lemma remote_refused:
  "parseUint64 bid = None \<or> unmarshal data = None \<Longrightarrow> snd (ApplyRemoteForSync unmarshal at bid data c) = c"
  by (auto simp: ApplyRemoteForSync_def decodeBlock_pods split: option.split)

lemma merge_ok:
  assumes "tableOk (fst st)" and "decodesMaps unmarshal"
  shows "tableOk (fst (mergeEntry r (PrefixHashTableSyncable marshal unmarshal ended clock) kv st)) \<and>
         capOf (tblStore (fst (mergeEntry r (PrefixHashTableSyncable marshal unmarshal ended clock) kv st))) = capOf (tblStore (fst st))"
  using assms(1) tableOk_remote [where unmarshal = unmarshal, OF assms(1) decoded_map [OF assms(2)]]
  by (cases st) (auto simp: table_merge Let_def remote_cap split: prod.split option.split)

lemma merges_ok:
  assumes "decodesMaps unmarshal"
  shows "tableOk (fst st) \<Longrightarrow>
           tableOk (fst (fold (mergeEntry r (PrefixHashTableSyncable marshal unmarshal ended clock)) kvs st)) \<and>
           capOf (tblStore (fst (fold (mergeEntry r (PrefixHashTableSyncable marshal unmarshal ended clock)) kvs st))) = capOf (tblStore (fst st))"
proof (induction kvs arbitrary: st)
  case (Cons kv kvs)
  note o = merge_ok [where r = r and marshal = marshal and ended = ended and clock = clock and kv = kv, OF Cons.prems assms]
  show ?case using Cons.IH [OF o [THEN conjunct1]] o by simp
qed simp

lemma merge_keeps:
  fixes r :: "tableState redisSync" and marshal :: "blockWire \<Rightarrow> string option" and ended :: "nat \<Rightarrow> bool" and clock :: "nat \<Rightarrow> int"
    and kv :: "string \<times> string option"
  assumes c: "tableOk (fst st)" and u: "decodesMaps unmarshal"
    and x: "storeHolds (tblStore (fst st)) xs" "recentKeys xs K" and k: "finite K" "int (card K) < capOf (tblStore (fst st))"
    and h: "h \<in> K" "knownSince st h m p t"
  defines "st' \<equiv> mergeEntry r (PrefixHashTableSyncable marshal unmarshal ended clock) kv st"
  shows "\<exists>ys K'. storeHolds (tblStore (fst st')) ys \<and> recentKeys ys K' \<and> finite K' \<and> card K' \<le> card K + 1 \<and> h \<in> K' \<and> knownSince st' h m p t"
proof -
  obtain c n key v where s: "st = (c, n)" "kv = (key, v)" by (metis surj_pair)
  let ?bid = "entityIDFromKey r ''prefixcache'' key"
  show ?thesis
  proof (cases "v = None \<or> ?bid = [] \<or> parseUint64 ?bid = None \<or> unmarshal (the v) = None")
    case True
    then have "fst st' = c" by (auto simp: st'_def s table_merge Let_def remote_refused split: option.split)
    then show ?thesis using x k h s by (intro exI [of _ xs] exI [of _ K]) auto
  next
    case False
    then obtain sv b w where v: "v = Some sv" "?bid \<noteq> []" "parseUint64 ?bid = Some b" "unmarshal sv = Some w" by auto
    then have st': "fst st' = snd (ApplyRemoteForSync unmarshal (clock n) ?bid sv c)" by (simp add: st'_def s table_merge)
    note p = remote_put [where unmarshal = unmarshal and data = sv and at = "clock n", OF _ v(4) decoded_map [OF u v(4)] v(3), of c xs K]
    have "tableOk c" "storeHolds (tblStore c) xs" "int (card K) < capOf (tblStore c)" using c x k s by simp_all
    note p = p [OF this(1,2) x(2) k(1) this(3)]
    obtain ys where "storeHolds (tblStore (fst st')) ys" "recentKeys ys (insert (word_of_int b) K)" using p(1) st' by auto
    moreover have "knownSince st' h m p t"
    proof (cases "h = word_of_int b")
      case True
      then show ?thesis using p(2) [of m p] h(2) newest_known(1) newest_later(1) st' s by (metis fst_conv order_trans)
    next
      case False
      then show ?thesis using p(3) [OF h(1)] h(2) st' s by simp
    qed
    moreover have "card (insert (word_of_int b) K) \<le> card K + 1" using k(1) by (simp add: card_insert_if)
    ultimately show ?thesis using k(1) h(1) by blast
  qed
qed

lemma merges_keep:
  assumes u: "decodesMaps unmarshal"
  shows "tableOk (fst st) \<Longrightarrow> storeHolds (tblStore (fst st)) xs \<Longrightarrow> recentKeys xs K \<Longrightarrow> finite K \<Longrightarrow>
         int (card K + length kvs) \<le> capOf (tblStore (fst st)) \<Longrightarrow> h \<in> K \<Longrightarrow> knownSince st h m p t \<Longrightarrow>
         knownSince (fold (mergeEntry r (PrefixHashTableSyncable marshal unmarshal ended clock)) kvs st) h m p t"
proof (induction kvs arbitrary: st xs K)
  case (Cons kv kvs)
  let ?st = "mergeEntry r (PrefixHashTableSyncable marshal unmarshal ended clock) kv st"
  have o: "tableOk (fst ?st)" "capOf (tblStore (fst ?st)) = capOf (tblStore (fst st))"
    using merge_ok [where r = r and marshal = marshal and ended = ended and clock = clock and kv = kv, OF Cons.prems(1) u] by simp_all
  have "int (card K) < capOf (tblStore (fst st))" using Cons.prems(5) by simp
  note k = merge_keeps [where r = r and marshal = marshal and ended = ended and clock = clock and kv = kv,
      OF Cons.prems(1) u Cons.prems(2,3,4) this Cons.prems(6,7)]
  obtain ys K' where y: "storeHolds (tblStore (fst ?st)) ys" "recentKeys ys K'" "finite K'" "card K' \<le> card K + 1" "h \<in> K'"
    "knownSince ?st h m p t" using k by blast
  have "int (card K' + length kvs) \<le> capOf (tblStore (fst ?st))" using y(4) Cons.prems(5) o(2) by simp
  from Cons.IH [OF o(1) y(1,2,3) this y(5,6)] show ?case by simp
qed simp

lemma pulled_is_known:
  assumes c: "tableOk (fst st)" and u: "decodesMaps unmarshal"
    and k: "(redisKeyForEntity r ''prefixcache'' (formatUint h), Some data) \<in> set kvs"
    and w: "unmarshal data = Some w" "wireTime w m p = Some t" and n: "int (length kvs) \<le> capOf (tblStore (fst st))"
  shows "knownSince (fold (mergeEntry r (PrefixHashTableSyncable marshal unmarshal ended clock)) kvs st) h m p t"
proof -
  let ?f = "mergeEntry r (PrefixHashTableSyncable marshal unmarshal ended clock)"
  let ?kv = "(redisKeyForEntity r ''prefixcache'' (formatUint h), Some data)"
  obtain pre post where kvs: "kvs = pre @ ?kv # post" using k by (auto simp: in_set_conv_decomp)
  obtain c1 n1 where s1: "fold ?f pre st = (c1, n1)" by (metis surj_pair)
  have o: "tableOk c1" "capOf (tblStore c1) = capOf (tblStore (fst st))"
    using merges_ok [where r = r and marshal = marshal and ended = ended and clock = clock and kvs = pre, OF u c] by (simp_all add: s1)
  obtain xs where x: "storeHolds (tblStore c1) xs" using tableOk_holds [OF o(1)] by blast
  have z: "recentKeys xs {}" by (simp add: recentKeys_def)
  have cap: "int (card {}) < capOf (tblStore c1)" using n o(2) kvs by simp
  note q = remote_put [where unmarshal = unmarshal and data = data and at = "clock n1", OF o(1) w(1) decoded_map [OF u w(1)] parse_format [of h] x z finite.emptyI cap]
  let ?st = "?f ?kv (c1, n1)"
  have "formatUint h \<noteq> []" by (simp add: formatUint_def)
  then have st: "fst ?st = snd (ApplyRemoteForSync unmarshal (clock n1) (formatUint h) data c1)" by (simp add: table_merge)
  have known: "knownSince ?st h m p t"
    using q(2) [of m p] w(2) newest_known(2) [of "accessed c1 h m p" t] newest_later(2) [of "accessed c1 h m p" t] st by auto
  obtain ys where ys: "storeHolds (tblStore (fst ?st)) ys" "recentKeys ys {h}" using q(1) st by auto
  have "tableOk (fst ?st)" "capOf (tblStore (fst ?st)) = capOf (tblStore c1)"
    using merge_ok [where st = "(c1, n1)", OF _ u] o(1) by simp_all
  moreover from this(2) have "int (card {h} + length post) \<le> capOf (tblStore (fst ?st))" using n o(2) kvs by simp
  ultimately have "knownSince (fold ?f post ?st) h m p t"
    by (intro merges_keep [OF u _ ys _ _ _ known]) simp_all
  then show ?thesis by (simp add: kvs s1)
qed

section \<open>Histories\<close>

lemma routedBlocks_append: "routedBlocks (ops @ later) = routedBlocks ops + routedBlocks later"
proof (induction ops)
  case (Cons op ops)
  then show ?case by (cases op) simp_all
qed simp

lemma history_delta:
  "deltaRel c s \<Longrightarrow> unat (dirtySeq c) + routedBlocks ops < 2 ^ 64 \<Longrightarrow>
     unat (dirtySeq (runOps cfg marshal unmarshal ops c)) = unat (dirtySeq c) + routedBlocks ops"
proof (induction ops arbitrary: c s)
  case (Cons op ops)
  note o = deltaRel_op [OF Cons.prems, of cfg marshal unmarshal]
  have "unat (dirtySeq (runOp cfg marshal unmarshal op c)) + routedBlocks ops < 2 ^ 64"
    using o Cons.prems(2) by (simp only: o [THEN conjunct2])
  from Cons.IH [OF o [THEN conjunct1] this] show ?case using o by (simp add: runOps_def)
qed (simp add: runOps_def)

text \<open>A table with any history since deltas were enabled.\<close>

lemma enabled_history:
  assumes "routedBlocks ops < 2 ^ 64"
    and "tbl = runOps cfg marshal unmarshal ops (EnableDeltaSync (NewPrefixHashTable cfg seed))"
  shows "\<exists>s. deltaRel tbl s" and "unat (dirtySeq tbl) = routedBlocks ops"
proof -
  have z: "unat (dirtySeq (EnableDeltaSync (NewPrefixHashTable cfg seed))) = 0"
    by (simp add: EnableDeltaSync_def NewPrefixHashTable_def)
  have b: "unat (dirtySeq (EnableDeltaSync (NewPrefixHashTable cfg seed))) + routedBlocks ops < 2 ^ 64"
    unfolding z add_0 by (rule assms(1))
  show "\<exists>s. deltaRel tbl s" unfolding assms(2) by (rule exI, rule deltaRel_ops [OF deltaRel_new b])
  show "unat (dirtySeq tbl) = routedBlocks ops" unfolding assms(2) history_delta [OF deltaRel_new b] z by simp
qed

lemma history_ok:
  assumes "decodesMaps unmarshal" and "cfg = prefixSettings getenv"
  shows "tableOk (runOps cfg marshal unmarshal ops (NewPrefixHashTable cfg seed))"
    and "tableOk (runOps cfg marshal unmarshal ops (EnableDeltaSync (NewPrefixHashTable cfg seed)))"
    and "capOf (tblStore (runOps cfg marshal unmarshal ops (NewPrefixHashTable cfg seed))) = prefixCacheBlockNumber cfg"
proof -
  have n: "tableOk (NewPrefixHashTable cfg seed)" using settings_positive(2) assms(2) by (intro tableOk_new) simp
  have u: "unmarshal d = Some w \<Longrightarrow> wireOk w" for d w using decoded_map [OF assms(1)] .
  have o: "tableOk (runOps cfg marshal unmarshal ops c) \<and> capOf (tblStore (runOps cfg marshal unmarshal ops c)) = capOf (tblStore c)"
    if "tableOk c" for c by (rule tableOk_ops [OF _ that]) (rule u)
  show "tableOk (runOps cfg marshal unmarshal ops (NewPrefixHashTable cfg seed))"
    "capOf (tblStore (runOps cfg marshal unmarshal ops (NewPrefixHashTable cfg seed))) = prefixCacheBlockNumber cfg"
    using o [OF n] by (simp_all add: NewPrefixHashTable_def)
  have "tableOk (EnableDeltaSync (NewPrefixHashTable cfg seed))"
    using n by (simp add: EnableDeltaSync_def tableOk_def split: option.split)
  from o [OF this] show "tableOk (runOps cfg marshal unmarshal ops (EnableDeltaSync (NewPrefixHashTable cfg seed)))" by simp
qed

lemma push_table:
  "Push c r meanwhile (PrefixHashTableSyncable marshal unmarshal ended clock) w =
     pushDelta c r meanwhile ''prefixcache'' None (tableDelta marshal ended) w"
  by (simp add: Push_def PrefixHashTableSyncable_def)

lemma touch_history:
  assumes "list_all quietOp later" and "unat (dirtySeq tbl) + routedBlocks later < 2 ^ 64"
  shows "tableTouch cfg marshal unmarshal (formatUint ` routedHashes later) (snd (GetDelta (tableDelta marshal ended) (tbl, k)))
           ((\<lambda>(t, n). (runOps cfg marshal unmarshal later t, n)) (snd (GetDelta (tableDelta marshal ended) (tbl, k))))"
proof -
  have "dirtySeq (snd (GetDeltaForSync marshal ended tbl)) = dirtySeq tbl" by (simp add: delta_state)
  then show ?thesis using assms by (auto simp: tableTouch_def tableDelta_def split: prod.split)
qed

section \<open>The loop\<close>

lemma nextBackoff_bounds:
  assumes "0 < p" and "p \<le> b" and "b \<le> max p maxBackoff"
  shows "p \<le> nextBackoff p failed b \<and> nextBackoff p failed b \<le> max p maxBackoff"
proof -
  have "in_i64 (b * 2)" if "b < maxBackoff" using that assms by (simp add: maxBackoff_def)
  then show ?thesis using assms by (auto simp: nextBackoff_def Let_def wrap_simps)
qed

lemma jitter_bounds:
  fixes p x :: int
  assumes "0 < p" and "0 \<le> x" and "x < max 1 (p div 5)" and "j = (if 0 < p div 5 then x - p div 10 else 0)"
  shows "- (p div 10) \<le> j" and "j \<le> p div 10"
proof -
  have "p div 5 \<le> 2 * (p div 10) + 1" "0 \<le> p div 10" using assms(1) by linarith+
  then show "- (p div 10) \<le> j" "j \<le> p div 10" using assms(2-4) by (auto simp: max_def split: if_splits)
qed

lemma wait_bounds:
  assumes p: "0 < p" "p < 2 ^ 61" and b: "p \<le> b" "b \<le> max p maxBackoff" and x: "0 \<le> x" "x < max 1 (p div 5)"
  shows "p div 2 \<le> waitInterval p b x \<and> waitInterval p b x \<le> b + p div 10"
proof -
  obtain j where j: "j = (if 0 < p div 5 then x - p div 10 else 0)" by blast
  note jb = jitter_bounds [OF p(1) x j]
  have m: "p < 2305843009213693952" "max p maxBackoff < 2305843009213693952" using p(2) by (simp_all add: maxBackoff_def)
  have d: "0 \<le> p div 10" "p div 10 < 2305843009213693952" "p div 2 \<le> p" using p(1) m(1) by linarith+
  have "in_i64 j" "in_i64 (b + j)" using jb d m p(1) b by linarith+
  then have "waitInterval p b x = (if b + j < p div 2 then p div 2 else b + j)"
    using p(1) j by (auto simp: waitInterval_def durDiv_def Let_def wrap_simps)
  then show ?thesis using jb(2) d(1,3) b(1) by (cases "b + j < p div 2") simp_all
qed

lemma rounds_keep:
  assumes "\<And>b t. I b \<Longrightarrow> R t \<Longrightarrow> P (waitInterval p b (turnRandom t))"
    and "\<And>b w. I b \<Longrightarrow> I (nextBackoff p (fst (cycle w) \<noteq> None) b)"
  shows "I b \<Longrightarrow> list_all R turns \<Longrightarrow> list_all P (fst (syncRounds p cycle turns b w))"
proof (induction turns arbitrary: b w)
  case (Cons t ts)
  obtain err w1 where c: "cycle w = (err, w1)" by (metis surj_pair)
  have "I (nextBackoff p (err \<noteq> None) b)" using assms(2) [OF Cons.prems(1), of w] c by simp
  from Cons.IH [OF this, of w1] show ?case
    using assms(1) [OF Cons.prems(1), of t] Cons.prems(2) c by (simp add: Let_def case_prod_beta)
qed simp

lemma rounds_bounded:
  assumes p: "0 < p" "p < 2 ^ 61" and t: "list_all (\<lambda>t. 0 \<le> turnRandom t \<and> turnRandom t < max 1 (p div 5)) turns"
    and b: "p \<le> b \<and> b \<le> max p maxBackoff"
  shows "list_all (\<lambda>x. p div 2 \<le> x \<and> x \<le> max p maxBackoff + p div 10) (fst (syncRounds p cycle turns b w))"
proof (rule rounds_keep [where I = "\<lambda>b. p \<le> b \<and> b \<le> max p maxBackoff", OF _ _ b t])
  fix b t assume b: "p \<le> b \<and> b \<le> max p maxBackoff" and t: "0 \<le> turnRandom t \<and> turnRandom t < max 1 (p div 5)"
  have "p div 2 \<le> waitInterval p b (turnRandom t) \<and> waitInterval p b (turnRandom t) \<le> b + p div 10"
    by (rule wait_bounds [OF p b [THEN conjunct1] b [THEN conjunct2] t [THEN conjunct1] t [THEN conjunct2]])
  moreover have "b + p div 10 \<le> max p maxBackoff + p div 10" using b by (intro add_right_mono) (rule conjunct2)
  ultimately show "p div 2 \<le> waitInterval p b (turnRandom t) \<and> waitInterval p b (turnRandom t) \<le> max p maxBackoff + p div 10"
    by (blast intro: order_trans)
next
  fix b w assume "p \<le> b \<and> b \<le> max p maxBackoff"
  then show "p \<le> nextBackoff p (fst (cycle w) \<noteq> None) b \<and> nextBackoff p (fst (cycle w) \<noteq> None) b \<le> max p maxBackoff"
    by (intro nextBackoff_bounds p(1)) (blast elim: conjE)+
qed

lemma rounds_succeeding:
  assumes p: "0 < p" "p < 2 ^ 61" and t: "list_all (\<lambda>t. 0 \<le> turnRandom t \<and> turnRandom t < max 1 (p div 5)) turns"
    and c: "\<And>w. fst (cycle w) = None"
  shows "list_all (\<lambda>x. x \<le> p + p div 10) (fst (syncRounds p cycle turns p w))"
proof (rule rounds_keep [where I = "\<lambda>b. b = p", OF _ _ refl t])
  fix b t assume b: "b = p" and t: "0 \<le> turnRandom t \<and> turnRandom t < max 1 (p div 5)"
  show "waitInterval p b (turnRandom t) \<le> p + p div 10"
    unfolding b by (rule wait_bounds [OF p order_refl max.cobounded1 t [THEN conjunct1] t [THEN conjunct2], THEN conjunct2])
qed (simp add: nextBackoff_def c)

lemma rounds_stop:
  "turnStopped t \<Longrightarrow> syncRounds p cycle (ts @ t # later) b w = syncRounds p cycle (ts @ [t]) b w"
  by (induction ts arbitrary: b w) (simp_all add: Let_def split: prod.split)

lemma scanned_key:
  assumes "redisServes c holds" and "literalPattern (keyPrefix r)" and "scanKeys c (redisScanPattern r ''prefixcache'') rd = (keys, False)"
    and "holds rd (redisKeyForEntity r ''prefixcache'' eid) \<noteq> None"
  shows "redisKeyForEntity r ''prefixcache'' eid \<in> set keys"
proof -
  let ?p = "keyPrefix r @ '':{prefixcache}:e:''"
  have "literalPattern ?p" using assms(2) by (simp add: literalPattern_def)
  moreover have "scanKeys c (?p @ ''*'') rd = (keys, False)" using assms(3) by (simp add: redisScanPattern_def)
  moreover have "prefix ?p (redisKeyForEntity r ''prefixcache'' eid)" by (simp add: redisKeyForEntity_def)
  ultimately show ?thesis using redisServes_scan [OF assms(1)] assms(4) by blast
qed

lemma sent_times:
  assumes "tableOk a" and "tableWire marshal (a, i) (formatUint h) = Some data" and "accessed a h m p = Some t"
    and "\<And>m p t. accessed a h m p = Some t \<Longrightarrow> in_i64 t"
  shows "\<exists>w. wireOk w \<and> marshal w = Some data \<and> wireTime w m p = Some t"
proof -
  obtain blk where blk: "Get h (tblStore a) = Some blk" and enc: "encodeBlock marshal blk = Some data"
    using assms(2) by (auto simp: tableWire_def parse_format bind_eq_Some_conv)
  let ?w = "map (\<lambda>(model, pods). (model, map (\<lambda>(pod, t). (pod, i64 t)) pods)) (modelToPods blk)"
  have "blockOk blk" using assms(1) blk by (simp add: tableOk_def storeOk_def)
  then have "wireOk ?w" by (rule wireOk_encoded)
  moreover have "wireTime ?w m p = map_of (podsOf blk m) p"
    by (rule wireTime_encoded) (use assms(4) blk in \<open>simp add: accessed_def\<close>)
  ultimately show ?thesis using enc assms(3) blk by (auto simp: encodeBlock_def accessed_def)
qed

lemma exServes: "redisServes exClient map_of"
proof -
  have "map_of (fold (\<lambda>cmd rd. case cmd of SetEx key v _ \<Rightarrow> AList.update key v rd | Del key \<Rightarrow> AList.delete key rd) cmds rd) =
      fold cmdEffect cmds (map_of rd)" for cmds and rd :: "(string \<times> string) list"
    by (induction cmds arbitrary: rd) (auto simp: update_conv' delete_conv' split: redisCmd.split)
  moreover have "map_of rd key \<noteq> None \<Longrightarrow> key \<in> set (map fst rd)" for rd :: "(string \<times> string) list" and key
    by (simp only: map_of_eq_None_iff set_map not_not)
  ultimately show ?thesis unfolding redisServes_def exClient_def Let_def by simp
qed

lemma exReplica_enabled:
  "exReplica = runOps exSettings exMarshal exUnmarshal [OpAdd 100 (\<lambda>_. 100) [5] ''m'' ''ns/p''] (EnableDeltaSync (NewPrefixHashTable exSettings 7))"
  by (simp add: exReplica_def runOps_def)

section \<open>Properties\<close>

text \<open>
  C12. Pushing the prefix index loses nothing, however Redis fails and whatever is routed meanwhile. When a
  push reports no error, every block that waited to be pushed and still has a form on the wire is in
  Redis under its key, in the form it had when the delta was taken. When it reports one, every block
  that waited still waits. Blocks routed while the delta was written wait for the next push in either
  case, and no block starts to wait that was not routed.
\<close>

theorem push_loses_nothing:
  assumes "redisServes c holds" and "list_all quietOp later" and "routedBlocks (ops @ later) < 2 ^ 64"
    and "tbl = runOps cfg marshal unmarshal ops (EnableDeltaSync (NewPrefixHashTable cfg seed))"
    and "Push c r (\<lambda>(t, n). (runOps cfg marshal unmarshal later t, n)) (PrefixHashTableSyncable marshal unmarshal ended clock)
           (rd, tbl, k) = (err, rd', st')"
  shows "(err = None \<longrightarrow> (\<forall>bid data. bid \<in> tablePending (tbl, k) \<longrightarrow> tableWire marshal (tbl, k) bid = Some data \<longrightarrow>
            holds rd' (redisKeyForEntity r ''prefixcache'' bid) = Some data)) \<and>
         (err \<noteq> None \<longrightarrow> tablePending st' = tablePending (tbl, k) \<union> formatUint ` routedHashes later) \<and>
         formatUint ` routedHashes later \<subseteq> tablePending st' \<and>
         tablePending st' \<subseteq> tablePending (tbl, k) \<union> formatUint ` routedHashes later"
proof -
  have b: "routedBlocks ops < 2 ^ 64" "routedBlocks ops + routedBlocks later < 2 ^ 64"
    using assms(3) unfolding routedBlocks_append by linarith+
  note h = enabled_history [OF b(1) assms(4)]
  have ok: "\<exists>s. deltaRel (fst (tbl, k)) s" using h(1) by simp
  have "unat (dirtySeq tbl) + routedBlocks later < 2 ^ 64" unfolding h(2) by (rule b(2))
  note t = touch_history [OF assms(2) this, of cfg marshal unmarshal ended k]
  note p = assms(5) [unfolded push_table]
  note q = indexDelta.push_pending [OF ok t p]
  have "holds rd' (redisKeyForEntity r ''prefixcache'' bid) = Some data"
    if "err = None" "bid \<in> tablePending (tbl, k)" "tableWire marshal (tbl, k) bid = Some data" for bid data
    by (rule indexDelta.push_writes [OF ok assms(1) p [unfolded that(1)] that(2,3)])
  then show ?thesis using q by auto
qed

theorem push_loses_nothing_witness:
  "fst exPush = None \<and>
   map_of (fst (snd exPush)) (redisKeyForEntity exManager ''prefixcache'' ''5'') = Some ''x'' \<and> {''6''} \<subseteq> tablePending (snd (snd exPush))"
proof -
  have e: "fst exPush = None" "''5'' \<in> tablePending (exReplica, 0)" "tableWire exMarshal (exReplica, 0) ''5'' = Some ''x''"
    "formatUint ` routedHashes [OpAdd 110 (\<lambda>_. 110) [6] ''m'' ''ns/q''] = {''6''}" by code_simp+
  have l: "list_all quietOp [OpAdd 110 (\<lambda>_. 110) [6] ''m'' ''ns/q'']"
    "routedBlocks ([OpAdd 100 (\<lambda>_. 100) [5] ''m'' ''ns/p''] @ [OpAdd 110 (\<lambda>_. 110) [6] ''m'' ''ns/q'']) < 2 ^ 64" by simp_all
  have "Push exClient exManager (\<lambda>(t, n). (runOps exSettings exMarshal exUnmarshal [OpAdd 110 (\<lambda>_. 110) [6] ''m'' ''ns/q''] t, n)) exSyncable
      ([], exReplica, 0) = (fst exPush, fst (snd exPush), snd (snd exPush))" by (simp only: exPush_def prod.collapse)
  note t = push_loses_nothing [OF exServes l exReplica_enabled this]
  have "map_of (fst (snd exPush)) (redisKeyForEntity exManager ''prefixcache'' ''5'') = Some ''x''"
    by (rule t [THEN conjunct1, THEN mp, OF e(1), rule_format, OF e(2,3)])
  moreover have "{''6''} \<subseteq> tablePending (snd (snd exPush))"
    by (rule t [THEN conjunct2, THEN conjunct2, THEN conjunct1, unfolded e(4)])
  ultimately show ?thesis using e(1) by blast
qed

text \<open>
  C13. A prompt prefix that one replica routed reaches another: once a push of the first replica and then
  a pull of the second report no error, the second knows every pod of a block that waited to be pushed,
  with an access time no older than the first replica had. Neither the sizes of the pipelines and
  batches nor the order of the keys matter, nor what is routed on the first replica meanwhile. The
  hypotheses ask that the index of the second replica has room for the keys that Redis yields, that the
  times fit 64 bits, that decoding what was encoded gives the same times, and that the prefix of the
  keys has no character that is special in a pattern.
\<close>

theorem pushed_prefix_reaches_replica:
  assumes "redisServes c holds" and "decodesMaps unmarshal" and "cfg = prefixSettings getenv" and "routedBlocks ops < 2 ^ 64"
    and "a = runOps cfg marshal unmarshal ops (EnableDeltaSync (NewPrefixHashTable cfg seed))"
    and "b = runOps cfg marshal unmarshal opsB (NewPrefixHashTable cfg seedB)"
    and "formatUint h \<in> tablePending (a, i)" and "tableWire marshal (a, i) (formatUint h) = Some data"
    and "\<And>m p t. accessed a h m p = Some t \<Longrightarrow> in_i64 t"
    and "\<And>w. wireOk w \<Longrightarrow> marshal w = Some data \<Longrightarrow> (\<exists>w'. unmarshal data = Some w' \<and> (\<forall>m p. wireTime w' m p = wireTime w m p))"
    and "keyPrefix ra = keyPrefix rb" and "literalPattern (keyPrefix rb)"
    and "Push c ra meanwhile (PrefixHashTableSyncable marshal unmarshal ended clock) (rd, a, i) = (None, rd1, sa)"
    and "Pull c rb (PrefixHashTableSyncable marshal unmarshal endedB clockB) (rd1, b, j) = (None, rd2, sb)"
    and "int (length (fst (scanKeys c (redisScanPattern rb ''prefixcache'') rd1))) \<le> prefixCacheBlockNumber cfg"
    and "accessed a h m p = Some t"
  shows "\<exists>t'. accessed (fst sb) h m p = Some t' \<and> t \<le> t'"
proof -
  let ?key = "redisKeyForEntity rb ''prefixcache'' (formatUint h)"
  have ok: "\<exists>s. deltaRel (fst (a, i)) s" using enabled_history(1) [OF assms(4,5)] by simp
  have "redisKeyForEntity ra ''prefixcache'' (formatUint h) = ?key" using assms(11) by (simp add: redisKeyForEntity_def)
  then have held: "holds rd1 ?key = Some data"
    using indexDelta.push_writes [OF ok assms(1) assms(13) [unfolded push_table] assms(7,8)] by simp
  obtain keys where k: "scanKeys c (redisScanPattern rb ''prefixcache'') rd1 = (keys, False)"
    and sb: "sb = fold (mergeEntry rb (PrefixHashTableSyncable marshal unmarshal endedB clockB)) (map (\<lambda>key. (key, holds rd1 key)) keys) (b, j)"
    using Pull_merges [OF assms(1) _ _ assms(14)] by (auto simp: PrefixHashTableSyncable_def)
  have "?key \<in> set keys" by (rule scanned_key [OF assms(1,12) k]) (simp add: held)
  then have kv: "(?key, Some data) \<in> set (map (\<lambda>key. (key, holds rd1 key)) keys)" using held by force
  have "tableOk a" unfolding assms(5) by (rule history_ok(2) [OF assms(2,3)])
  then have "\<exists>w. wireOk w \<and> marshal w = Some data \<and> wireTime w m p = Some t"
    by (rule sent_times [OF _ assms(8,16)]) (rule assms(9))
  then obtain w0 where w0: "wireOk w0" "marshal w0 = Some data" "wireTime w0 m p = Some t" by blast
  obtain w where w: "unmarshal data = Some w" "wireTime w m p = Some t" using assms(10) [OF w0(1,2)] w0(3) by auto
  have "tableOk (fst (b, j))" "int (length (map (\<lambda>key. (key, holds rd1 key)) keys)) \<le> capOf (tblStore (fst (b, j)))"
    using history_ok(1,3) [OF assms(2,3), where ops = opsB and seed = seedB and marshal = marshal] assms(6,15) k by simp_all
  from pulled_is_known [OF this(1) assms(2) kv w this(2)] show ?thesis unfolding sb .
qed

theorem pushed_prefix_reaches_replica_witness:
  "\<exists>t. accessed (fst (snd (snd exPull))) 5 ''m'' ''ns/p'' = Some t \<and> 100 \<le> t"
proof -
  have e: "fst exPush = None" "formatUint 5 \<in> tablePending (exReplica, 0)" "tableWire exMarshal (exReplica, 0) (formatUint 5) = Some ''x''"
    "fst exPull = None" "literalPattern (keyPrefix exManager)"
    "int (length (fst (scanKeys exClient (redisScanPattern exManager ''prefixcache'') (fst (snd exPush))))) \<le> prefixCacheBlockNumber exSettings"
    by code_simp+
  have i: "in_i64 t" if "accessed exReplica 5 m p = Some t" for m p t
    using that by (auto simp: accessed_def exReplica_block exWire_def podsOf_def split: if_splits)
  have a: "accessed exReplica 5 ''m'' ''ns/p'' = Some 100" by (simp add: accessed_def exReplica_block exWire_def podsOf_def)
  have c: "\<exists>w'. exUnmarshal ''x'' = Some w' \<and> (\<forall>m p. wireTime w' m p = wireTime w m p)" if "exMarshal w = Some ''x''" for w
    using that by (simp add: exMarshal_def exUnmarshal_def split: if_splits)
  have p: "Push exClient exManager (\<lambda>(t, n). (runOps exSettings exMarshal exUnmarshal [OpAdd 110 (\<lambda>_. 110) [6] ''m'' ''ns/q''] t, n)) exSyncable
      ([], exReplica, 0) = (None, fst (snd exPush), snd (snd exPush))" using e(1) by (simp add: prod_eq_iff flip: exPush_def)
  have q: "Pull exClient exManager exSyncable (fst (snd exPush), runOps exSettings exMarshal exUnmarshal [] (NewPrefixHashTable exSettings 9), 0) =
      (None, fst (snd exPull), snd (snd exPull))" using e(4) by (simp add: prod_eq_iff flip: exPull_def)
  have d: "decodesMaps exUnmarshal" using exCodec(1) by (auto simp: decodesMaps_def)
  have r: "routedBlocks [OpAdd 100 (\<lambda>_. 100) [5] ''m'' ''ns/p''] < 2 ^ 64" by simp
  show ?thesis
    by (rule pushed_prefix_reaches_replica [OF exServes d exSettings_def r exReplica_enabled refl e(2,3) _ _ refl e(5) p q e(6) a])
      (erule i, erule c)
qed



end
