(* ===== verification/RuntimeSilence.thy ===== *)
theory RuntimeSilence
  imports Aibrix_Prelude
begin

text \<open>
  The memory of runtimes that did not answer in time (\<open>runtimeSilence\<close> of
  \<^verbatim>\<open>src/pkg/controller/modelclaim/runtime_client.go\<close>) and the call that asks it (\<open>do\<close>).

  Times and durations are nanoseconds, times since Go's zero time; a runtime that is not
  remembered reads as the zero \<open>silentRuntime\<close>. The HTTP call is the parameter \<open>outcome\<close>.
\<close>

section \<open>State and operations\<close>

record silentRuntime =
  timeouts :: int
  until :: int

record runtimeSilence =
  shortest :: int
  longest :: int
  runtimes :: "string \<rightharpoonup> silentRuntime"

text \<open>How a call ended: an answer, a failure that is no timeout, or a timeout.\<close>

datatype callEnd = Answered | FailedOtherwise | TimedOut

definition shortestRuntimeSilence :: int where
  "shortestRuntimeSilence = 10000000000"

definition runtimeSilenceWindow :: int where
  "runtimeSilenceWindow = 60000000000"

definition newRuntimeSilence :: runtimeSilence where
  "newRuntimeSilence =
     \<lparr>shortest = shortestRuntimeSilence, longest = runtimeSilenceWindow, runtimes = Map.empty\<rparr>"

definition rememberedRuntime :: "runtimeSilence \<Rightarrow> string \<Rightarrow> silentRuntime" where
  "rememberedRuntime s r =
     (case runtimes s r of Some x \<Rightarrow> x | None \<Rightarrow> \<lparr>timeouts = 0, until = 0\<rparr>)"

definition silent :: "runtimeSilence \<Rightarrow> int \<Rightarrow> string \<Rightarrow> bool" where
  "silent s now r \<longleftrightarrow> now < until (rememberedRuntime s r)"

definition dropOld :: "runtimeSilence \<Rightarrow> int \<Rightarrow> runtimeSilence" where
  "dropOld s now =
     s\<lparr>runtimes := (\<lambda>r. case runtimes s r of
                        Some x \<Rightarrow> if \<not> now < until x + longest s then None else Some x
                      | None \<Rightarrow> None)\<rparr>"

definition aloneFor :: "runtimeSilence \<Rightarrow> int \<Rightarrow> int" where
  "aloneFor s n =
     (let alone = i64 (shortest s * 2 ^ nat (min (n - 1) 16))
      in if alone > longest s \<or> alone \<le> 0 then longest s else alone)"

definition observeCall :: "runtimeSilence \<Rightarrow> int \<Rightarrow> string \<Rightarrow> callEnd \<Rightarrow> runtimeSilence" where
  "observeCall s now r err =
     (case err of
        TimedOut \<Rightarrow>
          (let s1 = dropOld s now;
               n = i64 (timeouts (rememberedRuntime s1 r) + 1)
           in s1\<lparr>runtimes := (runtimes s1)(r \<mapsto> \<lparr>timeouts = n, until = now + aloneFor s1 n\<rparr>)\<rparr>)
      | _ \<Rightarrow> s\<lparr>runtimes := (runtimes s)(r := None)\<rparr>)"

datatype callResult = LeftAlone | Called callEnd

text \<open>\<open>outcome\<close> is how the HTTP call ends and at what time, \<open>canceled\<close> whether its caller canceled
  it. Only a deactivation is sent to a runtime that is left alone.\<close>

definition do_call ::
  "runtimeSilence \<Rightarrow> int \<Rightarrow> string \<Rightarrow> bool \<Rightarrow> callEnd \<Rightarrow> int \<Rightarrow> bool \<Rightarrow> callResult \<times> runtimeSilence" where
  "do_call s now r deactivate outcome ended canceled =
     (if \<not> deactivate \<and> silent s now r then (LeftAlone, s)
      else if outcome \<noteq> Answered \<and> canceled then (Called outcome, s)
      else (Called outcome, observeCall s ended r outcome))"

section \<open>Runs\<close>

text \<open>Calls one after another, the clock never running backwards.\<close>

inductive silence_run :: "int \<Rightarrow> runtimeSilence \<Rightarrow> bool" where
  start: "0 \<le> now \<Longrightarrow> silence_run now newRuntimeSilence"
| call: "silence_run now s \<Longrightarrow> now \<le> now' \<Longrightarrow> now' \<le> ended \<Longrightarrow>
           silence_run ended (snd (do_call s now' r deactivate outcome ended canceled))"

text \<open>\<open>n\<close> timeouts of a runtime in a row, each call made when the runtime is no longer left alone and
  not so late that it was forgotten.\<close>

fun timeoutsInARow :: "runtimeSilence \<Rightarrow> string \<Rightarrow> int list \<Rightarrow> runtimeSilence" where
  "timeoutsInARow s r [] = s"
| "timeoutsInARow s r (t # ts) = timeoutsInARow (observeCall s t r TimedOut) r ts"

fun spacedCalls :: "runtimeSilence \<Rightarrow> string \<Rightarrow> int list \<Rightarrow> bool" where
  "spacedCalls s r [] = True"
| "spacedCalls s r (t # ts) =
     ((case runtimes s r of None \<Rightarrow> True | Some x \<Rightarrow> until x \<le> t \<and> t < until x + longest s) \<and>
      spacedCalls (observeCall s t r TimedOut) r ts)"

definition silence_inv :: "int \<Rightarrow> runtimeSilence \<Rightarrow> bool" where
  "silence_inv now s \<longleftrightarrow>
     shortest s = shortestRuntimeSilence \<and> longest s = runtimeSilenceWindow \<and>
     (\<forall>r x. runtimes s r = Some x \<longrightarrow> until x \<le> now + runtimeSilenceWindow \<and> 0 \<le> until x)"

section \<open>Lemmas\<close>

lemma aloneFor_range: "0 < longest s \<Longrightarrow> 0 < aloneFor s n \<and> aloneFor s n \<le> longest s"
  by (auto simp: aloneFor_def Let_def)

lemma dropOld_simps [simp]: "shortest (dropOld s now) = shortest s" "longest (dropOld s now) = longest s"
  by (simp_all add: dropOld_def)

lemma dropOld_Some: "runtimes (dropOld s now) r = Some x \<Longrightarrow> runtimes s r = Some x"
  by (auto simp: dropOld_def split: option.splits if_splits)

lemma observe_inv:
  assumes "silence_inv now s" "0 \<le> now"
  shows "silence_inv now (observeCall s now r err)"
proof (cases err)
  case TimedOut
  have "0 < aloneFor (dropOld s now) n \<and> aloneFor (dropOld s now) n \<le> runtimeSilenceWindow" for n
    using aloneFor_range [of "dropOld s now" n] assms(1) by (simp add: silence_inv_def runtimeSilenceWindow_def)
  then show ?thesis using TimedOut assms
    by (auto simp: observeCall_def silence_inv_def Let_def order_less_imp_le dest: dropOld_Some)
qed (use assms in \<open>auto simp: observeCall_def silence_inv_def\<close>)

lemma silence_inv_mono: "silence_inv now s \<Longrightarrow> now \<le> now' \<Longrightarrow> silence_inv now' s"
  unfolding silence_inv_def by fastforce

lemma silence_run_inv: "silence_run now s \<Longrightarrow> 0 \<le> now \<and> silence_inv now s"
proof (induction rule: silence_run.induct)
  case (start now)
  then show ?case by (simp add: silence_inv_def newRuntimeSilence_def)
next
  case (call now s now' ended r deactivate outcome canceled)
  then have "silence_inv ended s" "0 \<le> ended" using silence_inv_mono by auto
  then show ?case by (auto simp: do_call_def observe_inv)
qed

lemma aloneFor_default:
  "shortest s = shortestRuntimeSilence \<Longrightarrow> longest s = runtimeSilenceWindow \<Longrightarrow> 0 \<le> k \<Longrightarrow>
     aloneFor s (1 + k) = min (shortestRuntimeSilence * 2 ^ nat k) runtimeSilenceWindow"
  by (simp only: aloneFor_def shortestRuntimeSilence_def runtimeSilenceWindow_def add_diff_cancel_left'
      doubling_capped)

lemma observe_timeout_again:
  assumes "runtimes s r = Some x" "until x \<le> t" "t < until x + longest s"
  shows "runtimes (observeCall s t r TimedOut) r
           = Some \<lparr>timeouts = i64 (timeouts x + 1), until = t + aloneFor (dropOld s t) (i64 (timeouts x + 1))\<rparr>"
  using assms by (simp add: observeCall_def Let_def rememberedRuntime_def dropOld_def)

lemma observe_timeout_first:
  "runtimes s r = None \<Longrightarrow> runtimes (observeCall s t r TimedOut) r
           = Some \<lparr>timeouts = 1, until = t + aloneFor (dropOld s t) 1\<rparr>"
  by (simp add: observeCall_def Let_def rememberedRuntime_def dropOld_def)

lemma observe_keeps_bounds [simp]:
  "shortest (observeCall s t r err) = shortest s" "longest (observeCall s t r err) = longest s"
  by (cases err; simp add: observeCall_def Let_def)+

lemma timeouts_counted:
  assumes "shortest s = shortestRuntimeSilence" "longest s = runtimeSilenceWindow"
    and "runtimes s r = Some x" "timeouts x = int k" "1 \<le> k"
    and "spacedCalls s r ts" "k + length ts < 9223372036854775807"
  shows "\<exists>y. runtimes (timeoutsInARow s r ts) r = Some y \<and> timeouts y = int (k + length ts) \<and>
           (ts \<noteq> [] \<longrightarrow> until y = last ts +
              min (shortestRuntimeSilence * 2 ^ (k + length ts - 1)) runtimeSilenceWindow)"
  using assms
proof (induction ts arbitrary: s x k)
  case (Cons t ts)
  let ?s = "observeCall s t r TimedOut"
  have n: "i64 (timeouts x + 1) = int (k + 1)" using Cons.prems(4,7) by (simp add: i64_id)
  have al: "aloneFor (dropOld s t) (int (k + 1)) = min (shortestRuntimeSilence * 2 ^ k) runtimeSilenceWindow"
    using aloneFor_default [of "dropOld s t" "int k"] Cons.prems(1,2) by (simp add: add.commute)
  have st: "runtimes ?s r = Some \<lparr>timeouts = int (k + 1),
      until = t + min (shortestRuntimeSilence * 2 ^ k) runtimeSilenceWindow\<rparr>"
    using observe_timeout_again [of s r x t] Cons.prems(3,6) n al by simp
  show ?case
  proof (cases "ts = []")
    case True
    then show ?thesis using st by simp
  next
    case False
    then show ?thesis
      using Cons.IH [of ?s _ "k + 1"] st Cons.prems by simp
  qed
qed simp

section \<open>Properties\<close>

text \<open>A runtime is never left alone for longer than the longest silence: at any moment of any
  run, asking again after that time finds every runtime callable.\<close>

theorem silence_is_bounded:
  assumes "silence_run now s"
  shows "\<not> silent s (now + runtimeSilenceWindow) r"
proof -
  have "runtimes s r = Some x \<Longrightarrow> until x \<le> now + runtimeSilenceWindow" for x
    using silence_run_inv [OF assms] by (auto simp: silence_inv_def)
  moreover have "0 \<le> now + runtimeSilenceWindow"
    using silence_run_inv [OF assms] by (simp add: runtimeSilenceWindow_def)
  ultimately show ?thesis by (auto simp: silent_def rememberedRuntime_def not_less split: option.splits)
qed

theorem silence_is_bounded_witness:
  "silent (snd (do_call newRuntimeSilence 5 ''r'' False TimedOut 7 False)) 8 ''r'' \<and>
   \<not> silent (snd (do_call newRuntimeSilence 5 ''r'' False TimedOut 7 False)) (7 + runtimeSilenceWindow) ''r''"
proof -
  have "silent (snd (do_call newRuntimeSilence 5 ''r'' False TimedOut 7 False)) 8 ''r''" by code_simp
  moreover have "silence_run 7 (snd (do_call newRuntimeSilence 5 ''r'' False TimedOut 7 False))"
    by (rule silence_run.call [OF silence_run.start [of 5]]) simp_all
  ultimately show ?thesis using silence_is_bounded by blast
qed

text \<open>The silence doubles with each timeout in a row: after \<open>n\<close> timeouts with no answer in
  between, a runtime is left alone for ten seconds times two to the power \<open>n - 1\<close>, and for a
  minute at most, from its last timeout on.\<close>

theorem silence_doubles:
  assumes "runtimes s r = None" "shortest s = shortestRuntimeSilence" "longest s = runtimeSilenceWindow"
    and "spacedCalls s r (t # ts)" "Suc (length ts) < 9223372036854775807"
  shows "\<exists>y. runtimes (timeoutsInARow s r (t # ts)) r = Some y \<and> timeouts y = int (length (t # ts)) \<and>
           until y = last (t # ts) + min (shortestRuntimeSilence * 2 ^ length ts) runtimeSilenceWindow"
proof -
  let ?s = "observeCall s t r TimedOut"
  have "aloneFor (dropOld s t) 1 = min (shortestRuntimeSilence * 2 ^ 0) runtimeSilenceWindow"
    using aloneFor_default [of "dropOld s t" 0] assms(2,3) by simp
  then have st: "runtimes ?s r = Some \<lparr>timeouts = 1, until = t + min (shortestRuntimeSilence * 2 ^ 0) runtimeSilenceWindow\<rparr>"
    using observe_timeout_first [OF assms(1)] by simp
  show ?thesis
  proof (cases "ts = []")
    case True
    then show ?thesis using st by simp
  next
    case False
    then show ?thesis using timeouts_counted [of ?s r _ 1 ts] st assms by simp
  qed
qed

theorem silence_doubles_witness:
  "\<exists>y. runtimes (timeoutsInARow newRuntimeSilence ''r'' [0, 10000000000, 30000000000]) ''r'' = Some y \<and>
       timeouts y = 3 \<and> until y = 30000000000 + 40000000000"
proof -
  have "spacedCalls newRuntimeSilence ''r'' [0, 10000000000, 30000000000]" by code_simp
  moreover have "runtimes newRuntimeSilence ''r'' = None" "shortest newRuntimeSilence = shortestRuntimeSilence"
    "longest newRuntimeSilence = runtimeSilenceWindow" by (simp_all add: newRuntimeSilence_def)
  ultimately show ?thesis
    using silence_doubles [of newRuntimeSilence "''r''" 0 "[10000000000, 30000000000]"]
    by (simp add: shortestRuntimeSilence_def runtimeSilenceWindow_def)
qed

end
