(* ===== verification/Backoff.thy ===== *)
theory Backoff
  imports KvLedger "HOL-Library.AList"
begin

text \<open>
  Spacing out the tries of claims no card can hold
  (\<open>placementBackoff\<close> of \<^verbatim>\<open>src/pkg/controller/modelclaim/backoff.go\<close>).

  A \<open>roomSignature\<close> is ranged over by the code, so it is an association list with one entry per
  key, behind an option for Go's nil map. Times are nanoseconds.
\<close>

section \<open>The pool as a waiting claim saw it\<close>

record podRoom =
  prInstances :: int
  prAwake :: int
  prUndeclared :: int
  prPromisedBytes :: int
  prReady :: bool
  prUnlisted :: bool

type_synonym roomSignature = "(string \<times> podRoom) list option"

datatype whatHelps = anyRoom | aPodThatAnswers | aPodThatJoined

fun roomAppearedIn :: "(string \<rightharpoonup> podRoom) \<Rightarrow> (string \<times> podRoom) list \<Rightarrow> whatHelps \<Rightarrow> bool" where
  "roomAppearedIn before [] helps = False"
| "roomAppearedIn before ((key, taken) # rest) helps =
     (case before key of
        None \<Rightarrow> True
      | Some was \<Rightarrow>
          if helps = aPodThatJoined then roomAppearedIn before rest helps
          else if prReady taken \<and> \<not> prReady was then True
          else if helps = aPodThatAnswers \<or> prUndeclared taken > 0 \<or> prUnlisted taken \<or> prUnlisted was
          then roomAppearedIn before rest helps
          else if prInstances taken < prInstances was \<or> prAwake taken < prAwake was \<or>
                  prUndeclared taken < prUndeclared was \<or> prPromisedBytes taken < prPromisedBytes was
          then True
          else roomAppearedIn before rest helps)"

definition roomMayHaveAppeared :: "roomSignature \<Rightarrow> roomSignature \<Rightarrow> whatHelps \<Rightarrow> bool" where
  "roomMayHaveAppeared before now helps =
     (case (before, now) of
        (Some b, Some n) \<Rightarrow> roomAppearedIn (map_of b) n helps
      | _ \<Rightarrow> False)"

definition seenReady :: "(string \<rightharpoonup> podRoom) \<Rightarrow> string \<times> podRoom \<Rightarrow> string \<times> podRoom" where
  "seenReady before kt =
     (let (key, taken) = kt;
          taken' = (case before key of
                      Some was \<Rightarrow> if prUnlisted taken \<and> \<not> prUnlisted was
                                  then was\<lparr>prReady := prReady taken\<rparr> else taken
                    | None \<Rightarrow> taken);
          wasReady = (case before key of Some was \<Rightarrow> prReady was | None \<Rightarrow> False)
      in (key, taken'\<lparr>prReady := prReady taken' \<or> wasReady\<rparr>))"

definition withThePodsSeenReady :: "roomSignature \<Rightarrow> roomSignature \<Rightarrow> roomSignature" where
  "withThePodsSeenReady room before =
     (case room of
        None \<Rightarrow> before
      | Some r \<Rightarrow> Some (map (seenReady (case before of Some b \<Rightarrow> map_of b | None \<Rightarrow> Map.empty)) r))"

definition podKey :: "'q corePod \<Rightarrow> string" where
  "podKey pod = podName pod @ ''/'' @ podUID pod"

definition emptyPodRoom :: podRoom where
  "emptyPodRoom = \<lparr>prInstances = 0, prAwake = 0, prUndeclared = 0, prPromisedBytes = 0,
                   prReady = False, prUnlisted = False\<rparr>"

fun initialRoom :: "bool \<Rightarrow> 'q corePod list \<Rightarrow> (string \<times> podRoom) list \<Rightarrow> (string \<times> podRoom) list" where
  "initialRoom unlisted [] room = room"
| "initialRoom unlisted (p # ps) room =
     initialRoom unlisted ps
       (AList.update (podKey p) (emptyPodRoom\<lparr>prReady := podIsReady p, prUnlisted := unlisted\<rparr>) room)"

definition takeInstance ::
  "per_gpu_error + perGPUBytes \<Rightarrow> (string \<rightharpoonup> string) \<Rightarrow> modelClaimInstance \<Rightarrow>
     (string \<times> podRoom) list \<Rightarrow> (string \<times> podRoom) list" where
  "takeInstance perGPU keys inst room =
     (case keys (instPod inst) of
        None \<Rightarrow> room
      | Some key \<Rightarrow>
          if instPhase inst = ''Failed'' \<or> instPort inst = 0 then room
          else
            (let t0 = (case map_of room key of Some t \<Rightarrow> t | None \<Rightarrow> emptyPodRoom);
                 t1 = t0\<lparr>prInstances := i64 (prInstances t0 + 1)\<rparr>;
                 t2 = (if instPhase inst \<noteq> ''Sleeping'' then t1\<lparr>prAwake := i64 (prAwake t1 + 1)\<rparr> else t1);
                 t3 = (case perGPU of
                         Inl _ \<Rightarrow> t2\<lparr>prUndeclared := i64 (prUndeclared t2 + 1)\<rparr>
                       | Inr g \<Rightarrow> t2\<lparr>prPromisedBytes := i64 (prPromisedBytes t2 + perGPU_minimumReserveBytes g)\<rparr>)
             in AList.update key t3 room))"

definition roomSignatureOf ::
  "'q quantityOps \<Rightarrow> 'q corePod list \<Rightarrow> 'q modelClaim list option \<Rightarrow> roomSignature" where
  "roomSignatureOf q candidates claims =
     (let room = initialRoom (claims = None) candidates [];
          keys = map_of (rev (map (\<lambda>p. (podName p, podKey p)) candidates))
      in case claims of
           None \<Rightarrow> Some room
         | Some cs \<Rightarrow>
             Some (fold (\<lambda>c. fold (takeInstance (perGPUBytesOf q (Some c)) keys) (statusInstances c)) cs room))"

definition liveInstances :: "'q modelClaim \<Rightarrow> int" where
  "liveInstances pm =
     int (length (filter (\<lambda>i. instPhase i \<noteq> ''Failed'' \<and> instPort i \<noteq> 0) (statusInstances pm)))"

definition awakeInstances :: "'q modelClaim \<Rightarrow> int" where
  "awakeInstances pm =
     int (length (filter (\<lambda>i. instPhase i \<noteq> ''Failed'' \<and> instPhase i \<noteq> ''Sleeping'' \<and> instPort i \<noteq> 0)
                   (statusInstances pm)))"

definition freesRoom :: "'q quantityOps \<Rightarrow> 'q modelClaim \<Rightarrow> 'q modelClaim \<Rightarrow> bool" where
  "freesRoom q before after =
     (if liveInstances after < liveInstances before \<or> awakeInstances after < awakeInstances before then True
      else case perGPUBytesOf q (Some after) of
             Inl _ \<Rightarrow> False
           | Inr now \<Rightarrow>
               (case perGPUBytesOf q (Some before) of
                  Inl _ \<Rightarrow> True
                | Inr was \<Rightarrow> perGPU_minimumReserveBytes now < perGPU_minimumReserveBytes was))"

section \<open>The attempts of waiting claims\<close>

type_synonym claimKey = "string \<times> string"

record placementAttempt =
  paRefusals :: int
  paReadyAt :: int
  paGeneration :: int
  paRoom :: roomSignature
  paTooLarge :: bool
  paFailedToStart :: bool
  paWritten :: bool
  paUnread :: "string list"

type_synonym placementBackoff = "claimKey \<rightharpoonup> placementAttempt"

definition zeroAttempt :: placementAttempt where
  "zeroAttempt =
     \<lparr>paRefusals = 0, paReadyAt = 0, paGeneration = 0, paRoom = None, paTooLarge = False,
      paFailedToStart = False, paWritten = False, paUnread = []\<rparr>"

definition maximumPlacementBackoff :: int where
  "maximumPlacementBackoff = 60000000000"

definition startedOver :: "placementAttempt \<Rightarrow> placementAttempt" where
  "startedOver a = zeroAttempt\<lparr>paRoom := paRoom a\<rparr>"

definition helpedBy :: "placementAttempt \<Rightarrow> whatHelps" where
  "helpedBy a =
     (if paTooLarge a then aPodThatJoined else if paFailedToStart a then aPodThatAnswers else anyRoom)"

definition due ::
  "claimKey \<Rightarrow> int \<Rightarrow> roomSignature \<Rightarrow> int \<Rightarrow> placementBackoff \<Rightarrow> (bool \<times> int) \<times> placementBackoff" where
  "due claim generation room now b =
     (case b claim of
        None \<Rightarrow> ((True, 0), b)
      | Some a \<Rightarrow>
          if generation \<noteq> paGeneration a \<or> roomMayHaveAppeared (paRoom a) room (helpedBy a)
          then ((True, 0), b(claim \<mapsto> startedOver a))
          else if \<not> paWritten a
          then ((True, 0), b(claim \<mapsto> a\<lparr>paRefusals := max (i64 (paRefusals a - 1)) 0\<rparr>))
          else (let left = paReadyAt a - now in if left \<le> 0 then ((True, 0), b) else ((False, left), b)))"

definition waiting ::
  "claimKey \<Rightarrow> int \<Rightarrow> roomSignature \<Rightarrow> (string \<rightharpoonup> podLedger) \<Rightarrow> int \<Rightarrow> placementBackoff \<Rightarrow> bool" where
  "waiting claim generation room ledgers now b =
     (case b claim of
        None \<Rightarrow> False
      | Some a \<Rightarrow>
          if \<not> paWritten a \<or> generation \<noteq> paGeneration a \<or>
             roomMayHaveAppeared (paRoom a) room (helpedBy a) \<or> \<not> now < paReadyAt a then False
          else \<not> list_ex (\<lambda>pod. case ledgers pod of Some l \<Rightarrow> \<not> unread l | None \<Rightarrow> False) (paUnread a))"

definition refusedWithoutReading :: "claimKey \<Rightarrow> string list \<Rightarrow> placementBackoff \<Rightarrow> placementBackoff" where
  "refusedWithoutReading claim pods b =
     (case b claim of None \<Rightarrow> b | Some a \<Rightarrow> b(claim \<mapsto> a\<lparr>paUnread := pods\<rparr>))"

definition unreadPods :: "'q corePod list \<Rightarrow> (string \<rightharpoonup> podLedger) \<Rightarrow> string list" where
  "unreadPods candidates ledgers =
     map podName (filter (\<lambda>p. case ledgers (podName p) of Some l \<Rightarrow> unread l | None \<Rightarrow> False) candidates)"

definition refusalWait :: "int \<Rightarrow> int" where
  "refusalWait refusals =
     (let wait = i64 (DefaultRequeueDuration * 2 ^ nat (min (refusals - 1) 16))
      in if wait > maximumPlacementBackoff \<or> wait \<le> 0 then maximumPlacementBackoff else wait)"

definition refuseLocked ::
  "claimKey \<Rightarrow> int \<Rightarrow> roomSignature \<Rightarrow> bool \<Rightarrow> int \<Rightarrow> placementBackoff \<Rightarrow> int \<times> placementBackoff" where
  "refuseLocked claim generation room tooLarge now b =
     (let a = (case b claim of Some a \<Rightarrow> a | None \<Rightarrow> zeroAttempt);
          refusals = i64 (paRefusals a + 1);
          wait = refusalWait refusals
      in (wait, b(claim \<mapsto> a\<lparr>paRefusals := refusals, paGeneration := generation,
                              paRoom := withThePodsSeenReady room (paRoom a), paTooLarge := tooLarge,
                              paFailedToStart := False, paWritten := False, paUnread := [],
                              paReadyAt := now + wait\<rparr>)))"

definition refused ::
  "claimKey \<Rightarrow> int \<Rightarrow> roomSignature \<Rightarrow> int \<Rightarrow> placementBackoff \<Rightarrow> int \<times> placementBackoff" where
  "refused claim generation room now b = refuseLocked claim generation room False now b"

definition refusedAsTooLarge ::
  "claimKey \<Rightarrow> int \<Rightarrow> roomSignature \<Rightarrow> int \<Rightarrow> placementBackoff \<Rightarrow> int \<times> placementBackoff" where
  "refusedAsTooLarge claim generation room now b = refuseLocked claim generation room True now b"

definition failedToStart ::
  "claimKey \<Rightarrow> int \<Rightarrow> roomSignature \<Rightarrow> int \<Rightarrow> placementBackoff \<Rightarrow> int \<times> placementBackoff" where
  "failedToStart claim generation room now b =
     (let (wait, b1) = refuseLocked claim generation room False now b;
          a = (case b1 claim of Some a \<Rightarrow> a | None \<Rightarrow> zeroAttempt)
      in (wait, b1(claim \<mapsto> a\<lparr>paFailedToStart := True, paWritten := True\<rparr>)))"

definition statusWritten :: "claimKey \<Rightarrow> placementBackoff \<Rightarrow> placementBackoff" where
  "statusWritten claim b =
     (case b claim of
        None \<Rightarrow> b
      | Some a \<Rightarrow> if \<not> paWritten a then b(claim \<mapsto> a\<lparr>paWritten := True\<rparr>) else b)"

definition waitsAfterAFailedStart :: "claimKey \<Rightarrow> placementBackoff \<Rightarrow> bool" where
  "waitsAfterAFailedStart claim b = (case b claim of None \<Rightarrow> False | Some a \<Rightarrow> paFailedToStart a)"

definition placed :: "claimKey \<Rightarrow> placementBackoff \<Rightarrow> placementBackoff" where
  "placed claim b = b(claim := None)"

definition startOver :: "claimKey \<Rightarrow> placementBackoff \<Rightarrow> placementBackoff" where
  "startOver claim b = (case b claim of None \<Rightarrow> b | Some a \<Rightarrow> b(claim \<mapsto> startedOver a))"

text \<open>Refusals of a claim in a row, each written to its status before the next.\<close>

fun refusalsInARow :: "claimKey \<Rightarrow> (int \<times> int \<times> roomSignature \<times> bool) list \<Rightarrow> placementBackoff \<Rightarrow> placementBackoff" where
  "refusalsInARow claim [] b = b"
| "refusalsInARow claim ((now, generation, room, tooLarge) # rs) b =
     refusalsInARow claim rs (statusWritten claim (snd (refuseLocked claim generation room tooLarge now b)))"

text \<open>A pool of one pod that is full, for the concrete instances.\<close>

definition exRoom :: "bool \<Rightarrow> (string \<times> podRoom) list" where
  "exRoom ready = [(''p/u'', emptyPodRoom\<lparr>prInstances := 2, prAwake := 1, prPromisedBytes := 90, prReady := ready\<rparr>)]"

definition exKey :: claimKey where
  "exKey = (''ns'', ''c'')"

text \<open>The operations of the controller on the backoff, at the times it calls them.\<close>

inductive backoff_run :: "int \<Rightarrow> placementBackoff \<Rightarrow> bool" where
  start: "0 \<le> now \<Longrightarrow> backoff_run now Map.empty"
| tick: "backoff_run now b \<Longrightarrow> now \<le> now' \<Longrightarrow> backoff_run now' b"
| asked: "backoff_run now b \<Longrightarrow> backoff_run now (snd (due claim generation room now b))"
| refusal: "backoff_run now b \<Longrightarrow> backoff_run now (snd (refuseLocked claim generation room tooLarge now b))"
| failure: "backoff_run now b \<Longrightarrow> backoff_run now (snd (failedToStart claim generation room now b))"
| unread: "backoff_run now b \<Longrightarrow> backoff_run now (refusedWithoutReading claim pods b)"
| written: "backoff_run now b \<Longrightarrow> backoff_run now (statusWritten claim b)"
| placement: "backoff_run now b \<Longrightarrow> backoff_run now (placed claim b)"
| restart: "backoff_run now b \<Longrightarrow> backoff_run now (startOver claim b)"

section \<open>Lemmas\<close>

lemma refusalWait_range: "0 < refusalWait n \<and> refusalWait n \<le> maximumPlacementBackoff"
  by (auto simp: refusalWait_def Let_def maximumPlacementBackoff_def)

lemma refusalWait_doubles: "0 \<le> k \<Longrightarrow> refusalWait (1 + k) = min (DefaultRequeueDuration * 2 ^ nat k) maximumPlacementBackoff"
  by (simp only: refusalWait_def DefaultRequeueDuration_def maximumPlacementBackoff_def add_diff_cancel_left'
      doubling_capped)

lemma refuseLocked_entry:
  "\<exists>a. snd (refuseLocked claim g room large now b) claim = Some a \<and> paReadyAt a = now + refusalWait (paRefusals a) \<and>
       fst (refuseLocked claim g room large now b) = refusalWait (paRefusals a)"
  by (simp add: refuseLocked_def Let_def)

lemma backoff_run_inv: "backoff_run now b \<Longrightarrow> 0 \<le> now \<and> (\<forall>claim a. b claim = Some a \<longrightarrow> paReadyAt a \<le> now + maximumPlacementBackoff \<or> paReadyAt a = 0)"
proof (induction rule: backoff_run.induct)
  case (tick now b now')
  then show ?case by fastforce
next
  case (asked now b claim generation room)
  then show ?case
    by (auto simp: due_def Let_def startedOver_def zeroAttempt_def split: option.splits if_splits)
next
  case (refusal now b claim generation room tooLarge)
  then show ?case using refusalWait_range by (auto simp: refuseLocked_def Let_def)
next
  case (failure now b claim generation room)
  then show ?case using refusalWait_range by (auto simp: failedToStart_def refuseLocked_def Let_def)
qed (auto simp: refusedWithoutReading_def statusWritten_def placed_def startOver_def startedOver_def zeroAttempt_def
      split: option.splits if_splits)

lemma roomAppearedIn_mono_False:
  "(\<And>k t. (k, t) \<in> set now \<Longrightarrow> \<exists>was. before k = Some was \<and> (prReady t \<longrightarrow> prReady was) \<and>
      (prUnlisted t \<or> prUnlisted was \<or> (prInstances was \<le> prInstances t \<and> prAwake was \<le> prAwake t \<and>
        prUndeclared was \<le> prUndeclared t \<and> prPromisedBytes was \<le> prPromisedBytes t))) \<Longrightarrow>
   \<not> roomAppearedIn before now helps"
proof (induction now)
  case (Cons kt rest)
  obtain key taken where kt: "kt = (key, taken)" by fastforce
  obtain was where "before key = Some was" "prReady taken \<longrightarrow> prReady was"
    "prUnlisted taken \<or> prUnlisted was \<or> (prInstances was \<le> prInstances taken \<and> prAwake was \<le> prAwake taken \<and>
        prUndeclared was \<le> prUndeclared taken \<and> prPromisedBytes was \<le> prPromisedBytes taken)"
    using Cons.prems [of key taken] kt by auto
  moreover have "\<not> roomAppearedIn before rest helps" using Cons.IH Cons.prems by auto
  ultimately show ?case using kt by auto
qed simp

lemma podRoom_self [simp]: "t\<lparr>prReady := prReady t\<rparr> = (t :: podRoom)"
  by (cases t) simp

lemma map_of_seenReady:
  "map_of (map (seenReady before) r) k = map_option (\<lambda>t. snd (seenReady before (k, t))) (map_of r k)"
proof (induction r)
  case (Cons x r)
  obtain k' t where x: "x = (k', t)" by fastforce
  have "seenReady before (k', t) = (k', snd (seenReady before (k', t)))" by (simp add: seenReady_def Let_def)
  then show ?case using Cons x by (metis list.simps(9) map_of_Cons_code(2) option.simps(9))
qed simp

lemma seenReady_fields:
  "prReady (snd (seenReady before (k, t))) \<longleftrightarrow>
     prReady t \<or> (case before k of Some was \<Rightarrow> prReady was | None \<Rightarrow> False)"
  "\<not> prUnlisted t \<Longrightarrow> snd (seenReady before (k, t)) = t\<lparr>prReady := prReady (snd (seenReady before (k, t)))\<rparr>"
  by (auto simp: seenReady_def Let_def split: option.splits)

lemma no_news:
  assumes d: "distinct (map fst r)"
    and same: "\<And>k t. (k, t) \<in> set now \<Longrightarrow> \<exists>t'. (k, t') \<in> set r \<and> t = t'\<lparr>prReady := prReady t\<rparr> \<and>
       (prReady t \<longrightarrow> prReady t' \<or> (case before k of Some was \<Rightarrow> prReady was | None \<Rightarrow> False))"
  shows "\<not> roomAppearedIn (map_of (map (seenReady before) r)) now helps"
proof (rule roomAppearedIn_mono_False)
  fix k t assume "(k, t) \<in> set now"
  then obtain t' where t': "(k, t') \<in> set r" "t = t'\<lparr>prReady := prReady t\<rparr>"
    "prReady t \<longrightarrow> prReady t' \<or> (case before k of Some was \<Rightarrow> prReady was | None \<Rightarrow> False)"
    using same by blast
  let ?w = "snd (seenReady before (k, t'))"
  have look: "map_of (map (seenReady before) r) k = Some ?w"
    using t'(1) d by (simp add: map_of_seenReady)
  have fig: "prUnlisted t = prUnlisted t' \<and> prInstances t = prInstances t' \<and> prAwake t = prAwake t' \<and>
      prUndeclared t = prUndeclared t' \<and> prPromisedBytes t = prPromisedBytes t'"
    by (subst (1 2 3 4 5) t'(2)) simp
  have "\<not> prUnlisted t' \<Longrightarrow> prInstances ?w = prInstances t' \<and> prAwake ?w = prAwake t' \<and>
      prUndeclared ?w = prUndeclared t' \<and> prPromisedBytes ?w = prPromisedBytes t'"
    by (subst (1 2 3 4) seenReady_fields(2)) simp_all
  then show "\<exists>was. map_of (map (seenReady before) r) k = Some was \<and> (prReady t \<longrightarrow> prReady was) \<and>
      (prUnlisted t \<or> prUnlisted was \<or> (prInstances was \<le> prInstances t \<and> prAwake was \<le> prAwake t \<and>
        prUndeclared was \<le> prUndeclared t \<and> prPromisedBytes was \<le> prPromisedBytes t))"
    using look fig t'(3) seenReady_fields(1) [of before k t'] by (intro exI [of _ ?w]) auto
qed

lemma refuseLocked_room:
  "\<exists>a. snd (refuseLocked claim g (Some r) large now b) claim = Some a \<and> paGeneration a = g \<and>
       paReadyAt a = now + fst (refuseLocked claim g (Some r) large now b) \<and>
       (\<exists>before. paRoom a = Some (map (seenReady before) r) \<and>
          (\<forall>k. before k = (case b claim of Some a0 \<Rightarrow> (case paRoom a0 of Some b0 \<Rightarrow> map_of b0 k | None \<Rightarrow> None) | None \<Rightarrow> None)))"
  by (cases "b claim")
     (auto simp: refuseLocked_def Let_def withThePodsSeenReady_def zeroAttempt_def split: option.splits)

lemma written_room:
  "statusWritten claim b claim = map_option (\<lambda>a. a\<lparr>paWritten := True\<rparr>) (b claim)"
  by (auto simp: statusWritten_def split: option.splits)

lemma helpedBy_written [simp]: "helpedBy (a\<lparr>paWritten := w\<rparr>) = helpedBy a"
  by (simp add: helpedBy_def)

lemma refusals_counted:
  assumes "b claim = Some a" "paRefusals a = int k" "k + length rs < 9223372036854775807" "rs \<noteq> []"
  shows "\<exists>a'. refusalsInARow claim rs b claim = Some a' \<and> paRefusals a' = int (k + length rs) \<and>
           paReadyAt a' = fst (last rs) + min (DefaultRequeueDuration * 2 ^ (k + length rs - 1)) maximumPlacementBackoff"
  using assms
proof (induction rs arbitrary: b a k)
  case (Cons x rs)
  obtain now g room large where x: "x = (now, g, room, large)" by (metis surj_pair)
  let ?b = "statusWritten claim (snd (refuseLocked claim g room large now b))"
  have "i64 (int k + 1) = 1 + int k" using Cons.prems(3) by (simp add: i64_id)
  then obtain a1 where a1: "?b claim = Some a1" "paRefusals a1 = int (k + 1)"
    "paReadyAt a1 = now + min (DefaultRequeueDuration * 2 ^ k) maximumPlacementBackoff"
    using Cons.prems(1,2) refusalWait_doubles [of "int k"]
    by (simp add: written_room refuseLocked_def Let_def)
  show ?case
  proof (cases "rs = []")
    case True
    then show ?thesis using a1 x by simp
  next
    case False
    then show ?thesis using Cons.IH [of ?b a1 "k + 1"] a1(1,2) Cons.prems(3) x by simp
  qed
qed simp

section \<open>Properties\<close>

text \<open>C31. No claim is forgotten: in any run, a claim asked about once the longest wait has passed
  may try again, whatever it was refused for.\<close>

theorem waiting_claim_is_retried:
  assumes "backoff_run now b" and "now + maximumPlacementBackoff \<le> t"
  shows "fst (due claim g room t b) = (True, 0)"
proof (cases "b claim")
  case (Some a)
  then have "paReadyAt a \<le> t"
    using backoff_run_inv [OF assms(1)] assms(2) by (fastforce simp: maximumPlacementBackoff_def)
  then show ?thesis using Some by (simp add: due_def Let_def)
qed (simp add: due_def)

theorem waiting_claim_is_retried_witness:
  "fst (due exKey 1 (Some (exRoom True)) 60000000007
     (statusWritten exKey (snd (refuseLocked exKey 1 (Some (exRoom True)) False 7 Map.empty)))) = (True, 0)"
proof -
  have "backoff_run 7 (statusWritten exKey (snd (refuseLocked exKey 1 (Some (exRoom True)) False 7 Map.empty)))"
    by (intro backoff_run.written backoff_run.refusal backoff_run.start) simp
  then show ?thesis by (rule waiting_claim_is_retried) (simp add: maximumPlacementBackoff_def)
qed

text \<open>A refused claim waits out its time when nothing changed: asked again with the same spec and
  the same pool before its wait is over, it is told exactly what is left, and nothing is reset.\<close>

theorem refused_claim_waits:
  assumes "distinct (map fst r)" and "refused claim g (Some r) now b = (wait, b')"
    and "t < now + wait"
  shows "due claim g (Some r) t (statusWritten claim b') = ((False, now + wait - t), statusWritten claim b')"
proof -
  obtain a before where a: "b' claim = Some a" "paGeneration a = g" "paReadyAt a = now + wait"
    "paRoom a = Some (map (seenReady before) r)"
    using refuseLocked_room [of claim g r False now b] assms(2) by (auto simp: refused_def)
  have same: "\<And>k t. (k, t) \<in> set r \<Longrightarrow> \<exists>t'. (k, t') \<in> set r \<and> t = t'\<lparr>prReady := prReady t\<rparr> \<and>
       (prReady t \<longrightarrow> prReady t' \<or> (case before k of Some was \<Rightarrow> prReady was | None \<Rightarrow> False))"
    by auto
  have "\<not> roomAppearedIn (map_of (map (seenReady before) r)) r (helpedBy a)"
    by (rule no_news [OF assms(1) same])
  then show ?thesis
    using a assms(3) written_room [of claim b'] by (simp add: due_def roomMayHaveAppeared_def Let_def)
qed

theorem refused_claim_waits_witness:
  "\<exists>b'. refused exKey 1 (Some (exRoom True)) 7 Map.empty = (10000000000, b') \<and>
        due exKey 1 (Some (exRoom True)) 9 (statusWritten exKey b') = ((False, 9999999998), statusWritten exKey b')"
proof -
  have "refusalWait 1 = 10000000000"
    using refusalWait_doubles [of 0] by (simp add: DefaultRequeueDuration_def maximumPlacementBackoff_def)
  then have "fst (refused exKey 1 (Some (exRoom True)) 7 Map.empty) = 10000000000"
    by (simp add: refused_def refuseLocked_def Let_def zeroAttempt_def)
  then obtain b' where b': "refused exKey 1 (Some (exRoom True)) 7 Map.empty = (10000000000, b')"
    by (metis prod.collapse)
  moreover have "distinct (map fst (exRoom True))" by (simp add: exRoom_def)
  ultimately have "due exKey 1 (Some (exRoom True)) 9 (statusWritten exKey b')
      = ((False, 7 + 10000000000 - 9), statusWritten exKey b')"
    by (intro refused_claim_waits) simp_all
  then show ?thesis using b' by simp
qed

text \<open>The wait doubles: after \<open>n\<close> refusals in a row of a claim that did not wait before, it
  waits ten seconds times two to the power \<open>n - 1\<close>, and a minute at most.\<close>

theorem refusal_wait_doubles:
  assumes "b claim = None" and "Suc (length rs) < 9223372036854775807"
  shows "\<exists>a. refusalsInARow claim (x # rs) b claim = Some a \<and> paRefusals a = int (length (x # rs)) \<and>
           paReadyAt a = fst (last (x # rs)) + min (DefaultRequeueDuration * 2 ^ length rs) maximumPlacementBackoff"
proof -
  obtain now g room large where x: "x = (now, g, room, large)" by (metis surj_pair)
  let ?b = "statusWritten claim (snd (refuseLocked claim g room large now b))"
  obtain a1 where a1: "?b claim = Some a1" "paRefusals a1 = int 1"
    "paReadyAt a1 = now + min (DefaultRequeueDuration * 2 ^ 0) maximumPlacementBackoff"
    using assms(1) refusalWait_doubles [of 0] by (simp add: written_room refuseLocked_def Let_def zeroAttempt_def)
  show ?thesis
  proof (cases "rs = []")
    case True
    then show ?thesis using a1 x by simp
  next
    case False
    then show ?thesis using refusals_counted [of ?b claim a1 1 rs] a1 assms(2) x by simp
  qed
qed

theorem refusal_wait_doubles_witness:
  "\<exists>a. refusalsInARow exKey [(0, 1, None, False), (10, 1, None, False), (20, 1, None, True)] Map.empty exKey = Some a \<and>
       paRefusals a = 3 \<and> paReadyAt a = 20 + 40000000000"
  using refusal_wait_doubles [of Map.empty exKey "[(10, 1, None, False), (20, 1, None, True)]" "(0, 1, None, False)"]
  by (simp add: DefaultRequeueDuration_def maximumPlacementBackoff_def)

text \<open>A pod wakes a waiting claim once by turning ready: after a refusal that saw the pod ready
  and a later one that saw it not ready, the pod turning ready again is no news.\<close>

theorem ready_pod_wakes_once:
  assumes "distinct (map fst r1)" and "distinct (map fst r2)"
    and "refused claim g (Some r1) t1 b = (w1, b1)" and "refused claim g (Some r2) t2 b1 = (w2, b2)"
    and "b2 claim = Some a"
    and "\<forall>(k, t) \<in> set now. \<exists>t'. (k, t') \<in> set r2 \<and> t = t'\<lparr>prReady := prReady t\<rparr> \<and>
           (prReady t \<longrightarrow> prReady t' \<or> (\<exists>t''. (k, t'') \<in> set r1 \<and> prReady t''))"
  shows "\<not> roomMayHaveAppeared (paRoom a) (Some now) (helpedBy a)"
proof -
  obtain a1 before1 where a1: "b1 claim = Some a1" "paRoom a1 = Some (map (seenReady before1) r1)"
    using refuseLocked_room [of claim g r1 False t1 b] assms(3) by (auto simp: refused_def)
  obtain before2 where a2: "paRoom a = Some (map (seenReady before2) r2)"
    "\<And>k. before2 k = map_of (map (seenReady before1) r1) k"
    using refuseLocked_room [of claim g r2 False t2 b1] assms(4,5) a1 by (auto simp: refused_def)
  have seen: "(k, t) \<in> set r1 \<Longrightarrow> prReady t \<Longrightarrow> (case before2 k of Some was \<Rightarrow> prReady was | None \<Rightarrow> False)" for k t
    using assms(1) by (simp add: a2(2) map_of_seenReady seenReady_fields)
  have "\<not> roomAppearedIn (map_of (map (seenReady before2) r2)) now (helpedBy a)"
    using assms(6) seen by (intro no_news [OF assms(2)]) blast
  then show ?thesis by (simp add: roomMayHaveAppeared_def a2)
qed

theorem ready_pod_wakes_once_witness:
  "\<exists>a. snd (refused exKey 1 (Some (exRoom False)) 20 (snd (refused exKey 1 (Some (exRoom True)) 7 Map.empty))) exKey = Some a \<and>
       \<not> roomMayHaveAppeared (paRoom a) (Some (exRoom True)) (helpedBy a)"
proof -
  let ?b1 = "snd (refused exKey 1 (Some (exRoom True)) 7 Map.empty)"
  let ?b2 = "snd (refused exKey 1 (Some (exRoom False)) 20 ?b1)"
  obtain a where a: "?b2 exKey = Some a"
    using refuseLocked_room [of exKey 1 "exRoom False" False 20 ?b1] by (auto simp: refused_def)
  have "\<not> roomMayHaveAppeared (paRoom a) (Some (exRoom True)) (helpedBy a)"
    by (rule ready_pod_wakes_once [of "exRoom True" "exRoom False" exKey 1 7 Map.empty
          "fst (refused exKey 1 (Some (exRoom True)) 7 Map.empty)" ?b1 20
          "fst (refused exKey 1 (Some (exRoom False)) 20 ?b1)" ?b2, OF _ _ _ _ a])
       (simp_all add: exRoom_def emptyPodRoom_def)
  then show ?thesis using a by blast
qed

end
