(* ===== verification/SimpleQueue.thy ===== *)
theory SimpleQueue
  imports Aibrix_Prelude
begin

text \<open>
  The gateway's growing FIFO queue (\<^verbatim>\<open>src/pkg/plugins/gateway/queue/simple_queue.go\<close>).

  Elements sit in a slice; cursors are logical addresses that only grow, and \<open>baseCursor\<close> maps
  them to slots. A slot that holds the zero value counts as not written yet, so \<open>zero\<close> is a
  parameter and cannot be stored. A call runs under its lock; \<open>Peek\<close> and \<open>Dequeue\<close> retry while the
  slot reads as zero, which without another goroutine never ends, so they are
  \<^theory_text>\<open>partial_function\<close>s and that they return is proved.

  \<open>fifo_queue\<close> is the contract: a queue whose content is a list. It is proved once that any
  sequence of calls then returns what the same calls on a list return, and the queue of the code is
  an instance.
\<close>

section \<open>The queue of the code\<close>

datatype queue_error = ErrZeroValueNotSupported | ErrQueueEmpty

record 'v simpleQueue =
  slots :: "'v list"
  enqueueCursor :: int
  dequeueCursor :: int
  baseCursor :: int
  zeroout :: "'v list option"

definition DefaultQueueCapacity :: int where
  "DefaultQueueCapacity = 1024"

definition NewSimpleQueue :: "'v \<Rightarrow> int \<Rightarrow> 'v simpleQueue" where
  "NewSimpleQueue zero initialCapacity =
     (let c = (if initialCapacity < 1 then DefaultQueueCapacity else initialCapacity)
      in \<lparr>slots = replicate (nat c) zero, enqueueCursor = 0, dequeueCursor = 0, baseCursor = 0,
          zeroout = (if c \<ge> DefaultQueueCapacity then Some (replicate (nat c) zero) else None)\<rparr>)"

definition physicalPos :: "'v simpleQueue \<Rightarrow> int \<Rightarrow> int" where
  "physicalPos q pos = i64 (pos - baseCursor q)"

text \<open>Go's \<^verbatim>\<open>copy(dst[start:], src)\<close>.\<close>

definition copyAt :: "'v list \<Rightarrow> nat \<Rightarrow> 'v list \<Rightarrow> 'v list" where
  "copyAt dst start src =
     (let k = min (length dst - start) (length src)
      in take start dst @ take k src @ drop (start + k) dst)"

text \<open>Clearing the slots from \<open>start\<close> on: in chunks of the spare slice where there is one, and slot
  by slot otherwise.\<close>

partial_function (option) zeroChunks :: "'v list \<Rightarrow> nat \<Rightarrow> 'v list \<Rightarrow> 'v list option" where
  "zeroChunks zo start q =
     (if start < length q then zeroChunks zo (start + length zo) (copyAt q start zo) else Some q)"

declare zeroChunks.simps [code]

function zeroSlots :: "'v \<Rightarrow> nat \<Rightarrow> 'v list \<Rightarrow> 'v list" where
  "zeroSlots zero start q =
     (if start < length q then zeroSlots zero (start + 1) (q[start := zero]) else q)"
  by auto
termination by (relation "measure (\<lambda>(zero, start, q). length q - start)") auto

text \<open>The doubling loop of the new capacity; the first value is already the double.\<close>

partial_function (option) growTo :: "int \<Rightarrow> int \<Rightarrow> int option" where
  "growTo newCapacity used =
     (if newCapacity < used then growTo (i64 (newCapacity * 2)) used else Some newCapacity)"

declare growTo.simps [code]

definition expandLocked ::
  "'v \<Rightarrow> 'v simpleQueue \<Rightarrow> int \<Rightarrow> int \<Rightarrow> (int \<times> 'v simpleQueue) option" where
  "expandLocked zero q triggerCursor triggerPos =
     (if triggerPos < int (length (slots q)) then Some (physicalPos q triggerCursor, q)
      else
        (let oldCapacity = int (length (slots q));
             dequeuePos = physicalPos q (dequeueCursor q);
             enqueuePos = physicalPos q (enqueueCursor q);
             used = i64 (i64 (enqueuePos - 1) - dequeuePos);
             packed = drop (nat dequeuePos) (slots q);
             newQueue =
               (if used > go_div oldCapacity 2
                then map_option (\<lambda>newCapacity. copyAt (replicate (nat newCapacity) zero) 0 packed)
                       (growTo (i64 (oldCapacity * 2)) used)
                else
                  (let moved = copyAt (slots q) 0 packed;
                       start = length (slots q) - nat dequeuePos
                   in case zeroout q of
                        Some zo \<Rightarrow> zeroChunks zo start moved
                      | None \<Rightarrow> Some (zeroSlots zero start moved)))
         in map_option
              (\<lambda>nq. let q' = q\<lparr>slots := nq, baseCursor := i64 (baseCursor q + dequeuePos)\<rparr>
                    in (physicalPos q' triggerCursor, q')) newQueue))"

definition Enqueue :: "'v \<Rightarrow> 'v \<Rightarrow> 'v simpleQueue \<Rightarrow> (queue_error + 'v simpleQueue) option" where
  "Enqueue zero v q =
     (if v = zero then Some (Inl ErrZeroValueNotSupported)
      else
        (let q1 = q\<lparr>enqueueCursor := i64 (enqueueCursor q + 1)\<rparr>;
             cursor = i64 (enqueueCursor q1 - 1);
             pos = physicalPos q1 cursor
         in map_option (\<lambda>(pos', q2). Inr (q2\<lparr>slots := (slots q2)[nat pos' := v]\<rparr>))
              (if pos \<ge> int (length (slots q1)) then expandLocked zero q1 cursor pos else Some (pos, q1))))"

partial_function (option) Peek :: "'v \<Rightarrow> 'v simpleQueue \<Rightarrow> (queue_error + 'v) option" where
  "Peek zero q =
     (if dequeueCursor q \<ge> enqueueCursor q then Some (Inl ErrQueueEmpty)
      else
        (let c = slots q ! nat (physicalPos q (dequeueCursor q))
         in if c = zero then Peek zero q else Some (Inr c)))"

declare Peek.simps [code]

text \<open>Run alone, the compare-and-swap of \<open>Dequeue\<close> succeeds.\<close>

partial_function (option) Dequeue ::
  "'v \<Rightarrow> 'v simpleQueue \<Rightarrow> ((queue_error + 'v) \<times> 'v simpleQueue) option" where
  "Dequeue zero q =
     (if dequeueCursor q \<ge> enqueueCursor q then Some (Inl ErrQueueEmpty, q)
      else
        (let dpos = physicalPos q (dequeueCursor q)
         in Option.bind
              (if dpos \<ge> int (length (slots q)) then expandLocked zero q (dequeueCursor q) dpos else Some (dpos, q))
              (\<lambda>(dpos', q').
                 let c = slots q' ! nat dpos'
                 in if c = zero then Dequeue zero q'
                    else Some (Inr c, q'\<lparr>dequeueCursor := i64 (dequeueCursor q' + 1)\<rparr>))))"

declare Dequeue.simps [code]

definition Len :: "'v simpleQueue \<Rightarrow> int" where
  "Len q = i64 (enqueueCursor q - dequeueCursor q)"

definition Cap :: "'v simpleQueue \<Rightarrow> int" where
  "Cap q = int (length (slots q))"

text \<open>The elements in the queue, oldest first, and what holds of a queue that \<open>n\<close> more elements can
  be added to.\<close>

definition queueContent :: "'v simpleQueue \<Rightarrow> 'v list" where
  "queueContent q =
     take (nat (enqueueCursor q - dequeueCursor q)) (drop (nat (dequeueCursor q - baseCursor q)) (slots q))"

definition queueUsable :: "'v \<Rightarrow> nat \<Rightarrow> 'v simpleQueue \<Rightarrow> bool" where
  "queueUsable zero n q \<longleftrightarrow>
     0 \<le> baseCursor q \<and> baseCursor q \<le> dequeueCursor q \<and> dequeueCursor q \<le> enqueueCursor q \<and>
     enqueueCursor q - baseCursor q \<le> int (length (slots q)) \<and>
     1 \<le> length (slots q) \<and> int (length (slots q)) < 4611686018427387904 \<and>
     enqueueCursor q + int n < 1152921504606846976 \<and>
     zero \<notin> set (queueContent q) \<and> (\<forall>zo. zeroout q = Some zo \<longrightarrow> zo \<noteq> [] \<and> set zo \<subseteq> {zero})"

section \<open>The contract\<close>

datatype 'v queueOp = OpEnqueue 'v | OpPeek | OpDequeue

datatype ('e, 'v) queueOut = Stored | Refused 'e | Value 'v

text \<open>The calls on a list of elements.\<close>

fun listRun :: "('v \<Rightarrow> bool) \<Rightarrow> 'e \<Rightarrow> 'e \<Rightarrow> 'v queueOp list \<Rightarrow> 'v list \<Rightarrow> ('e, 'v) queueOut list \<times> 'v list" where
  "listRun storable zeroErr emptyErr [] xs = ([], xs)"
| "listRun storable zeroErr emptyErr (OpEnqueue v # ops) xs =
     (if storable v then map_prod (Cons Stored) id (listRun storable zeroErr emptyErr ops (xs @ [v]))
      else map_prod (Cons (Refused zeroErr)) id (listRun storable zeroErr emptyErr ops xs))"
| "listRun storable zeroErr emptyErr (OpPeek # ops) xs =
     map_prod (Cons (case xs of [] \<Rightarrow> Refused emptyErr | x # _ \<Rightarrow> Value x)) id
       (listRun storable zeroErr emptyErr ops xs)"
| "listRun storable zeroErr emptyErr (OpDequeue # ops) xs =
     map_prod (Cons (case xs of [] \<Rightarrow> Refused emptyErr | x # _ \<Rightarrow> Value x)) id
       (listRun storable zeroErr emptyErr ops (tl xs))"

text \<open>The same calls on a queue given by its operations; a call that does not return ends the
  run.\<close>

fun queueRun ::
  "('v \<Rightarrow> 'q \<Rightarrow> ('e + 'q) option) \<Rightarrow> ('q \<Rightarrow> ('e + 'v) option) \<Rightarrow> ('q \<Rightarrow> (('e + 'v) \<times> 'q) option) \<Rightarrow>
     'v queueOp list \<Rightarrow> 'q \<Rightarrow> (('e, 'v) queueOut list \<times> 'q) option" where
  "queueRun enq peek deq [] q = Some ([], q)"
| "queueRun enq peek deq (OpEnqueue v # ops) q =
     (case enq v q of
        None \<Rightarrow> None
      | Some (Inl e) \<Rightarrow> map_option (map_prod (Cons (Refused e)) id) (queueRun enq peek deq ops q)
      | Some (Inr q') \<Rightarrow> map_option (map_prod (Cons Stored) id) (queueRun enq peek deq ops q'))"
| "queueRun enq peek deq (OpPeek # ops) q =
     (case peek q of
        None \<Rightarrow> None
      | Some r \<Rightarrow> map_option (map_prod (Cons (case r of Inl e \<Rightarrow> Refused e | Inr v \<Rightarrow> Value v)) id)
                    (queueRun enq peek deq ops q))"
| "queueRun enq peek deq (OpDequeue # ops) q =
     (case deq q of
        None \<Rightarrow> None
      | Some (r, q') \<Rightarrow> map_option (map_prod (Cons (case r of Inl e \<Rightarrow> Refused e | Inr v \<Rightarrow> Value v)) id)
                          (queueRun enq peek deq ops q'))"

locale fifo_queue =
  fixes enq :: "'v \<Rightarrow> 'q \<Rightarrow> ('e + 'q) option"
    and peek :: "'q \<Rightarrow> ('e + 'v) option"
    and deq :: "'q \<Rightarrow> (('e + 'v) \<times> 'q) option"
    and content :: "'q \<Rightarrow> 'v list"
    and usable :: "nat \<Rightarrow> 'q \<Rightarrow> bool"
    and storable :: "'v \<Rightarrow> bool"
    and zeroErr :: 'e
    and emptyErr :: 'e
  assumes enq_refuses: "usable n q \<Longrightarrow> \<not> storable v \<Longrightarrow> enq v q = Some (Inl zeroErr)"
    and enq_stores: "usable (Suc n) q \<Longrightarrow> storable v \<Longrightarrow>
          \<exists>q'. enq v q = Some (Inr q') \<and> content q' = content q @ [v] \<and> usable n q'"
    and peek_empty: "usable n q \<Longrightarrow> content q = [] \<Longrightarrow> peek q = Some (Inl emptyErr)"
    and peek_head: "usable n q \<Longrightarrow> content q = x # xs \<Longrightarrow> peek q = Some (Inr x)"
    and deq_empty: "usable n q \<Longrightarrow> content q = [] \<Longrightarrow> deq q = Some (Inl emptyErr, q)"
    and deq_head: "usable n q \<Longrightarrow> content q = x # xs \<Longrightarrow>
          \<exists>q'. deq q = Some (Inr x, q') \<and> content q' = xs \<and> usable n q'"
    and usable_mono: "usable (Suc n) q \<Longrightarrow> usable n q"
begin

lemma usable_less: "usable n q \<Longrightarrow> m \<le> n \<Longrightarrow> usable m q"
  by (induction n) (auto simp: le_Suc_eq dest: usable_mono)

lemma run_refines:
  "usable (length ops) q \<Longrightarrow>
     \<exists>q'. queueRun enq peek deq ops q = Some (fst (listRun storable zeroErr emptyErr ops (content q)), q') \<and>
          content q' = snd (listRun storable zeroErr emptyErr ops (content q))"
proof (induction ops arbitrary: q)
  case (Cons op ops)
  have us: "usable (length ops) q" using Cons.prems usable_mono by simp
  show ?case
  proof (cases op)
    case (OpEnqueue v)
    show ?thesis
    proof (cases "storable v")
      case True
      then obtain q' where "enq v q = Some (Inr q')" "content q' = content q @ [v]" "usable (length ops) q'"
        using enq_stores Cons.prems by fastforce
      then show ?thesis using Cons.IH [of q'] OpEnqueue True by auto
    next
      case False
      then show ?thesis using Cons.IH [OF us] OpEnqueue enq_refuses [OF us] by auto
    qed
  next
    case OpPeek
    then show ?thesis using Cons.IH [OF us] peek_empty [OF us] peek_head [OF us]
      by (cases "content q") auto
  next
    case OpDequeue
    show ?thesis
    proof (cases "content q")
      case Nil
      then show ?thesis using Cons.IH [OF us] OpDequeue deq_empty [OF us] by auto
    next
      case (Cons x xs)
      then obtain q' where "deq q = Some (Inr x, q')" "content q' = xs" "usable (length ops) q'"
        using deq_head [OF us] by blast
      then show ?thesis using Cons.IH [of q'] OpDequeue Cons by auto
    qed
  qed
qed simp

end

section \<open>Packing and growing\<close>

lemma length_copyAt [simp]: "start \<le> length dst \<Longrightarrow> length (copyAt dst start src) = length dst"
  by (simp add: copyAt_def Let_def)

lemma zeroChunks_eq:
  assumes zo: "zo \<noteq> []" "set zo \<subseteq> {zero}"
  shows "start \<le> length q \<Longrightarrow> zeroChunks zo start q = Some (take start q @ replicate (length q - start) zero)"
proof (induction "length q - start" arbitrary: start q rule: less_induct)
  case less
  have zs: "take k zo = replicate (min k (length zo)) zero" for k
    using zo(2) by (intro nth_equalityI) (auto dest!: nth_mem)
  show ?case
  proof (cases "start < length q")
    case False
    then show ?thesis using less.prems by (subst zeroChunks.simps) simp
  next
    case True
    let ?q = "copyAt q start zo"
    have step: "zeroChunks zo start q = zeroChunks zo (start + length zo) ?q"
      using True by (subst zeroChunks.simps) simp
    show ?thesis
    proof (cases "start + length zo \<le> length q")
      case True
      then have "min (length q - start) (length zo) = length zo" by simp
      then have "?q = take start q @ replicate (length zo) zero @ drop (start + length zo) q"
        using zs [of "length zo"] by (simp add: copyAt_def Let_def)
      moreover have "zeroChunks zo (start + length zo) ?q
          = Some (take (start + length zo) ?q @ replicate (length ?q - (start + length zo)) zero)"
      proof (intro less.hyps)
        have "0 < length zo" using zo(1) by simp
        then show "length ?q - (start + length zo) < length q - start"
          using \<open>start < length q\<close> less.prems by (simp add: diff_less_mono2)
      qed (use True less.prems in simp)
      moreover have "replicate (length q - start) zero
          = replicate (length zo) zero @ replicate (length q - (start + length zo)) zero"
        using True by (simp flip: replicate_add)
      ultimately show ?thesis using step True less.prems by simp
    next
      case False
      then have "min (length q - start) (length zo) = length q - start" by simp
      then have "?q = take start q @ replicate (length q - start) zero"
        using zs [of "length q - start"] less.prems by (simp add: copyAt_def Let_def)
      moreover have "zeroChunks zo (start + length zo) ?q = Some ?q"
        using False less.prems by (subst zeroChunks.simps) simp
      ultimately show ?thesis using step by simp
    qed
  qed
qed

lemma zeroSlots_eq: "start \<le> length q \<Longrightarrow> zeroSlots zero start q = take start q @ replicate (length q - start) zero"
proof (induction zero start q rule: zeroSlots.induct)
  case (1 zero start q)
  show ?case
  proof (cases "start < length q")
    case True
    then have "zeroSlots zero (start + 1) (q[start := zero])
        = take (start + 1) (q[start := zero]) @ replicate (length q - (start + 1)) zero"
      using 1 by simp
    moreover have "take (start + 1) (q[start := zero]) = take start q @ [zero]"
      using True by (simp add: take_Suc_conv_app_nth)
    moreover have "length q - start = Suc (length q - (start + 1))" using True by simp
    ultimately show ?thesis using True by (subst zeroSlots.simps) simp
  next
    case False
    then show ?thesis using 1(2) by (subst zeroSlots.simps) simp
  qed
qed

lemma take_drop_update:
  "d + u < length xs \<Longrightarrow> take (Suc u) (drop d (xs[d + u := v])) = take u (drop d xs) @ [v]"
  by (simp add: drop_update_swap take_Suc_conv_app_nth)

text \<open>Where the slots are full, packing or growing moves the content to the front and leaves zero
  slots behind it, and the new element goes to the first of them.\<close>

lemma expandLocked_full:
  fixes q :: "'v simpleQueue"
  assumes b: "0 \<le> baseCursor q" "baseCursor q \<le> dequeueCursor q" "dequeueCursor q \<le> cursor"
    and full: "cursor - baseCursor q = int (length (slots q))" and e: "enqueueCursor q = cursor + 1"
    and len: "1 \<le> length (slots q)" "int (length (slots q)) < 4611686018427387904" "cursor < 1152921504606846976"
    and zo: "\<And>z. zeroout q = Some z \<Longrightarrow> z \<noteq> [] \<and> set z \<subseteq> {zero}"
  defines "xs \<equiv> drop (nat (dequeueCursor q - baseCursor q)) (slots q)"
  shows "\<exists>k. expandLocked zero q cursor (int (length (slots q))) =
              Some (int (length xs), q\<lparr>slots := xs @ replicate (Suc k) zero, baseCursor := dequeueCursor q\<rparr>) \<and>
              int (length xs + Suc k) < 4611686018427387904"
proof -
  let ?len = "length (slots q)"
  define d where "d = nat (dequeueCursor q - baseCursor q)"
  have d: "int d = dequeueCursor q - baseCursor q" "d \<le> ?len" using b full by (auto simp: d_def)
  have lx: "length xs = ?len - d" and xs: "xs = drop d (slots q)" by (simp_all add: xs_def d_def)
  have pd: "physicalPos q (dequeueCursor q) = int d"
    using d b len by (simp add: physicalPos_def i64_id)
  have pe: "physicalPos q (enqueueCursor q) = int ?len + 1"
    using full e b len by (simp add: physicalPos_def i64_id)
  define n where "n = length xs"
  have used: "i64 (i64 (physicalPos q (enqueueCursor q) - 1) - int d) = int n"
    using d len by (simp add: pe lx i64_id n_def)
  have base: "i64 (baseCursor q + int d) = dequeueCursor q" using d b len by (simp add: i64_id)
  have pos: "physicalPos (q\<lparr>slots := ys, baseCursor := dequeueCursor q\<rparr>) cursor = int n" for ys
    using b full d len by (simp add: physicalPos_def lx i64_id n_def)
  have st: "?len - d = n" using lx by (simp add: n_def)
  define nq where "nq = (if int n > go_div (int ?len) 2
      then map_option (\<lambda>c. copyAt (replicate (nat c) zero) 0 xs) (growTo (i64 (int ?len * 2)) (int n))
      else (case zeroout q of Some zo \<Rightarrow> zeroChunks zo n (copyAt (slots q) 0 xs)
            | None \<Rightarrow> Some (zeroSlots zero n (copyAt (slots q) 0 xs))))"
  have body: "expandLocked zero q cursor (int ?len)
      = map_option (\<lambda>ys. (int n, q\<lparr>slots := ys, baseCursor := dequeueCursor q\<rparr>)) nq"
    unfolding expandLocked_def Let_def pd nat_int used base xs [symmetric] st pos nq_def by simp
  have "\<exists>k. nq = Some (xs @ replicate (Suc k) zero) \<and> int (n + Suc k) < 4611686018427387904"
  proof (cases "int n > go_div (int ?len) 2")
    case True
    have cap: "i64 (int ?len * 2) = int ?len * 2" using len by (intro i64_id) simp_all
    have "\<not> int ?len * 2 < int n" using lx by (simp add: n_def)
    then have grow: "growTo (int ?len * 2) (int n) = Some (int ?len * 2)" by (subst growTo.simps) simp
    have "n < 2 * ?len" using lx len(1) by (simp add: n_def)
    then obtain k where k: "2 * ?len = n + Suc k" by (metis less_imp_Suc_add add_Suc_right)
    have two: "nat (int ?len * 2) = n + Suc k" using k by (simp add: nat_mult_distrib)
    have "copyAt (replicate (n + Suc k) zero) 0 xs = xs @ replicate (Suc k) zero"
      by (simp add: copyAt_def Let_def n_def del: replicate_Suc)
    then have "nq = Some (xs @ replicate (Suc k) zero)"
      unfolding nq_def cap grow option.map two using True by (simp only: if_True)
    moreover have "int (n + Suc k) < 4611686018427387904"
    proof -
      have "int ?len div 2 < int n" using True by simp
      then have 1: "int ?len \<le> 2 * int n" by simp
      have 2: "int n = cursor - dequeueCursor q" using full d(1) st d(2) by (simp add: of_nat_diff flip: st)
      have 3: "int (n + Suc k) = 2 * int ?len" using k by simp
      show ?thesis unfolding 3 using 1 2 b(1,2) len(3) by simp
    qed
    ultimately show ?thesis by blast
  next
    case False
    have mv: "copyAt (slots q) 0 xs = xs @ drop n (slots q)" using lx by (simp add: copyAt_def Let_def n_def)
    have "n < ?len" using False len(1) lx by (simp add: n_def)
    then obtain k where k: "?len = n + Suc k" by (metis less_imp_Suc_add add_Suc_right)
    have z1: "zeroChunks z n (xs @ drop n (slots q)) = Some (xs @ replicate (Suc k) zero)"
      if "zeroout q = Some z" for z
      using zeroChunks_eq [of z zero n "xs @ drop n (slots q)"] zo [OF that] k by (simp add: n_def)
    have z2: "zeroSlots zero n (xs @ drop n (slots q)) = xs @ replicate (Suc k) zero"
      using zeroSlots_eq [of n "xs @ drop n (slots q)" zero] k by (simp add: n_def)
    have "nq = Some (xs @ replicate (Suc k) zero)"
      unfolding nq_def mv using False z1 z2 by (simp only: if_False) (simp split: option.splits)
    then show ?thesis using k len(2) by auto
  qed
  then show ?thesis using body by (auto simp: n_def)
qed

section \<open>The queue meets the contract\<close>

lemma Enqueue_stores:
  assumes us: "queueUsable zero (Suc n) q" and v: "v \<noteq> zero"
  shows "\<exists>q'. Enqueue zero v q = Some (Inr q') \<and> queueContent q' = queueContent q @ [v] \<and> queueUsable zero n q'"
proof -
  define d u where "d = nat (dequeueCursor q - baseCursor q)" and "u = nat (enqueueCursor q - dequeueCursor q)"
  note us' = us [unfolded queueUsable_def]
  have di: "int d = dequeueCursor q - baseCursor q" and ui: "int u = enqueueCursor q - dequeueCursor q"
    using us' by (simp_all add: d_def u_def)
  have du: "d + u \<le> length (slots q)" "nat (enqueueCursor q - baseCursor q) = d + u" using us' di ui by linarith+
  define q1 where "q1 = q\<lparr>enqueueCursor := enqueueCursor q + 1\<rparr>"
  have c1: "i64 (enqueueCursor q + 1) = enqueueCursor q + 1" using us' by (intro i64_id) simp_all
  have c2: "i64 (enqueueCursor q) = enqueueCursor q" using us' by (intro i64_id) simp_all
  have pos: "physicalPos q1 (enqueueCursor q) = enqueueCursor q - baseCursor q"
    using us' by (simp add: q1_def physicalPos_def i64_id)
  have enq: "Enqueue zero v q = map_option (\<lambda>(pos', q2). Inr (q2\<lparr>slots := (slots q2)[nat pos' := v]\<rparr>))
      (if enqueueCursor q - baseCursor q \<ge> int (length (slots q))
       then expandLocked zero q1 (enqueueCursor q) (enqueueCursor q - baseCursor q)
       else Some (enqueueCursor q - baseCursor q, q1))"
    using v pos by (simp add: Enqueue_def Let_def c1 c2 q1_def)
  show ?thesis
  proof (cases "enqueueCursor q - baseCursor q < int (length (slots q))")
    case True
    then have lt: "d + u < length (slots q)" using du us' by linarith
    let ?q' = "q1\<lparr>slots := (slots q)[d + u := v]\<rparr>"
    have "enqueueCursor q + 1 - dequeueCursor q = int (Suc u)" using ui by simp
    then have "nat (enqueueCursor q + 1 - dequeueCursor q) = Suc u" by (simp only: nat_int)
    then have con: "queueContent ?q' = queueContent q @ [v]"
      using take_drop_update [OF lt] by (simp add: queueContent_def q1_def flip: d_def u_def)
    have "Enqueue zero v q = Some (Inr ?q')" using enq True du by (simp add: q1_def)
    moreover have "queueUsable zero n ?q'" using us' con True v by (simp add: queueUsable_def q1_def)
    ultimately show ?thesis using con by blast
  next
    case False
    then have full: "enqueueCursor q - baseCursor q = int (length (slots q))" using us' by linarith
    let ?xs = "drop d (slots q)"
    have lx: "length ?xs = u" using full di ui by simp
    have "\<exists>k. expandLocked zero q1 (enqueueCursor q) (int (length (slots q1))) =
        Some (int (length ?xs), q1\<lparr>slots := ?xs @ replicate (Suc k) zero, baseCursor := dequeueCursor q1\<rparr>) \<and>
        int (length ?xs + Suc k) < 4611686018427387904"
      using us' full expandLocked_full [of q1 "enqueueCursor q" zero] by (simp add: q1_def d_def)
    then obtain k where k: "expandLocked zero q1 (enqueueCursor q) (int (length (slots q))) =
        Some (int u, q1\<lparr>slots := ?xs @ replicate (Suc k) zero, baseCursor := dequeueCursor q\<rparr>)"
      "int (u + Suc k) < 4611686018427387904" unfolding lx by (auto simp: q1_def)
    let ?q' = "q1\<lparr>slots := ?xs @ v # replicate k zero, baseCursor := dequeueCursor q\<rparr>"
    have "(?xs @ replicate (Suc k) zero)[u := v] = ?xs @ v # replicate k zero"
      using lx by (simp add: list_update_append)
    then have "Enqueue zero v q = Some (Inr ?q')" using enq full k(1) by simp
    moreover have old: "queueContent q = ?xs" using lx by (simp add: queueContent_def flip: d_def u_def)
    moreover have "enqueueCursor q + 1 - dequeueCursor q = int (Suc u)" using ui by simp
    then have "nat (enqueueCursor q + 1 - dequeueCursor q) = Suc u" by (simp only: nat_int)
    then have con: "queueContent ?q' = ?xs @ [v]" using lx by (simp add: queueContent_def q1_def)
    moreover have "queueUsable zero n ?q'"
    proof -
      have "zero \<notin> set ?xs" using us' old by simp
      then show ?thesis using us' con k(2) lx ui v by (simp add: queueUsable_def q1_def)
    qed
    ultimately show ?thesis by simp
  qed
qed

lemma content_Nil: "queueUsable zero n q \<Longrightarrow> queueContent q = [] \<longleftrightarrow> enqueueCursor q \<le> dequeueCursor q"
  by (auto simp: queueUsable_def queueContent_def)

lemma content_Cons:
  assumes us: "queueUsable zero n q" and c: "queueContent q = x # xs"
  shows "dequeueCursor q < enqueueCursor q" and "physicalPos q (dequeueCursor q) = dequeueCursor q - baseCursor q"
    and "dequeueCursor q - baseCursor q < int (length (slots q))"
    and "slots q ! nat (dequeueCursor q - baseCursor q) = x" and "x \<noteq> zero"
    and "queueContent (q\<lparr>dequeueCursor := dequeueCursor q + 1\<rparr>) = xs"
proof -
  note us' = us [unfolded queueUsable_def]
  define d u where "d = nat (dequeueCursor q - baseCursor q)" and "u = nat (enqueueCursor q - dequeueCursor q)"
  have tk: "take u (drop d (slots q)) = x # xs" using c by (simp add: queueContent_def d_def u_def)
  then have "0 < u" "d < length (slots q)" by (auto simp: neq_Nil_conv intro: gr0I ccontr)
  then have "drop d (slots q) = slots q ! d # drop (Suc d) (slots q)" by (simp add: Cons_nth_drop_Suc)
  then have hd: "slots q ! d = x" and rest: "take (u - 1) (drop (Suc d) (slots q)) = xs"
    using tk \<open>0 < u\<close> by (cases u; simp)+
  show 1: "dequeueCursor q < enqueueCursor q" using \<open>0 < u\<close> by (simp add: u_def)
  show "physicalPos q (dequeueCursor q) = dequeueCursor q - baseCursor q"
    using us' by (simp add: physicalPos_def i64_id)
  show "dequeueCursor q - baseCursor q < int (length (slots q))" using \<open>d < length (slots q)\<close> us' by (simp add: d_def)
  show "slots q ! nat (dequeueCursor q - baseCursor q) = x" using hd by (simp add: d_def)
  show "x \<noteq> zero" using us' c by auto
  have "enqueueCursor q - (dequeueCursor q + 1) = int (u - 1)" "dequeueCursor q + 1 - baseCursor q = int (Suc d)"
    using us' 1 by (auto simp: u_def d_def)
  then have "nat (enqueueCursor q - (dequeueCursor q + 1)) = u - 1" "nat (dequeueCursor q + 1 - baseCursor q) = Suc d"
    by (simp_all only: nat_int)
  then show "queueContent (q\<lparr>dequeueCursor := dequeueCursor q + 1\<rparr>) = xs"
    using rest by (simp add: queueContent_def)
qed

interpretation sq: fifo_queue "Enqueue zero" "Peek zero" "Dequeue zero" queueContent "queueUsable zero"
  "\<lambda>v. v \<noteq> zero" ErrZeroValueNotSupported ErrQueueEmpty for zero :: 'v
proof
  fix n and q :: "'v simpleQueue" and v x :: 'v and xs
  show "queueUsable zero n q \<Longrightarrow> \<not> v \<noteq> zero \<Longrightarrow> Enqueue zero v q = Some (Inl ErrZeroValueNotSupported)"
    by (simp add: Enqueue_def)
  show "queueUsable zero (Suc n) q \<Longrightarrow> v \<noteq> zero \<Longrightarrow>
      \<exists>q'. Enqueue zero v q = Some (Inr q') \<and> queueContent q' = queueContent q @ [v] \<and> queueUsable zero n q'"
    by (rule Enqueue_stores)
  show "queueUsable zero n q \<Longrightarrow> queueContent q = [] \<Longrightarrow> Peek zero q = Some (Inl ErrQueueEmpty)"
    by (subst Peek.simps) (simp add: content_Nil)
  show "queueUsable zero n q \<Longrightarrow> queueContent q = x # xs \<Longrightarrow> Peek zero q = Some (Inr x)"
    using content_Cons [of zero n q x xs] by (subst Peek.simps) simp
  show "queueUsable zero n q \<Longrightarrow> queueContent q = [] \<Longrightarrow> Dequeue zero q = Some (Inl ErrQueueEmpty, q)"
    by (subst Dequeue.simps) (simp add: content_Nil)
  show "queueUsable zero n q \<Longrightarrow> queueContent q = x # xs \<Longrightarrow>
      \<exists>q'. Dequeue zero q = Some (Inr x, q') \<and> queueContent q' = xs \<and> queueUsable zero n q'"
  proof -
    assume us: "queueUsable zero n q" and c: "queueContent q = x # xs"
    note cc = content_Cons [OF us c]
    have w: "i64 (dequeueCursor q + 1) = dequeueCursor q + 1"
      using us cc(1) by (intro i64_id) (simp_all add: queueUsable_def)
    have "Dequeue zero q = Some (Inr x, q\<lparr>dequeueCursor := dequeueCursor q + 1\<rparr>)"
      using cc w by (subst Dequeue.simps) simp
    moreover have "queueUsable zero n (q\<lparr>dequeueCursor := dequeueCursor q + 1\<rparr>)"
      using us c cc(1,6) by (simp add: queueUsable_def)
    ultimately show ?thesis using cc(6) by blast
  qed
  show "queueUsable zero (Suc n) q \<Longrightarrow> queueUsable zero n q" by (simp add: queueUsable_def)
qed

lemma queue_len_counts:
  assumes "queueUsable zero n q"
  shows "Len q = int (length (queueContent q))"
proof -
  have "int (length (queueContent q)) = enqueueCursor q - dequeueCursor q"
    using assms by (auto simp: queueUsable_def queueContent_def min_def)
  then show ?thesis using assms by (simp add: Len_def queueUsable_def i64_id)
qed

section \<open>Properties\<close>

text \<open>C23. The queue is first in, first out: starting from a new queue, any sequence of enqueues, peeks
  and dequeues returns, call by call, what the same calls on a list return, however often the slots
  are packed or grown in between, and every call returns.\<close>

theorem simple_queue_is_fifo:
  assumes "capacity < 4611686018427387904" and "int (length ops) < 1152921504606846976"
  shows "\<exists>q'. queueRun (Enqueue zero) (Peek zero) (Dequeue zero) ops (NewSimpleQueue zero capacity)
           = Some (fst (listRun (\<lambda>v. v \<noteq> zero) ErrZeroValueNotSupported ErrQueueEmpty ops []), q') \<and>
         queueContent q' = snd (listRun (\<lambda>v. v \<noteq> zero) ErrZeroValueNotSupported ErrQueueEmpty ops [])"
proof -
  have "queueContent (NewSimpleQueue zero capacity) = []"
    by (simp add: queueContent_def NewSimpleQueue_def Let_def)
  moreover have "queueUsable zero (length ops) (NewSimpleQueue zero capacity)"
    using assms by (auto simp: queueUsable_def NewSimpleQueue_def queueContent_def Let_def DefaultQueueCapacity_def)
  ultimately show ?thesis using sq.run_refines [of zero ops "NewSimpleQueue zero capacity"] by simp
qed

theorem simple_queue_is_fifo_witness:
  "\<exists>q'. queueRun (Enqueue (0::int)) (Peek 0) (Dequeue 0)
          [OpEnqueue 7, OpEnqueue 8, OpDequeue, OpEnqueue 0, OpEnqueue 9, OpPeek, OpDequeue] (NewSimpleQueue 0 1)
        = Some ([Stored, Stored, Value 7, Refused ErrZeroValueNotSupported, Stored, Value 8, Value 8], q') \<and>
        queueContent q' = [9]"
  using simple_queue_is_fifo [of 1 "[OpEnqueue 7, OpEnqueue 8, OpDequeue, OpEnqueue 0, OpEnqueue 9, OpPeek, OpDequeue]" "0::int"]
  by simp

end
