(* ===== verification/ExternalConfig.thy ===== *)
theory ExternalConfig
  imports Claims
begin

text \<open>
  The configuration of the external routing strategy
  (\<^verbatim>\<open>src/pkg/plugins/gateway/algorithms/external/config.go\<close>): fourteen environment variables checked
  against each other once, when the gateway starts.

  The environment and the token file are the arguments \<open>getenv\<close> and \<open>readFile\<close>, as in the code.
  \<^verbatim>\<open>url.Parse\<close> and \<^verbatim>\<open>time.ParseDuration\<close> are the arguments \<open>parseURL\<close> and \<open>parseDuration\<close>; nothing is
  assumed of them. Strings are byte strings.
\<close>

section \<open>The configuration\<close>

record parsedURL =
  urlIsAbs :: bool
  urlHost :: string
  urlScheme :: string
  urlHasUser :: bool
  urlFragment :: string

record externalRouterConfig =
  endpoint :: "parsedURL option"
  policyMode :: string
  failureMode :: string
  fallback :: string
  timeout :: int
  maxInflight :: int
  maxRequestBytes :: int
  maxResponseBytes :: int
  failureThreshold :: int
  openDuration :: int
  bearerToken :: string
  candidateAttributes :: "string list"
  candidateMetrics :: "string list"
  policyAttributes :: "string list"

datatype allowlist_error = InvalidName string | DuplicateName string | TooManyNames

datatype config_error =
    ExternalRouterDisabled
  | EndpointNotAbsolute
  | EndpointSchemeUnsupported
  | EndpointHasUserinfoOrFragment
  | PolicyModeUnknown
  | FailureModeUnknown
  | AuthoritativeRequiresFailClosed
  | FallbackToItself
  | FallbackRequired
  | NotAPositiveDuration string
  | NotAPositiveInt string
  | NotAPositiveByteSize string
  | BadAllowlist string allowlist_error
  | UnsupportedMetric string
  | TokenFileUnreadable
  | TokenEmpty
  | TokenInvalid

definition externalAlgorithm :: string where
  "externalAlgorithm = ''external''"

text \<open>\<^verbatim>\<open>if x, err = f(); err != nil { return cfg, err }\<close>\<close>

definition andThen :: "('e + 'a) \<Rightarrow> ('a \<Rightarrow> 'e + 'b) \<Rightarrow> 'e + 'b" where
  "andThen r f = (case r of Inl e \<Rightarrow> Inl e | Inr x \<Rightarrow> f x)"

section \<open>Reading a value\<close>

definition loadPositiveDuration ::
  "(string \<Rightarrow> int option) \<Rightarrow> (string \<Rightarrow> string) \<Rightarrow> string \<Rightarrow> int \<Rightarrow> config_error + int" where
  "loadPositiveDuration parseDuration getenv key dflt =
     (let raw = TrimSpace (getenv key)
      in if raw = [] then Inr dflt
         else case parseDuration raw of
                None \<Rightarrow> Inl (NotAPositiveDuration key)
              | Some v \<Rightarrow> if v \<le> 0 then Inl (NotAPositiveDuration key) else Inr v)"

definition loadPositiveInt :: "(string \<Rightarrow> string) \<Rightarrow> string \<Rightarrow> int \<Rightarrow> config_error + int" where
  "loadPositiveInt getenv key dflt =
     (let raw = TrimSpace (getenv key)
      in if raw = [] then Inr dflt
         else case parseInt64 raw of
                None \<Rightarrow> Inl (NotAPositiveInt key)
              | Some v \<Rightarrow> if v \<le> 0 then Inl (NotAPositiveInt key) else Inr v)"

definition hasSuffix :: "string \<Rightarrow> string \<Rightarrow> bool" where
  "hasSuffix s suffix \<longleftrightarrow> length suffix \<le> length s \<and> drop (length s - length suffix) s = suffix"

definition trimSuffix :: "string \<Rightarrow> string \<Rightarrow> string" where
  "trimSuffix s suffix = (if hasSuffix s suffix then take (length s - length suffix) s else s)"

text \<open>No string ends in both suffixes, so the order in which the map of suffixes is ranged over does
  not matter.\<close>

definition byteSuffix :: "string \<Rightarrow> int \<times> string" where
  "byteSuffix raw =
     (if hasSuffix raw ''KiB'' then (1024, TrimSpace (trimSuffix raw ''KiB''))
      else if hasSuffix raw ''MiB'' then (1048576, TrimSpace (trimSuffix raw ''MiB''))
      else (1, raw))"

definition loadPositiveBytes :: "(string \<Rightarrow> string) \<Rightarrow> string \<Rightarrow> int \<Rightarrow> config_error + int" where
  "loadPositiveBytes getenv key dflt =
     (let raw = TrimSpace (getenv key)
      in if raw = [] then Inr dflt
         else (let (multiplier, number) = byteSuffix raw
               in case parseInt64 number of
                    None \<Rightarrow> Inl (NotAPositiveByteSize key)
                  | Some v \<Rightarrow>
                      if v \<le> 0 \<or> v > go_div 4611686018427387904 multiplier
                      then Inl (NotAPositiveByteSize key) else Inr (i64 (v * multiplier))))"

text \<open>\<^verbatim>\<open>^[A-Za-z][A-Za-z0-9_./-]{0,127}$\<close>\<close>

definition isLetter :: "char \<Rightarrow> bool" where
  "isLetter c \<longleftrightarrow> inRange (CHR ''A'') (CHR ''Z'') c \<or> inRange (CHR ''a'') (CHR ''z'') c"

definition externalAttributeKeyRE :: "string \<Rightarrow> bool" where
  "externalAttributeKeyRE s =
     (case s of
        [] \<Rightarrow> False
      | c # cs \<Rightarrow> isLetter c \<and> length cs \<le> 127 \<and>
          list_all (\<lambda>d. isLetter d \<or> inRange (CHR ''0'') (CHR ''9'') d \<or> d \<in> set ''_./-'') cs)"

text \<open>\<^verbatim>\<open>strings.Split(s, ",")\<close>\<close>

fun splitComma :: "string \<Rightarrow> string list" where
  "splitComma [] = [[]]"
| "splitComma (c # cs) =
     (if c = CHR '','' then [] # splitComma cs
      else (case splitComma cs of [] \<Rightarrow> [[c]] | w # ws \<Rightarrow> (c # w) # ws))"

fun allowlistLoop :: "string list \<Rightarrow> string list \<Rightarrow> allowlist_error + string list" where
  "allowlistLoop [] vals = Inr vals"
| "allowlistLoop (item # items) vals =
     (let v = TrimSpace item
      in if \<not> externalAttributeKeyRE v then Inl (InvalidName v)
         else if v \<in> set vals then Inl (DuplicateName v)
         else allowlistLoop items (vals @ [v]))"

definition parseExternalAllowlist :: "string \<Rightarrow> allowlist_error + string list" where
  "parseExternalAllowlist raw =
     (if TrimSpace raw = [] then Inr []
      else andThen (allowlistLoop (splitComma raw) [])
             (\<lambda>vals. if length vals > 32 then Inl TooManyNames else Inr (sort vals)))"

definition allowlistFrom :: "(string \<Rightarrow> string) \<Rightarrow> string \<Rightarrow> config_error + string list" where
  "allowlistFrom getenv key =
     (case parseExternalAllowlist (getenv key) of Inl e \<Rightarrow> Inl (BadAllowlist key e) | Inr xs \<Rightarrow> Inr xs)"

definition externalMetricNames :: "string list" where
  "externalMetricNames = [''runningRequests'', ''engineUtilization'', ''kvCacheUsage'']"

fun supportedMetrics :: "string list \<Rightarrow> string list \<Rightarrow> config_error + string list" where
  "supportedMetrics [] ms = Inr ms"
| "supportedMetrics (name # names) ms =
     (if name \<in> set externalMetricNames then supportedMetrics names (ms @ [name])
      else Inl (UnsupportedMetric name))"

definition loadBearerToken ::
  "(string \<Rightarrow> string) \<Rightarrow> (string \<Rightarrow> string option) \<Rightarrow> config_error + string" where
  "loadBearerToken getenv readFile =
     (let tokenFile = TrimSpace (getenv ''AIBRIX_EXTERNAL_ROUTER_AUTH_TOKEN_FILE'')
      in if tokenFile = [] then Inr []
         else case readFile tokenFile of
                None \<Rightarrow> Inl TokenFileUnreadable
              | Some content \<Rightarrow>
                  (let token = TrimSpace content
                   in if token = [] then Inl TokenEmpty
                      else if length token > 8192 \<or> list_ex (\<lambda>c. c \<in> {CHR 0x0D, CHR 0x0A}) token
                      then Inl TokenInvalid else Inr token))"

section \<open>Loading\<close>

definition checkEndpoint :: "parsedURL option \<Rightarrow> config_error + parsedURL" where
  "checkEndpoint u =
     (case u of
        None \<Rightarrow> Inl EndpointNotAbsolute
      | Some e \<Rightarrow>
          if \<not> urlIsAbs e \<or> urlHost e = [] then Inl EndpointNotAbsolute
          else if urlScheme e \<noteq> ''http'' \<and> urlScheme e \<noteq> ''https'' then Inl EndpointSchemeUnsupported
          else if urlHasUser e \<or> urlFragment e \<noteq> [] then Inl EndpointHasUserinfoOrFragment
          else Inr e)"

definition checkModes :: "string \<Rightarrow> string \<Rightarrow> string \<Rightarrow> config_error + unit" where
  "checkModes policy failure fb =
     (if policy \<noteq> ''Advisory'' \<and> policy \<noteq> ''Authoritative'' then Inl PolicyModeUnknown
      else if failure \<noteq> ''FailOpen'' \<and> failure \<noteq> ''FailClosed'' then Inl FailureModeUnknown
      else if policy = ''Authoritative'' \<and> failure \<noteq> ''FailClosed'' then Inl AuthoritativeRequiresFailClosed
      else if fb \<noteq> [] \<and> fb = externalAlgorithm then Inl FallbackToItself
      else if (policy = ''Advisory'' \<or> failure = ''FailOpen'') \<and> fb = [] then Inl FallbackRequired
      else Inr ())"

definition loadExternalRouterConfigFrom ::
  "(string \<Rightarrow> parsedURL option) \<Rightarrow> (string \<Rightarrow> int option) \<Rightarrow> (string \<Rightarrow> string) \<Rightarrow> (string \<Rightarrow> string option) \<Rightarrow>
     config_error + externalRouterConfig" where
  "loadExternalRouterConfigFrom parseURL parseDuration getenv readFile =
     (let rawEndpoint = TrimSpace (getenv ''AIBRIX_EXTERNAL_ROUTER_ENDPOINT'');
          policy = TrimSpace (getenv ''AIBRIX_EXTERNAL_ROUTER_POLICY_MODE'');
          failure = TrimSpace (getenv ''AIBRIX_EXTERNAL_ROUTER_FAILURE_MODE'');
          fb = TrimSpace (getenv ''AIBRIX_EXTERNAL_ROUTER_FALLBACK'')
      in if rawEndpoint = [] then Inl ExternalRouterDisabled
         else andThen (checkEndpoint (parseURL rawEndpoint)) (\<lambda>e.
              andThen (checkModes policy failure fb) (\<lambda>_.
              andThen (loadPositiveDuration parseDuration getenv ''AIBRIX_EXTERNAL_ROUTER_TIMEOUT'' 10000000) (\<lambda>t.
              andThen (loadPositiveDuration parseDuration getenv ''AIBRIX_EXTERNAL_ROUTER_OPEN_DURATION'' 1000000000) (\<lambda>d.
              andThen (loadPositiveInt getenv ''AIBRIX_EXTERNAL_ROUTER_MAX_INFLIGHT'' 256) (\<lambda>inflight.
              andThen (loadPositiveInt getenv ''AIBRIX_EXTERNAL_ROUTER_FAILURE_THRESHOLD'' 5) (\<lambda>threshold.
              andThen (loadPositiveBytes getenv ''AIBRIX_EXTERNAL_ROUTER_MAX_REQUEST_BYTES'' 262144) (\<lambda>req.
              andThen (loadPositiveBytes getenv ''AIBRIX_EXTERNAL_ROUTER_MAX_RESPONSE_BYTES'' 65536) (\<lambda>resp.
              andThen (allowlistFrom getenv ''AIBRIX_EXTERNAL_ROUTER_CANDIDATE_ATTRIBUTES'') (\<lambda>cand.
              andThen (allowlistFrom getenv ''AIBRIX_EXTERNAL_ROUTER_POLICY_ATTRIBUTES'') (\<lambda>pol.
              andThen (allowlistFrom getenv ''AIBRIX_EXTERNAL_ROUTER_CANDIDATE_METRICS'') (\<lambda>names.
              andThen (supportedMetrics names []) (\<lambda>ms.
              andThen (loadBearerToken getenv readFile) (\<lambda>token.
              Inr \<lparr>endpoint = Some e, policyMode = policy, failureMode = failure, fallback = fb, timeout = t,
                   maxInflight = inflight, maxRequestBytes = req, maxResponseBytes = resp,
                   failureThreshold = threshold, openDuration = d, bearerToken = token,
                   candidateAttributes = cand, candidateMetrics = ms, policyAttributes = pol\<rparr>))))))))))))))"

section \<open>What a loaded configuration promises\<close>

definition allowlist_ok :: "string list \<Rightarrow> bool" where
  "allowlist_ok xs \<longleftrightarrow> sorted xs \<and> distinct xs \<and> length xs \<le> 32 \<and> (\<forall>x \<in> set xs. externalAttributeKeyRE x)"

definition config_ok :: "externalRouterConfig \<Rightarrow> bool" where
  "config_ok cfg \<longleftrightarrow>
     policyMode cfg \<in> {''Advisory'', ''Authoritative''} \<and> failureMode cfg \<in> {''FailOpen'', ''FailClosed''} \<and>
     (policyMode cfg = ''Authoritative'' \<longrightarrow> failureMode cfg = ''FailClosed'') \<and>
     fallback cfg \<noteq> externalAlgorithm \<and>
     (policyMode cfg = ''Advisory'' \<or> failureMode cfg = ''FailOpen'' \<longrightarrow> fallback cfg \<noteq> []) \<and>
     0 < timeout cfg \<and> 0 < openDuration cfg \<and> 0 < maxInflight cfg \<and> 0 < failureThreshold cfg \<and>
     maxRequestBytes cfg \<in> {1..4611686018427387904} \<and> maxResponseBytes cfg \<in> {1..4611686018427387904} \<and>
     allowlist_ok (candidateAttributes cfg) \<and> allowlist_ok (policyAttributes cfg) \<and>
     distinct (candidateMetrics cfg) \<and> set (candidateMetrics cfg) \<subseteq> set externalMetricNames"

definition exEnvironment :: "string \<Rightarrow> string" where
  "exEnvironment key =
     (if key = ''AIBRIX_EXTERNAL_ROUTER_ENDPOINT'' then ''http://policy:8080''
      else if key = ''AIBRIX_EXTERNAL_ROUTER_POLICY_MODE'' then '' Authoritative''
      else if key = ''AIBRIX_EXTERNAL_ROUTER_FAILURE_MODE'' then ''FailClosed''
      else if key = ''AIBRIX_EXTERNAL_ROUTER_MAX_REQUEST_BYTES'' then ''64 KiB''
      else if key = ''AIBRIX_EXTERNAL_ROUTER_CANDIDATE_METRICS'' then ''runningRequests, kvCacheUsage''
      else [])"

definition exURL :: "string \<Rightarrow> parsedURL option" where
  "exURL s = Some \<lparr>urlIsAbs = True, urlHost = ''policy:8080'', urlScheme = ''http'', urlHasUser = False, urlFragment = []\<rparr>"

section \<open>Lemmas\<close>

lemma andThen_Inr [simp]: "andThen r f = Inr y \<longleftrightarrow> (\<exists>x. r = Inr x \<and> f x = Inr y)"
  by (cases r) (simp_all add: andThen_def)

lemma loadPositiveDuration_pos: "loadPositiveDuration pd g key n = Inr v \<Longrightarrow> 0 < n \<Longrightarrow> 0 < v"
  by (auto simp: loadPositiveDuration_def Let_def split: if_splits option.splits)

lemma loadPositiveInt_pos: "loadPositiveInt g key n = Inr v \<Longrightarrow> 0 < n \<Longrightarrow> 0 < v"
  by (auto simp: loadPositiveInt_def Let_def split: if_splits option.splits)

lemma byteSuffix_cases: "fst (byteSuffix raw) \<in> {1, 1024, 1048576}"
  by (simp add: byteSuffix_def)

lemma loadPositiveBytes_range:
  assumes "loadPositiveBytes g key n = Inr v" and "n \<in> {1..4611686018427387904}"
  shows "v \<in> {1..4611686018427387904}"
proof (cases "TrimSpace (g key) = []")
  case True
  then show ?thesis using assms by (simp add: loadPositiveBytes_def)
next
  case False
  obtain m number where s: "byteSuffix (TrimSpace (g key)) = (m, number)" by fastforce
  then have m: "m \<in> {1, 1024, 1048576}" using byteSuffix_cases by (metis fst_conv)
  obtain w where w: "0 < w" "w \<le> go_div 4611686018427387904 m" "v = i64 (w * m)"
    using assms(1) False s
    by (cases "parseInt64 number") (auto simp: loadPositiveBytes_def Let_def not_less not_le split: if_splits)
  then have "1 \<le> w * m \<and> w * m \<le> 4611686018427387904" using m by (auto simp: go_div_def)
  moreover from this have "v = w * m" using w(3) by (simp add: i64_id)
  ultimately show ?thesis by simp
qed

lemma allowlistLoop_ok:
  "allowlistLoop items vals = Inr xs \<Longrightarrow> distinct vals \<Longrightarrow> \<forall>x \<in> set vals. externalAttributeKeyRE x \<Longrightarrow>
     distinct xs \<and> (\<forall>x \<in> set xs. externalAttributeKeyRE x)"
proof (induction items arbitrary: vals)
  case (Cons item items)
  let ?v = "TrimSpace item"
  have v: "externalAttributeKeyRE ?v" "?v \<notin> set vals" and rest: "allowlistLoop items (vals @ [?v]) = Inr xs"
    using Cons.prems(1) by (simp_all add: Let_def split: if_split_asm)
  show ?case by (rule Cons.IH [OF rest]) (use Cons.prems(2,3) v in auto)
qed simp

lemma allowlistFrom_ok: "allowlistFrom g key = Inr xs \<Longrightarrow> allowlist_ok xs"
  using allowlistLoop_ok [of "splitComma (g key)" "[]"]
  by (auto simp: allowlistFrom_def parseExternalAllowlist_def allowlist_ok_def split: sum.splits if_splits)

lemma supportedMetrics_ok:
  "supportedMetrics names ms = Inr ms' \<Longrightarrow> ms' = ms @ names \<and> set names \<subseteq> set externalMetricNames"
proof (induction names arbitrary: ms)
  case (Cons a names)
  then show ?case using Cons.IH [of "ms @ [a]"] by (auto split: if_splits)
qed simp

lemma checkModes_ok:
  "checkModes p f fb = Inr u \<Longrightarrow>
     p \<in> {''Advisory'', ''Authoritative''} \<and> f \<in> {''FailOpen'', ''FailClosed''} \<and>
     (p = ''Authoritative'' \<longrightarrow> f = ''FailClosed'') \<and> fb \<noteq> externalAlgorithm \<and>
     (p = ''Advisory'' \<or> f = ''FailOpen'' \<longrightarrow> fb \<noteq> [])"
proof -
  assume c: "checkModes p f fb = Inr u"
  have "externalAlgorithm \<noteq> []" by (simp add: externalAlgorithm_def)
  then show ?thesis using c
    by (simp only: checkModes_def sum.distinct insert_iff empty_iff simp_thms split: if_split_asm) blast
qed

section \<open>Properties\<close>

text \<open>
  A configuration that loads is consistent, whatever the environment holds: an authoritative policy
  fails closed, a fallback is configured wherever one may be needed and is never the external strategy
  itself, every limit is positive, a byte size did not overflow when its unit was applied, and the
  allowlists are sorted, free of duplicates and bounded.
\<close>

theorem loaded_config_is_consistent:
  assumes "loadExternalRouterConfigFrom parseURL parseDuration getenv readFile = Inr cfg"
  shows "config_ok cfg"
proof -
  obtain e u t d inflight threshold req resp cand pol names ms token where
    m: "checkModes (TrimSpace (getenv ''AIBRIX_EXTERNAL_ROUTER_POLICY_MODE''))
          (TrimSpace (getenv ''AIBRIX_EXTERNAL_ROUTER_FAILURE_MODE''))
          (TrimSpace (getenv ''AIBRIX_EXTERNAL_ROUTER_FALLBACK'')) = Inr u"
    and t: "loadPositiveDuration parseDuration getenv ''AIBRIX_EXTERNAL_ROUTER_TIMEOUT'' 10000000 = Inr t"
    and d: "loadPositiveDuration parseDuration getenv ''AIBRIX_EXTERNAL_ROUTER_OPEN_DURATION'' 1000000000 = Inr d"
    and i: "loadPositiveInt getenv ''AIBRIX_EXTERNAL_ROUTER_MAX_INFLIGHT'' 256 = Inr inflight"
    and th: "loadPositiveInt getenv ''AIBRIX_EXTERNAL_ROUTER_FAILURE_THRESHOLD'' 5 = Inr threshold"
    and req: "loadPositiveBytes getenv ''AIBRIX_EXTERNAL_ROUTER_MAX_REQUEST_BYTES'' 262144 = Inr req"
    and resp: "loadPositiveBytes getenv ''AIBRIX_EXTERNAL_ROUTER_MAX_RESPONSE_BYTES'' 65536 = Inr resp"
    and cand: "allowlistFrom getenv ''AIBRIX_EXTERNAL_ROUTER_CANDIDATE_ATTRIBUTES'' = Inr cand"
    and pol: "allowlistFrom getenv ''AIBRIX_EXTERNAL_ROUTER_POLICY_ATTRIBUTES'' = Inr pol"
    and ms: "allowlistFrom getenv ''AIBRIX_EXTERNAL_ROUTER_CANDIDATE_METRICS'' = Inr names"
      "supportedMetrics names [] = Inr ms"
    and cfg: "cfg = \<lparr>endpoint = Some e, policyMode = TrimSpace (getenv ''AIBRIX_EXTERNAL_ROUTER_POLICY_MODE''),
      failureMode = TrimSpace (getenv ''AIBRIX_EXTERNAL_ROUTER_FAILURE_MODE''),
      fallback = TrimSpace (getenv ''AIBRIX_EXTERNAL_ROUTER_FALLBACK''), timeout = t,
      maxInflight = inflight, maxRequestBytes = req, maxResponseBytes = resp, failureThreshold = threshold,
      openDuration = d, bearerToken = token, candidateAttributes = cand, candidateMetrics = ms,
      policyAttributes = pol\<rparr>"
    using assms unfolding loadExternalRouterConfigFrom_def Let_def
    by (simp only: andThen_Inr sum.distinct sum.inject split: if_split_asm)
      (elim exE conjE, rule that, assumption+, rule sym, assumption)
  have "distinct ms \<and> set ms \<subseteq> set externalMetricNames"
    using supportedMetrics_ok [OF ms(2)] allowlistFrom_ok [OF ms(1)] by (simp add: allowlist_ok_def)
  then show ?thesis
    using checkModes_ok [OF m] loadPositiveDuration_pos [OF t] loadPositiveDuration_pos [OF d]
      loadPositiveInt_pos [OF i] loadPositiveInt_pos [OF th] loadPositiveBytes_range [OF req]
      loadPositiveBytes_range [OF resp] allowlistFrom_ok [OF cand] allowlistFrom_ok [OF pol]
    unfolding config_ok_def cfg by simp
qed

theorem loaded_config_is_consistent_witness:
  "\<exists>cfg. loadExternalRouterConfigFrom exURL (\<lambda>_. None) exEnvironment (\<lambda>_. None) = Inr cfg \<and>
         maxRequestBytes cfg = 65536 \<and> config_ok cfg"
proof -
  let ?r = "loadExternalRouterConfigFrom exURL (\<lambda>_. None) exEnvironment (\<lambda>_. None)"
  have "\<not> isl ?r \<and> maxRequestBytes (projr ?r) = 65536" by code_simp
  then obtain cfg where "?r = Inr cfg" "maxRequestBytes cfg = 65536" by (cases ?r) auto
  then show ?thesis using loaded_config_is_consistent by blast
qed

end
