(* ===== verification/ExternalProtocol.thy ===== *)
theory ExternalProtocol
  imports ExternalConfig Complex_Main
begin

text \<open>
  The wire protocol of the external routing strategy
  (\<^verbatim>\<open>src/pkg/plugins/gateway/algorithms/external/protocol.go\<close>): the request built from the candidate pods,
  and the validation of the answer of a service that is not trusted.

  \<^verbatim>\<open>encoding/json\<close> appears as two layers. Reading bytes into a value is the argument \<open>parseJSON\<close>, \<open>None\<close>
  for bytes that are not exactly one JSON value; nothing is assumed of it. Storing a value into a
  struct is modelled: members are taken in order, a member is stored into the field whose name is the
  same up to case, \<^verbatim>\<open>null\<close> clears a pointer, an object stored into a field that already holds one is
  merged into it, and a value of the wrong type is an error.

  Strings are byte strings. What the cache says of a pod (its running requests and its utilisation
  figures) is an argument; a \<^verbatim>\<open>float64\<close> is not a number, infinite, or a rational.
\<close>

section \<open>JSON\<close>

text \<open>A number is \<open>Some n\<close> when \<^verbatim>\<open>strconv.ParseInt\<close> accepts it.\<close>

datatype json =
    JNull
  | JBool bool
  | JNum "int option"
  | JStr string
  | JArr "json list"
  | JObj "(string \<times> json) list"

text \<open>\<^verbatim>\<open>foldName\<close>: letters without case, the long s and the Kelvin sign as the letters they fold to.\<close>

fun foldName :: "string \<Rightarrow> string" where
  "foldName [] = []"
| "foldName (c # cs) =
     (if inRange (CHR ''A'') (CHR ''Z'') c then char_of (of_char c + 32 :: nat) # foldName cs
      else if c = CHR 0xC5 \<and> take 1 cs = [CHR 0xBF] then CHR ''s'' # foldName (drop 1 cs)
      else if c = CHR 0xE2 \<and> take 2 cs = [CHR 0x84, CHR 0xAA] then CHR ''k'' # foldName (drop 2 cs)
      else c # foldName cs)"

definition matchesField :: "string \<Rightarrow> string \<Rightarrow> bool" where
  "matchesField field key \<longleftrightarrow> foldName key = foldName field"

definition storeString :: "json \<Rightarrow> string option option" where
  "storeString v = (case v of JNull \<Rightarrow> Some None | JStr s \<Rightarrow> Some (Some s) | _ \<Rightarrow> None)"

definition storeInt :: "json \<Rightarrow> int option option" where
  "storeInt v = (case v of JNull \<Rightarrow> Some None | JNum (Some n) \<Rightarrow> Some (Some n) | _ \<Rightarrow> None)"

fun storeMembers :: "(string \<Rightarrow> json \<Rightarrow> 'a \<Rightarrow> 'a option) \<Rightarrow> (string \<times> json) list \<Rightarrow> 'a \<Rightarrow> 'a option" where
  "storeMembers store [] x = Some x"
| "storeMembers store ((k, v) # ms) x =
     (case store k v x of None \<Rightarrow> None | Some x' \<Rightarrow> storeMembers store ms x')"

definition storeStruct ::
  "(string \<Rightarrow> json \<Rightarrow> 'a \<Rightarrow> 'a option) \<Rightarrow> 'a \<Rightarrow> json \<Rightarrow> 'a option \<Rightarrow> 'a option option" where
  "storeStruct store zero v current =
     (case v of
        JNull \<Rightarrow> Some None
      | JObj ms \<Rightarrow> map_option Some (storeMembers store ms (case current of Some x \<Rightarrow> x | None \<Rightarrow> zero))
      | _ \<Rightarrow> None)"

section \<open>Byte strings\<close>

text \<open>\<^verbatim>\<open>utf8.ValidString\<close>\<close>

definition byteIn :: "nat \<Rightarrow> nat \<Rightarrow> char \<Rightarrow> bool" where
  "byteIn lo hi c \<longleftrightarrow> lo \<le> of_char c \<and> of_char c \<le> hi"

definition continuation :: "char \<Rightarrow> bool" where
  "continuation c = byteIn 0x80 0xBF c"

text \<open>The number of continuation bytes after a leading byte, and the range of the first of them.\<close>

definition leadingByte :: "char \<Rightarrow> (nat \<times> nat \<times> nat) option" where
  "leadingByte c =
     (if byteIn 0 0x7F c then Some (0, 0, 0)
      else if byteIn 0xC2 0xDF c then Some (1, 0x80, 0xBF)
      else if c = CHR 0xE0 then Some (2, 0xA0, 0xBF)
      else if c = CHR 0xED then Some (2, 0x80, 0x9F)
      else if byteIn 0xE1 0xEF c then Some (2, 0x80, 0xBF)
      else if c = CHR 0xF0 then Some (3, 0x90, 0xBF)
      else if byteIn 0xF1 0xF3 c then Some (3, 0x80, 0xBF)
      else if c = CHR 0xF4 then Some (3, 0x80, 0x8F)
      else None)"

function validString :: "string \<Rightarrow> bool" where
  "validString [] = True"
| "validString (c # cs) =
     (case leadingByte c of
        None \<Rightarrow> False
      | Some (n, lo, hi) \<Rightarrow>
          length (take n cs) = n \<and> (n = 0 \<or> byteIn lo hi (hd cs)) \<and> list_all continuation (take n cs) \<and>
          validString (drop n cs))"
  by pat_completeness auto
termination
  by (relation "measure length") auto

definition validExternalAttributeValue :: "string \<Rightarrow> bool" where
  "validExternalAttributeValue v \<longleftrightarrow> validString v \<and> length v \<le> 256"

section \<open>The request\<close>

datatype float64 = NaN | Infinite bool | Finite rat

record externalPod =
  epNamespace :: string
  epName :: string
  epIP :: string
  epLabels :: "(string \<times> string) list option"
  epAnnotations :: "(string \<times> string) list"
  epContainerEnv :: "(string \<times> string) list list"

record externalCandidateMetrics =
  RunningRequests :: "int option"
  EngineUtilization :: "float64 option"
  KVCacheUsage :: "float64 option"

record externalCandidate =
  candID :: string
  candPorts :: "int list"
  candAttributes :: "(string \<times> string) list"
  candMetrics :: "externalCandidateMetrics option"

record externalDecisionRequest =
  reqAPIVersion :: string
  reqKind :: string
  reqRequestID :: string
  reqModel :: string
  reqPolicyMode :: string
  reqPolicyContext :: "(string \<times> string) list option"
  reqCandidates :: "externalCandidate list"

record externalCandidateSnapshot =
  esPod :: externalPod
  esPorts :: "int list"

datatype request_error =
    BadRequestID
  | EmptyModel
  | BadCandidateIdentity string
  | DuplicateCandidate string
  | NoRoutablePort string
  | NoCandidates

definition externalAPIVersion :: string where
  "externalAPIVersion = ''routing.aibrix.ai/v1alpha1''"

definition externalPodID :: "externalPod option \<Rightarrow> string" where
  "externalPodID pod = (case pod of None \<Rightarrow> [] | Some p \<Rightarrow> epNamespace p @ ''/'' @ epName p)"

definition normalizeExternalPorts :: "int list \<Rightarrow> int list" where
  "normalizeExternalPorts raw = sort (remdups (filter (\<lambda>port. 1 \<le> port \<and> port \<le> 65535) raw))"

definition containsString :: "string \<Rightarrow> string \<Rightarrow> bool" where
  "containsString s sub \<longleftrightarrow> list_ex (\<lambda>i. take (length sub) (drop i s) = sub) [0..<Suc (length s)]"

text \<open>The annotation of a claim, stored into a struct of a model name and a port.\<close>

definition storeClaimEntry :: "string \<Rightarrow> json \<Rightarrow> string \<times> int \<Rightarrow> (string \<times> int) option" where
  "storeClaimEntry k v entry =
     (if matchesField ''model'' k
      then (case v of JNull \<Rightarrow> Some entry | JStr s \<Rightarrow> Some (s, snd entry) | _ \<Rightarrow> None)
      else if matchesField ''port'' k
      then (case v of JNull \<Rightarrow> Some entry | JNum (Some n) \<Rightarrow> Some (fst entry, n) | _ \<Rightarrow> None)
      else Some entry)"

definition unmarshalClaimEntry :: "(string \<Rightarrow> json option) \<Rightarrow> string \<Rightarrow> (string \<times> int) option" where
  "unmarshalClaimEntry parseJSON value =
     (case parseJSON value of
        Some JNull \<Rightarrow> Some ([], 0)
      | Some (JObj ms) \<Rightarrow> storeMembers storeClaimEntry ms ([], 0)
      | _ \<Rightarrow> None)"

text \<open>The annotations in the order Go ranges over them.\<close>

fun claimPortLoop :: "(string \<Rightarrow> json option) \<Rightarrow> string \<Rightarrow> (string \<times> string) list \<Rightarrow> int \<times> bool" where
  "claimPortLoop parseJSON model [] = (0, False)"
| "claimPortLoop parseJSON model ((key, value) # as) =
     (if take (length ''route.claim.model.aibrix.ai/'') key \<noteq> ''route.claim.model.aibrix.ai/'' \<or>
         \<not> containsString value model
      then claimPortLoop parseJSON model as
      else (case unmarshalClaimEntry parseJSON value of
              Some (m, port) \<Rightarrow> if m = model then (port, True) else claimPortLoop parseJSON model as
            | None \<Rightarrow> claimPortLoop parseJSON model as))"

definition ModelClaimPortForPod :: "(string \<Rightarrow> json option) \<Rightarrow> externalPod \<Rightarrow> string \<Rightarrow> int \<times> bool" where
  "ModelClaimPortForPod parseJSON pod model = claimPortLoop parseJSON model (epAnnotations pod)"

definition getBasePortFromLabels :: "externalPod \<Rightarrow> int option" where
  "getBasePortFromLabels pod =
     (case epLabels pod of
        None \<Rightarrow> None
      | Some ls \<Rightarrow>
          (case map_of ls ''model.aibrix.ai/port'' of
             None \<Rightarrow> None
           | Some s \<Rightarrow>
               if s = [] then None
               else (case parseInt64 s of
                       None \<Rightarrow> None
                     | Some port \<Rightarrow> if port \<le> 0 \<or> port > 65535 then None else Some port)))"

definition getDataParallelSize :: "externalPod \<Rightarrow> int" where
  "getDataParallelSize pod =
     (case List.find (\<lambda>(n, v). n = ''data-parallel-size'' \<and> v \<noteq> []) (concat (epContainerEnv pod)) of
        None \<Rightarrow> 0
      | Some (_, v) \<Rightarrow> (case parseInt64 v of None \<Rightarrow> 0 | Some n \<Rightarrow> if n < 0 then 0 else n))"

definition GetPortsForPod :: "externalPod \<Rightarrow> int list" where
  "GetPortsForPod pod =
     (if epLabels pod = None then []
      else case getBasePortFromLabels pod of
             None \<Rightarrow> []
           | Some base \<Rightarrow>
               (let dp = getDataParallelSize pod
                in if dp \<le> 1 then [base] else map (\<lambda>i. i64 (base + int i)) [0..<nat dp]))"

definition externalPortsForModel :: "(string \<Rightarrow> json option) \<Rightarrow> externalPod \<Rightarrow> string \<Rightarrow> int list" where
  "externalPortsForModel parseJSON pod model =
     (case ModelClaimPortForPod parseJSON pod model of
        (port, True) \<Rightarrow> normalizeExternalPorts [port]
      | _ \<Rightarrow> normalizeExternalPorts (GetPortsForPod pod))"

definition externalCandidateAttributes :: "string list \<Rightarrow> (string \<times> string) list \<Rightarrow> (string \<times> string) list" where
  "externalCandidateAttributes allowlist labels =
     List.map_filter (\<lambda>key. case map_of labels key of
                        Some v \<Rightarrow> if validExternalAttributeValue v then Some (key, v) else None
                      | None \<Rightarrow> None) allowlist"

definition filterExternalAttributes :: "(string \<times> string) list \<Rightarrow> (string \<times> string) list" where
  "filterExternalAttributes input =
     take 32 (filter (\<lambda>(k, v). externalAttributeKeyRE k \<and> validExternalAttributeValue v) (sort_key fst input))"

definition TrustedPolicyAttributes :: "(string \<rightharpoonup> string) \<Rightarrow> string list \<Rightarrow> (string \<times> string) list" where
  "TrustedPolicyAttributes trusted allowlist =
     List.map_filter (\<lambda>key. map_option (\<lambda>v. (key, v)) (trusted key)) allowlist"

text \<open>\<open>reading pod name\<close> is the value the metric cache holds for a pod, if any.\<close>

definition readUtilization ::
  "string list \<Rightarrow> (externalPod \<Rightarrow> string \<Rightarrow> float64 option) \<Rightarrow> externalPod \<Rightarrow> string \<Rightarrow> string \<Rightarrow> float64 option" where
  "readUtilization enabled reading pod configName metricName =
     (if configName \<notin> set enabled then None
      else case reading pod metricName of
             Some (Finite x) \<Rightarrow> if x < 0 \<or> x > 1 then None else Some (Finite x)
           | _ \<Rightarrow> None)"

definition externalMetricsForCandidate ::
  "string list \<Rightarrow> (externalPod \<Rightarrow> string \<Rightarrow> float64 option) \<Rightarrow> (string \<rightharpoonup> int) \<Rightarrow> externalPod \<Rightarrow>
     externalCandidateMetrics option" where
  "externalMetricsForCandidate enabled reading running pod =
     (let r = (if ''runningRequests'' \<in> set enabled
               then (case running (epNamespace pod @ ''/'' @ epName pod) of
                       Some v \<Rightarrow> if v \<ge> 0 then Some v else None
                     | None \<Rightarrow> None)
               else None);
          e = readUtilization enabled reading pod ''engineUtilization'' ''engine_utilization'';
          k = readUtilization enabled reading pod ''kvCacheUsage'' ''kv_cache_usage_perc''
      in if r = None \<and> e = None \<and> k = None then None
         else Some \<lparr>RunningRequests = r, EngineUtilization = e, KVCacheUsage = k\<rparr>)"

fun candidateLoop ::
  "(string \<Rightarrow> json option) \<Rightarrow> externalRouterConfig \<Rightarrow> (externalPod \<Rightarrow> string \<Rightarrow> float64 option) \<Rightarrow> (string \<rightharpoonup> int) \<Rightarrow>
     string \<Rightarrow> externalPod option list \<Rightarrow> externalCandidate list \<Rightarrow> (string \<times> externalCandidateSnapshot) list \<Rightarrow>
     request_error + externalCandidate list \<times> (string \<times> externalCandidateSnapshot) list" where
  "candidateLoop parseJSON cfg reading running model [] cs snaps = Inr (cs, snaps)"
| "candidateLoop parseJSON cfg reading running model (p # ps) cs snaps =
     (let ident = externalPodID p
      in case p of
           None \<Rightarrow> Inl (BadCandidateIdentity ident)
         | Some pod \<Rightarrow>
             if epNamespace pod = [] \<or> epName pod = [] \<or> length ident > 256 \<or> \<not> validString ident
             then Inl (BadCandidateIdentity ident)
             else if ident \<in> fst ` set snaps then Inl (DuplicateCandidate ident)
             else (let ports = externalPortsForModel parseJSON pod model
                   in if ports = [] then Inl (NoRoutablePort ident)
                      else candidateLoop parseJSON cfg reading running model ps
                             (cs @ [\<lparr>candID = ident, candPorts = ports,
                                     candAttributes = externalCandidateAttributes (candidateAttributes cfg)
                                       (case epLabels pod of Some ls \<Rightarrow> ls | None \<Rightarrow> []),
                                     candMetrics = externalMetricsForCandidate (candidateMetrics cfg) reading running pod\<rparr>])
                             (snaps @ [(ident, \<lparr>esPod = pod, esPorts = ports\<rparr>)])))"

definition buildExternalDecisionRequest ::
  "(string \<Rightarrow> json option) \<Rightarrow> externalRouterConfig \<Rightarrow> (externalPod \<Rightarrow> string \<Rightarrow> float64 option) \<Rightarrow> (string \<rightharpoonup> int) \<Rightarrow>
     (string \<rightharpoonup> string) \<Rightarrow> string \<Rightarrow> string \<Rightarrow> externalPod option list \<Rightarrow>
     request_error + externalDecisionRequest \<times> (string \<times> externalCandidateSnapshot) list" where
  "buildExternalDecisionRequest parseJSON cfg reading running trusted requestID model pods =
     (if requestID = [] \<or> length requestID > 256 \<or> \<not> validString requestID then Inl BadRequestID
      else if model = [] then Inl EmptyModel
      else andThen (candidateLoop parseJSON cfg reading
                      (if ''runningRequests'' \<in> set (candidateMetrics cfg) then running else Map.empty)
                      model (sort_key externalPodID pods) [] [])
             (\<lambda>(cs, snaps).
                if cs = [] then Inl NoCandidates
                else (let attrs = filterExternalAttributes (TrustedPolicyAttributes trusted (policyAttributes cfg))
                      in Inr (\<lparr>reqAPIVersion = externalAPIVersion, reqKind = ''ReplicaSelectionRequest'',
                               reqRequestID = requestID, reqModel = model, reqPolicyMode = policyMode cfg,
                               reqPolicyContext = (if attrs = [] then None else Some attrs),
                               reqCandidates = cs\<rparr>, snaps))))"

section \<open>The answer\<close>

record externalTarget =
  tgtID :: "string option"
  tgtPort :: "int option"

record externalResponseMetadata =
  rmRequestID :: "string option"
  rmDecisionID :: "string option"

record externalResponseStatus =
  rsDecision :: "string option"
  rsTarget :: "externalTarget option"
  rsReason :: "string option"

record externalDecisionResponse =
  drAPIVersion :: "string option"
  drKind :: "string option"
  drMetadata :: "externalResponseMetadata option"
  drStatus :: "externalResponseStatus option"

record externalValidatedDecision =
  vdDecision :: string
  vdTargetPod :: "externalPod option"
  vdTargetPort :: int
  vdDecisionID :: string
  vdReason :: string

definition storeTarget :: "string \<Rightarrow> json \<Rightarrow> externalTarget \<Rightarrow> externalTarget option" where
  "storeTarget k v t =
     (if matchesField ''id'' k then map_option (\<lambda>s. t\<lparr>tgtID := s\<rparr>) (storeString v)
      else if matchesField ''port'' k then map_option (\<lambda>n. t\<lparr>tgtPort := n\<rparr>) (storeInt v)
      else Some t)"

definition storeMetadata :: "string \<Rightarrow> json \<Rightarrow> externalResponseMetadata \<Rightarrow> externalResponseMetadata option" where
  "storeMetadata k v m =
     (if matchesField ''requestId'' k then map_option (\<lambda>s. m\<lparr>rmRequestID := s\<rparr>) (storeString v)
      else if matchesField ''decisionId'' k then map_option (\<lambda>s. m\<lparr>rmDecisionID := s\<rparr>) (storeString v)
      else Some m)"

definition storeStatus :: "string \<Rightarrow> json \<Rightarrow> externalResponseStatus \<Rightarrow> externalResponseStatus option" where
  "storeStatus k v st =
     (if matchesField ''decision'' k then map_option (\<lambda>s. st\<lparr>rsDecision := s\<rparr>) (storeString v)
      else if matchesField ''target'' k
      then map_option (\<lambda>t. st\<lparr>rsTarget := t\<rparr>)
             (storeStruct storeTarget \<lparr>tgtID = None, tgtPort = None\<rparr> v (rsTarget st))
      else if matchesField ''reason'' k then map_option (\<lambda>s. st\<lparr>rsReason := s\<rparr>) (storeString v)
      else Some st)"

definition storeResponse :: "string \<Rightarrow> json \<Rightarrow> externalDecisionResponse \<Rightarrow> externalDecisionResponse option" where
  "storeResponse k v r =
     (if matchesField ''apiVersion'' k then map_option (\<lambda>s. r\<lparr>drAPIVersion := s\<rparr>) (storeString v)
      else if matchesField ''kind'' k then map_option (\<lambda>s. r\<lparr>drKind := s\<rparr>) (storeString v)
      else if matchesField ''metadata'' k
      then map_option (\<lambda>m. r\<lparr>drMetadata := m\<rparr>)
             (storeStruct storeMetadata \<lparr>rmRequestID = None, rmDecisionID = None\<rparr> v (drMetadata r))
      else if matchesField ''status'' k
      then map_option (\<lambda>st. r\<lparr>drStatus := st\<rparr>)
             (storeStruct storeStatus \<lparr>rsDecision = None, rsTarget = None, rsReason = None\<rparr> v (drStatus r))
      else Some r)"

definition emptyResponse :: externalDecisionResponse where
  "emptyResponse = \<lparr>drAPIVersion = None, drKind = None, drMetadata = None, drStatus = None\<rparr>"

definition decodeResponse :: "json \<Rightarrow> externalDecisionResponse option" where
  "decodeResponse v =
     (case v of
        JNull \<Rightarrow> Some emptyResponse
      | JObj ms \<Rightarrow> storeMembers storeResponse ms emptyResponse
      | _ \<Rightarrow> None)"

text \<open>\<^verbatim>\<open>rejectDuplicateJSONMembers\<close> on the value its token stream spells.\<close>

function noDuplicateMembers :: "json \<Rightarrow> bool" where
  "noDuplicateMembers (JObj ms) \<longleftrightarrow>
     distinct (map fst ms) \<and> list_all noDuplicateMembers (map snd ms)"
| "noDuplicateMembers (JArr vs) \<longleftrightarrow> list_all noDuplicateMembers vs"
| "noDuplicateMembers JNull = True"
| "noDuplicateMembers (JBool b) = True"
| "noDuplicateMembers (JNum n) = True"
| "noDuplicateMembers (JStr s) = True"
  by pat_completeness auto
termination
proof (relation "measure size")
  fix ms :: "(string \<times> json) list" and z assume "z \<in> set (map snd ms)"
  then show "(z, JObj ms) \<in> measure size"
    by (induction ms) (force simp: less_Suc_eq)+
next
  fix vs :: "json list" and z assume "z \<in> set vs"
  then show "(z, JArr vs) \<in> measure size" by (induction vs) auto
qed auto

text \<open>\<open>checkObject\<close> of \<^verbatim>\<open>rejectExplicitNullExternalFields\<close>: the members are looked up by their exact names.\<close>

definition checkObject :: "json option \<Rightarrow> string list \<Rightarrow> bool" where
  "checkObject raw names =
     (case raw of
        None \<Rightarrow> True
      | Some JNull \<Rightarrow> True
      | Some (JObj ms) \<Rightarrow> list_all (\<lambda>f. map_of (rev ms) f \<noteq> Some JNull) names
      | _ \<Rightarrow> False)"

definition noExplicitNullFields :: "json \<Rightarrow> bool" where
  "noExplicitNullFields v =
     (case v of
        JNull \<Rightarrow> True
      | JObj ms \<Rightarrow>
          checkObject (map_of (rev ms) ''metadata'') [''decisionId''] \<and>
          checkObject (map_of (rev ms) ''status'') [''target'', ''reason''] \<and>
          (case map_of (rev ms) ''status'' of
             Some (JObj st) \<Rightarrow>
               (case map_of (rev st) ''target'' of
                  Some t \<Rightarrow> if t = JNull then True else checkObject (Some t) [''port'']
                | None \<Rightarrow> True)
           | _ \<Rightarrow> True)
      | _ \<Rightarrow> False)"

datatype response_error =
    EmptyResponse
  | NotOneJSONValue
  | DuplicateMember
  | ExplicitNull
  | WrongType
  | BadEnvelope
  | BadDecisionID
  | BadReason
  | MissingTarget
  | TargetOutsideSnapshot
  | TargetPortRequired
  | TargetPortOutsideSnapshot
  | NoDecisionNotAllowed
  | DeniedNotAllowed
  | UnknownDecision string

definition badText :: "string option \<Rightarrow> bool" where
  "badText t = (case t of None \<Rightarrow> False | Some s \<Rightarrow> \<not> validString s \<or> length s > 256)"

definition textOf :: "string option \<Rightarrow> string" where
  "textOf t = (case t of None \<Rightarrow> [] | Some s \<Rightarrow> s)"

definition selectTarget ::
  "(string \<times> externalCandidateSnapshot) list \<Rightarrow> externalTarget option \<Rightarrow> response_error + externalPod \<times> int" where
  "selectTarget snapshots target =
     (case target of
        None \<Rightarrow> Inl MissingTarget
      | Some t \<Rightarrow>
          if textOf (tgtID t) = [] then Inl MissingTarget
          else (case map_of snapshots (textOf (tgtID t)) of
                  None \<Rightarrow> Inl TargetOutsideSnapshot
                | Some snap \<Rightarrow>
                    (case tgtPort t of
                       None \<Rightarrow> (case esPorts snap of [port] \<Rightarrow> Inr (esPod snap, port) | _ \<Rightarrow> Inl TargetPortRequired)
                     | Some port \<Rightarrow> if port \<in> set (esPorts snap) then Inr (esPod snap, port)
                                    else Inl TargetPortOutsideSnapshot)))"

definition checkDecision ::
  "string \<Rightarrow> string \<Rightarrow> (string \<times> externalCandidateSnapshot) list \<Rightarrow> externalDecisionResponse \<Rightarrow>
     response_error + externalValidatedDecision" where
  "checkDecision requestID mode snapshots r =
     (case (drMetadata r, drStatus r) of
        (Some m, Some st) \<Rightarrow>
          (if drAPIVersion r \<noteq> Some externalAPIVersion \<or> drKind r \<noteq> Some ''ReplicaSelectionResponse'' \<or>
              rmRequestID m \<noteq> Some requestID \<or> rsDecision st = None then Inl BadEnvelope
           else if badText (rmDecisionID m) then Inl BadDecisionID
           else if badText (rsReason st) then Inl BadReason
           else
             (let d = \<lparr>vdDecision = textOf (rsDecision st), vdTargetPod = None, vdTargetPort = 0,
                       vdDecisionID = textOf (rmDecisionID m), vdReason = textOf (rsReason st)\<rparr>
              in if vdDecision d = ''Selected''
                 then andThen (selectTarget snapshots (rsTarget st))
                        (\<lambda>(pod, port). Inr (d\<lparr>vdTargetPod := Some pod, vdTargetPort := port\<rparr>))
                 else if vdDecision d = ''NoDecision''
                 then (if mode \<noteq> ''Advisory'' \<or> rsTarget st \<noteq> None then Inl NoDecisionNotAllowed else Inr d)
                 else if vdDecision d = ''Denied''
                 then (if mode \<noteq> ''Authoritative'' \<or> rsTarget st \<noteq> None then Inl DeniedNotAllowed else Inr d)
                 else Inl (UnknownDecision (vdDecision d))))
      | _ \<Rightarrow> Inl BadEnvelope)"

definition validateExternalDecision ::
  "(string \<Rightarrow> json option) \<Rightarrow> string \<Rightarrow> string \<Rightarrow> string \<Rightarrow> (string \<times> externalCandidateSnapshot) list \<Rightarrow>
     response_error + externalValidatedDecision" where
  "validateExternalDecision parseJSON data requestID mode snapshots =
     (if data = [] then Inl EmptyResponse
      else case parseJSON data of
             None \<Rightarrow> Inl NotOneJSONValue
           | Some v \<Rightarrow>
               if \<not> noDuplicateMembers v then Inl DuplicateMember
               else if \<not> noExplicitNullFields v then Inl ExplicitNull
               else case decodeResponse v of
                      None \<Rightarrow> Inl WrongType
                    | Some r \<Rightarrow> checkDecision requestID mode snapshots r)"

section \<open>An example\<close>

definition exTargetPod :: externalPod where
  "exTargetPod = \<lparr>epNamespace = ''ns'', epName = ''a'', epIP = ''10.0.0.1'',
     epLabels = Some [(''model.aibrix.ai/port'', ''8000''), (''zone'', ''z1''), (''secret'', ''x'')],
     epAnnotations = [], epContainerEnv = [[(''data-parallel-size'', ''2'')]]\<rparr>"

definition exRouterConfig :: externalRouterConfig where
  "exRouterConfig = \<lparr>endpoint = None, policyMode = ''Advisory'', failureMode = ''FailOpen'', fallback = ''random'',
     timeout = 1, maxInflight = 1, maxRequestBytes = 1000, maxResponseBytes = 1000, failureThreshold = 1,
     openDuration = 1, bearerToken = [], candidateAttributes = [''zone''], candidateMetrics = [],
     policyAttributes = [''tier'']\<rparr>"

definition exAnswer :: json where
  "exAnswer = JObj [(''apiVersion'', JStr ''routing.aibrix.ai/v1alpha1''), (''kind'', JStr ''ReplicaSelectionResponse''),
     (''metadata'', JObj [(''requestId'', JStr ''r1'')]),
     (''status'', JObj [(''decision'', JStr ''Selected''),
        (''target'', JObj [(''id'', JStr ''ns/a''), (''port'', JNum (Some 8001))])])]"

text \<open>Two members whose names differ only in case.\<close>

definition exCaseVariant :: json where
  "exCaseVariant = JObj [(''apiVersion'', JStr ''routing.aibrix.ai/v1alpha1''), (''kind'', JStr ''ReplicaSelectionResponse''),
     (''metadata'', JObj [(''requestId'', JStr ''r1'')]),
     (''status'', JObj [(''decision'', JStr ''Selected''), (''target'', JObj [(''id'', JStr ''ns/a''), (''port'', JNum (Some 8000))])]),
     (''Status'', JObj [(''Target'', JObj [(''port'', JNum (Some 8001))])])]"

definition exBuild :: "request_error + externalDecisionRequest \<times> (string \<times> externalCandidateSnapshot) list" where
  "exBuild = buildExternalDecisionRequest (\<lambda>_. Some exAnswer) exRouterConfig (\<lambda>_ _. None) Map.empty
     (map_of [(''tier'', ''gold''), (''user'', ''u'')]) ''r1'' ''m'' [Some exTargetPod]"

section \<open>What may leave the gateway\<close>

definition metricsAllowed :: "string list \<Rightarrow> externalCandidateMetrics option \<Rightarrow> bool" where
  "metricsAllowed enabled m =
     (case m of
        None \<Rightarrow> True
      | Some x \<Rightarrow> (RunningRequests x \<noteq> None \<longrightarrow> ''runningRequests'' \<in> set enabled) \<and>
                  (EngineUtilization x \<noteq> None \<longrightarrow> ''engineUtilization'' \<in> set enabled) \<and>
                  (KVCacheUsage x \<noteq> None \<longrightarrow> ''kvCacheUsage'' \<in> set enabled))"

definition candidateAllowed :: "externalRouterConfig \<Rightarrow> externalCandidate \<Rightarrow> bool" where
  "candidateAllowed cfg c \<longleftrightarrow>
     fst ` set (candAttributes c) \<subseteq> set (candidateAttributes cfg) \<and>
     metricsAllowed (candidateMetrics cfg) (candMetrics c)"

section \<open>Lemmas\<close>

definition snapshotFor :: "(string \<Rightarrow> json option) \<Rightarrow> string \<Rightarrow> externalPod option list \<Rightarrow> externalCandidate list \<Rightarrow>
    string \<times> externalCandidateSnapshot \<Rightarrow> bool" where
  "snapshotFor parseJSON model pods cs s \<longleftrightarrow>
     Some (esPod (snd s)) \<in> set pods \<and> fst s = externalPodID (Some (esPod (snd s))) \<and>
     esPorts (snd s) = externalPortsForModel parseJSON (esPod (snd s)) model \<and>
     (\<exists>c \<in> set cs. candID c = fst s \<and> candPorts c = esPorts (snd s))"

lemma normalized_ports: "port \<in> set (normalizeExternalPorts raw) \<Longrightarrow> 1 \<le> port \<and> port \<le> 65535"
  by (simp add: normalizeExternalPorts_def)

lemma model_ports: "port \<in> set (externalPortsForModel parseJSON pod model) \<Longrightarrow> 1 \<le> port \<and> port \<le> 65535"
  by (auto simp: externalPortsForModel_def normalized_ports split: prod.splits bool.splits)

lemma candidateLoop_step:
  assumes "candidateLoop parseJSON cfg reading running model (p # ps) cs snaps = Inr (cs', snaps')"
  obtains pod c where "p = Some pod" and "candID c = externalPodID p" and "candID c \<notin> fst ` set snaps"
    and "candPorts c = externalPortsForModel parseJSON pod model"
    and "candAttributes c = externalCandidateAttributes (candidateAttributes cfg)
           (case epLabels pod of Some ls \<Rightarrow> ls | None \<Rightarrow> [])"
    and "candMetrics c = externalMetricsForCandidate (candidateMetrics cfg) reading running pod"
    and "candidateLoop parseJSON cfg reading running model ps (cs @ [c])
           (snaps @ [(externalPodID p, \<lparr>esPod = pod, esPorts = candPorts c\<rparr>)]) = Inr (cs', snaps')"
proof (cases p)
  case None
  then show ?thesis using assms by simp
next
  case (Some pod)
  define c where "c = \<lparr>candID = externalPodID p, candPorts = externalPortsForModel parseJSON pod model,
          candAttributes = externalCandidateAttributes (candidateAttributes cfg)
            (case epLabels pod of Some ls \<Rightarrow> ls | None \<Rightarrow> []),
          candMetrics = externalMetricsForCandidate (candidateMetrics cfg) reading running pod\<rparr>"
  have f: "candID c = externalPodID p" "candPorts c = externalPortsForModel parseJSON pod model"
    "candAttributes c = externalCandidateAttributes (candidateAttributes cfg)
       (case epLabels pod of Some ls \<Rightarrow> ls | None \<Rightarrow> [])"
    "candMetrics c = externalMetricsForCandidate (candidateMetrics cfg) reading running pod"
    by (simp_all add: c_def)
  have "externalPodID p \<notin> fst ` set snaps \<and>
    candidateLoop parseJSON cfg reading running model ps (cs @ [c])
      (snaps @ [(externalPodID p, \<lparr>esPod = pod, esPorts = candPorts c\<rparr>)]) = Inr (cs', snaps')"
    using assms unfolding Some f c_def [unfolded Some]
    by (simp only: candidateLoop.simps Let_def option.case sum.distinct externalCandidate.simps simp_thms split: if_split_asm)
  then show ?thesis using that [OF Some f(1) _ f(2-4)] f(1) by simp
qed

lemma candidateLoop_snapshots:
  assumes "candidateLoop parseJSON cfg reading running model ps cs snaps = Inr (cs', snaps')"
    and "\<forall>s \<in> set snaps. snapshotFor parseJSON model pods cs s" and "set ps \<subseteq> set pods"
  shows "\<forall>s \<in> set snaps'. snapshotFor parseJSON model pods cs' s"
  using assms
proof (induction ps arbitrary: cs snaps)
  case (Cons p ps)
  from Cons.prems(1) obtain pod c where p: "p = Some pod" "candID c = externalPodID p"
    and c: "candPorts c = externalPortsForModel parseJSON pod model"
    and rest: "candidateLoop parseJSON cfg reading running model ps (cs @ [c])
           (snaps @ [(externalPodID p, \<lparr>esPod = pod, esPorts = candPorts c\<rparr>)]) = Inr (cs', snaps')"
    by (rule candidateLoop_step)
  show ?case
    by (rule Cons.IH [OF rest]) (use Cons.prems(2,3) p c in \<open>auto simp: snapshotFor_def\<close>)
qed simp

lemma metrics_allowed: "metricsAllowed enabled (externalMetricsForCandidate enabled reading running pod)"
proof -
  have g: "metricsAllowed enabled (if r = None \<and> e = None \<and> k = None then None
      else Some \<lparr>RunningRequests = r, EngineUtilization = e, KVCacheUsage = k\<rparr>)"
    if "r \<noteq> None \<longrightarrow> ''runningRequests'' \<in> set enabled" "e \<noteq> None \<longrightarrow> ''engineUtilization'' \<in> set enabled"
      "k \<noteq> None \<longrightarrow> ''kvCacheUsage'' \<in> set enabled" for r e k
    using that by (simp add: metricsAllowed_def)
  show ?thesis unfolding externalMetricsForCandidate_def Let_def
    by (rule g) (simp_all add: readUtilization_def)
qed

lemma attributes_allowed: "fst ` set (externalCandidateAttributes allowlist labels) \<subseteq> set allowlist"
  unfolding externalCandidateAttributes_def
  by (induction allowlist) (auto simp: map_filter_simps split: option.splits if_splits)

lemma candidateLoop_candidates:
  assumes "candidateLoop parseJSON cfg reading running model ps cs snaps = Inr (cs', snaps')"
    and "fst ` set snaps = candID ` set cs" and "distinct (map candID cs)"
  shows "\<exists>new. cs' = cs @ new \<and> map candID new = map externalPodID ps \<and> distinct (map candID cs') \<and>
     (\<forall>c \<in> set new. candidateAllowed cfg c)"
  using assms
proof (induction ps arbitrary: cs snaps)
  case (Cons p ps)
  from Cons.prems(1) obtain pod c where p: "p = Some pod" "candID c = externalPodID p" "candID c \<notin> fst ` set snaps"
    and a: "candAttributes c = externalCandidateAttributes (candidateAttributes cfg)
           (case epLabels pod of Some ls \<Rightarrow> ls | None \<Rightarrow> [])"
    and m: "candMetrics c = externalMetricsForCandidate (candidateMetrics cfg) reading running pod"
    and rest: "candidateLoop parseJSON cfg reading running model ps (cs @ [c])
           (snaps @ [(externalPodID p, \<lparr>esPod = pod, esPorts = candPorts c\<rparr>)]) = Inr (cs', snaps')"
    by (rule candidateLoop_step)
  have at: "fst ` set (candAttributes c) \<subseteq> set (candidateAttributes cfg)"
    unfolding a by (rule attributes_allowed)
  have me: "metricsAllowed (candidateMetrics cfg) (candMetrics c)"
    unfolding m by (rule metrics_allowed)
  have keys: "fst ` set (snaps @ [(externalPodID p, \<lparr>esPod = pod, esPorts = candPorts c\<rparr>)]) = candID ` set (cs @ [c])"
    using Cons.prems(2) p(2) by simp
  have dist: "distinct (map candID (cs @ [c]))" using Cons.prems(2,3) p(3) by simp
  obtain new where "cs' = (cs @ [c]) @ new" "map candID new = map externalPodID ps" "distinct (map candID cs')"
    "\<forall>c \<in> set new. candidateAllowed cfg c"
    using Cons.IH [OF rest keys dist] by blast
  then show ?case using at me p(2) by (intro exI [of _ "c # new"]) (simp add: candidateAllowed_def)
qed simp

lemma built_request:
  assumes "buildExternalDecisionRequest parseJSON cfg reading running trusted requestID model pods = Inr (req, snaps)"
  obtains running' where
    "candidateLoop parseJSON cfg reading running' model (sort_key externalPodID pods) [] [] = Inr (reqCandidates req, snaps)"
    and "reqPolicyContext req = (let a = filterExternalAttributes (TrustedPolicyAttributes trusted (policyAttributes cfg))
           in if a = [] then None else Some a)"
    and "reqRequestID req = requestID"
  using assms by (auto simp: buildExternalDecisionRequest_def Let_def split: if_split_asm)

lemma selectTarget_snapshot:
  "selectTarget snaps t = Inr (pod, port) \<Longrightarrow> \<exists>i s. (i, s) \<in> set snaps \<and> esPod s = pod \<and> port \<in> set (esPorts s)"
  by (auto simp: selectTarget_def dest!: map_of_SomeD split: option.splits if_splits list.splits)
    (metis list.set_intros(1))

lemma validated_decision:
  assumes "validateExternalDecision parseJSON data requestID mode snaps = Inr d"
  shows "vdDecision d = ''Selected'' \<and>
           (\<exists>i s. (i, s) \<in> set snaps \<and> vdTargetPod d = Some (esPod s) \<and> vdTargetPort d \<in> set (esPorts s)) \<or>
         vdDecision d = ''NoDecision'' \<and> mode = ''Advisory'' \<and> vdTargetPod d = None \<or>
         vdDecision d = ''Denied'' \<and> mode = ''Authoritative'' \<and> vdTargetPod d = None"
proof -
  obtain r where "checkDecision requestID mode snaps r = Inr d"
    using assms by (auto simp: validateExternalDecision_def split: if_split_asm option.splits)
  then show ?thesis
    by (auto simp: checkDecision_def Let_def dest!: selectTarget_snapshot split: option.splits if_split_asm)
qed

text \<open>The check for duplicate members compares names exactly, the decoder without regard to case: of two
  members that differ in case only, both are decoded, and the later one overrides what the earlier one
  said. Here a target on port 8000 becomes one on port 8001.\<close>

lemma case_variant_member_overrides:
  "noDuplicateMembers exCaseVariant \<and>
   (case validateExternalDecision (\<lambda>_. Some exCaseVariant) ''x'' ''r1'' ''Advisory''
           [(''ns/a'', \<lparr>esPod = exTargetPod, esPorts = [8000, 8001]\<rparr>)] of
      Inr d \<Rightarrow> vdTargetPort d = 8001
    | Inl _ \<Rightarrow> False)"
  by code_simp

section \<open>Properties\<close>

text \<open>
  C10. The service cannot invent a target: whatever bytes it answers, a decision that passes validation
  either selects one of the pods the request was built from, on a port that was offered for that pod in
  that very request, or selects nothing. Not deciding passes only where the policy is advisory, denying
  only where it is authoritative.
\<close>

theorem external_target_is_a_candidate:
  assumes "buildExternalDecisionRequest parseJSON cfg reading running trusted requestID model pods = Inr (req, snaps)"
    and "validateExternalDecision parseJSON data (reqRequestID req) mode snaps = Inr d"
  shows "(\<exists>pod c. vdDecision d = ''Selected'' \<and> vdTargetPod d = Some pod \<and> Some pod \<in> set pods \<and>
            c \<in> set (reqCandidates req) \<and> candID c = externalPodID (Some pod) \<and>
            vdTargetPort d \<in> set (candPorts c) \<and> 1 \<le> vdTargetPort d \<and> vdTargetPort d \<le> 65535) \<or>
         vdDecision d = ''NoDecision'' \<and> mode = ''Advisory'' \<and> vdTargetPod d = None \<or>
         vdDecision d = ''Denied'' \<and> mode = ''Authoritative'' \<and> vdTargetPod d = None"
proof -
  obtain running' where l: "candidateLoop parseJSON cfg reading running' model (sort_key externalPodID pods) [] []
      = Inr (reqCandidates req, snaps)" using assms(1) by (rule built_request)
  have s: "\<forall>s \<in> set snaps. snapshotFor parseJSON model pods (reqCandidates req) s"
    using candidateLoop_snapshots [OF l] by simp
  show ?thesis using validated_decision [OF assms(2)]
  proof (elim disjE)
    assume "vdDecision d = ''Selected'' \<and>
      (\<exists>i s. (i, s) \<in> set snaps \<and> vdTargetPod d = Some (esPod s) \<and> vdTargetPort d \<in> set (esPorts s))"
    then obtain i sn where sel: "vdDecision d = ''Selected''" "(i, sn) \<in> set snaps" "vdTargetPod d = Some (esPod sn)"
      "vdTargetPort d \<in> set (esPorts sn)" by blast
    then have f: "snapshotFor parseJSON model pods (reqCandidates req) (i, sn)" using s by blast
    then have "1 \<le> vdTargetPort d \<and> vdTargetPort d \<le> 65535"
      using sel(4) model_ports by (simp add: snapshotFor_def)
    then show ?thesis using f sel by (auto simp: snapshotFor_def)
  qed auto
qed

theorem external_target_is_a_candidate_witness:
  "\<exists>req snaps d c. exBuild = Inr (req, snaps) \<and>
     validateExternalDecision (\<lambda>_. Some exAnswer) ''x'' (reqRequestID req) ''Advisory'' snaps = Inr d \<and>
     vdTargetPod d = Some exTargetPod \<and> c \<in> set (reqCandidates req) \<and> vdTargetPort d \<in> set (candPorts c)"
proof -
  let ?v = "\<lambda>req snaps. validateExternalDecision (\<lambda>_. Some exAnswer) ''x'' (reqRequestID req) ''Advisory'' snaps"
  let ?d = "projr (?v (fst (projr exBuild)) (snd (projr exBuild)))"
  have h: "\<not> isl exBuild" "\<not> isl (?v (fst (projr exBuild)) (snd (projr exBuild)))"
    "vdTargetPod ?d = Some exTargetPod \<and> vdDecision ?d = ''Selected''" by code_simp+
  obtain req snaps where b: "exBuild = Inr (req, snaps)" by (metis h(1) sum.collapse(2) surj_pair)
  then obtain d where v: "?v req snaps = Inr d" and d: "vdTargetPod d = Some exTargetPod" "vdDecision d = ''Selected''"
    using h(2,3) by (metis fst_conv snd_conv sum.collapse(2) sum.sel(2))
  then show ?thesis
    using external_target_is_a_candidate [OF b [unfolded exBuild_def] v] b d by auto
qed

text \<open>
  C32. A request tells the service only what was allowed: the candidates are listed once each, in the
  order of their identities, with the labels and metrics on the allowlists and no others, and the policy
  context carries at most 32 well-formed attributes, each of them allowlisted and set by a trusted
  producer.
\<close>

theorem external_request_is_redacted:
  assumes "buildExternalDecisionRequest parseJSON cfg reading running trusted requestID model pods = Inr (req, snaps)"
  shows "map candID (reqCandidates req) = sort (map externalPodID pods) \<and> distinct (map externalPodID pods) \<and>
         (\<forall>c \<in> set (reqCandidates req). candidateAllowed cfg c) \<and>
         (\<forall>a. reqPolicyContext req = Some a \<longrightarrow> length a \<le> 32 \<and>
            (\<forall>(k, v) \<in> set a. k \<in> set (policyAttributes cfg) \<and> trusted k = Some v \<and>
               externalAttributeKeyRE k \<and> validExternalAttributeValue v))"
proof -
  obtain running' where l: "candidateLoop parseJSON cfg reading running' model (sort_key externalPodID pods) [] []
      = Inr (reqCandidates req, snaps)"
    and p: "reqPolicyContext req = (let a = filterExternalAttributes (TrustedPolicyAttributes trusted (policyAttributes cfg))
           in if a = [] then None else Some a)" using assms by (rule built_request)
  have c: "map candID (reqCandidates req) = map externalPodID (sort_key externalPodID pods)"
    "distinct (map candID (reqCandidates req))" "\<forall>c \<in> set (reqCandidates req). candidateAllowed cfg c"
    using candidateLoop_candidates [OF l] by auto
  have srt: "map externalPodID (sort_key externalPodID pods) = sort (map externalPodID pods)"
    by (intro properties_for_sort [symmetric]) simp_all
  have "(\<forall>(k, v) \<in> set (filterExternalAttributes (TrustedPolicyAttributes trusted (policyAttributes cfg))).
          k \<in> set (policyAttributes cfg) \<and> trusted k = Some v \<and> externalAttributeKeyRE k \<and> validExternalAttributeValue v)"
    by (auto simp: filterExternalAttributes_def TrustedPolicyAttributes_def List.map_filter_def dest!: in_set_takeD)
  moreover have "length (filterExternalAttributes x) \<le> 32" for x by (simp add: filterExternalAttributes_def)
  moreover have "distinct (map externalPodID pods)" using c(1,2) srt by (metis distinct_sort)
  ultimately show ?thesis using c srt p by (auto simp: Let_def split: if_split_asm)
qed

theorem external_request_is_redacted_witness:
  "\<exists>req snaps. exBuild = Inr (req, snaps) \<and> map candAttributes (reqCandidates req) = [[(''zone'', ''z1'')]] \<and>
     reqPolicyContext req = Some [(''tier'', ''gold'')] \<and>
     (\<forall>c \<in> set (reqCandidates req). candidateAllowed exRouterConfig c)"
proof -
  let ?r = "fst (projr exBuild)"
  have h: "\<not> isl exBuild" "map candAttributes (reqCandidates ?r) = [[(''zone'', ''z1'')]] \<and>
    reqPolicyContext ?r = Some [(''tier'', ''gold'')]" by code_simp+
  obtain req snaps where b: "exBuild = Inr (req, snaps)" by (metis h(1) sum.collapse(2) surj_pair)
  moreover have "map candAttributes (reqCandidates req) = [[(''zone'', ''z1'')]]"
    "reqPolicyContext req = Some [(''tier'', ''gold'')]" using h(2) by (simp_all add: b)
  ultimately show ?thesis using external_request_is_redacted [OF b [unfolded exBuild_def]] by auto
qed

end
