(* ===== verification/Circuit.thy ===== *)
theory Circuit
  imports Aibrix_Prelude "HOL-Library.Word"
begin

text \<open>
  The circuit breaker and the bulkhead in front of an external routing service
  (\<^verbatim>\<open>src/pkg/plugins/gateway/algorithms/external/resilience.go\<close>).

  A request asks the breaker for a token before it calls the service and settles the token
  afterwards as a success, a failure or a cancellation. Between the two it holds no lock, so other
  requests come and go: a token may be settled after the breaker has opened, closed and opened again.
  The generation in a token tells such a late settlement from a current one. The generation is a
  64-bit counter that wraps.

  The states are strings, as in the code; \<^verbatim>\<open>time.Now\<close> is the argument \<open>now\<close>, and every method runs under
  the breaker's lock. A bulkhead is the number of permits taken out of its channel.

  \<open>circuit_breaker\<close> is what a client of a breaker relies on, whatever its requests do in between.
\<close>

section \<open>Bulkhead\<close>

record externalBulkhead =
  bhLimit :: int
  bhTaken :: int

definition newExternalBulkhead :: "int \<Rightarrow> externalBulkhead" where
  "newExternalBulkhead limit = \<lparr>bhLimit = limit, bhTaken = 0\<rparr>"

definition bulkheadAcquire :: "externalBulkhead \<Rightarrow> bool \<times> externalBulkhead" where
  "bulkheadAcquire b =
     (if bhTaken b < bhLimit b then (True, b\<lparr>bhTaken := bhTaken b + 1\<rparr>) else (False, b))"

text \<open>A receive from an empty channel blocks for good: the value \<open>None\<close>.\<close>

definition bulkheadRelease :: "externalBulkhead \<Rightarrow> externalBulkhead option" where
  "bulkheadRelease b = (if 0 < bhTaken b then Some (b\<lparr>bhTaken := bhTaken b - 1\<rparr>) else None)"

section \<open>Breaker\<close>

datatype circuit_error = errExternalCircuitOpen

record externalCircuitToken =
  tokHalfOpen :: bool
  tokGeneration :: "64 word"

record externalCircuit =
  cbThreshold :: int
  cbOpenDuration :: int
  cbState :: string
  cbFailures :: int
  cbOpenedAt :: int
  cbProbing :: bool
  cbGeneration :: "64 word"

definition newExternalCircuit :: "int \<Rightarrow> int \<Rightarrow> externalCircuit" where
  "newExternalCircuit threshold openDuration =
     \<lparr>cbThreshold = threshold, cbOpenDuration = openDuration, cbState = ''closed'', cbFailures = 0,
      cbOpenedAt = 0, cbProbing = False, cbGeneration = 0\<rparr>"

definition circuitAcquire ::
  "int \<Rightarrow> externalCircuit \<Rightarrow> (circuit_error + externalCircuitToken) \<times> externalCircuit" where
  "circuitAcquire now c =
     (if cbState c = ''closed''
      then (Inr \<lparr>tokHalfOpen = False, tokGeneration = cbGeneration c\<rparr>, c)
      else if cbState c = ''open''
      then (if now - cbOpenedAt c < cbOpenDuration c \<or> cbProbing c then (Inl errExternalCircuitOpen, c)
            else (Inr \<lparr>tokHalfOpen = True, tokGeneration = cbGeneration c\<rparr>,
                  c\<lparr>cbState := ''half_open'', cbProbing := True\<rparr>))
      else if cbState c = ''half_open''
      then (if cbProbing c then (Inl errExternalCircuitOpen, c)
            else (Inr \<lparr>tokHalfOpen = True, tokGeneration = cbGeneration c\<rparr>, c\<lparr>cbProbing := True\<rparr>))
      else (Inl errExternalCircuitOpen, c))"

definition openLocked :: "int \<Rightarrow> externalCircuit \<Rightarrow> externalCircuit" where
  "openLocked now c =
     c\<lparr>cbState := ''open'', cbOpenedAt := now, cbProbing := False, cbGeneration := cbGeneration c + 1\<rparr>"

definition circuitSuccess :: "externalCircuitToken \<Rightarrow> externalCircuit \<Rightarrow> externalCircuit" where
  "circuitSuccess token c =
     (if tokGeneration token \<noteq> cbGeneration c then c
      else if tokHalfOpen token
      then (if cbState c \<noteq> ''half_open'' \<or> \<not> cbProbing c then c
            else c\<lparr>cbState := ''closed'', cbFailures := 0, cbProbing := False\<rparr>)
      else if cbState c = ''closed'' then c\<lparr>cbFailures := 0\<rparr> else c)"

definition circuitFailure :: "int \<Rightarrow> externalCircuitToken \<Rightarrow> externalCircuit \<Rightarrow> externalCircuit" where
  "circuitFailure now token c =
     (if tokGeneration token \<noteq> cbGeneration c then c
      else if tokHalfOpen token
      then (if cbState c \<noteq> ''half_open'' \<or> \<not> cbProbing c then c else openLocked now c)
      else if cbState c \<noteq> ''closed'' then c
      else (let c1 = c\<lparr>cbFailures := i64 (cbFailures c + 1)\<rparr>
            in if cbFailures c1 \<ge> cbThreshold c1 then openLocked now c1 else c1))"

definition circuitCancel :: "int \<Rightarrow> externalCircuitToken \<Rightarrow> externalCircuit \<Rightarrow> externalCircuit" where
  "circuitCancel now token c =
     (if \<not> tokHalfOpen token then c
      else if tokGeneration token \<noteq> cbGeneration c \<or> cbState c \<noteq> ''half_open'' \<or> \<not> cbProbing c then c
      else openLocked now c)"

definition currentState :: "externalCircuit \<Rightarrow> string" where
  "currentState c = cbState c"

section \<open>What the breaker sees\<close>

datatype settlement = Success | Failure | Cancelled

definition settle :: "settlement \<Rightarrow> int \<Rightarrow> externalCircuitToken \<Rightarrow> externalCircuit \<Rightarrow> externalCircuit" where
  "settle s now token c =
     (case s of Success \<Rightarrow> circuitSuccess token c
      | Failure \<Rightarrow> circuitFailure now token c
      | Cancelled \<Rightarrow> circuitCancel now token c)"

datatype circuitEvent = AskToken | Settle settlement externalCircuitToken

text \<open>The answers a sequence of calls gets: whether each request for a token was admitted.\<close>

fun circuitEvents :: "(int \<times> circuitEvent) list \<Rightarrow> externalCircuit \<Rightarrow> bool list \<times> externalCircuit" where
  "circuitEvents [] c = ([], c)"
| "circuitEvents ((now, AskToken) # es) c =
     (let (r, c') = circuitAcquire now c; (bs, c'') = circuitEvents es c' in ((\<not> isl r) # bs, c''))"
| "circuitEvents ((now, Settle s token) # es) c = circuitEvents es (settle s now token c)"

text \<open>\<open>circuit_inv k c fl\<close>: with the tokens \<open>fl\<close> not settled yet, and at least \<open>k\<close> openings before the
  generation wraps, the breaker is half open exactly while one probe of its own generation is out.\<close>

definition probes :: "externalCircuit \<Rightarrow> externalCircuitToken list \<Rightarrow> externalCircuitToken list" where
  "probes c fl = filter (\<lambda>t. tokHalfOpen t \<and> tokGeneration t = cbGeneration c) fl"

definition circuit_inv :: "nat \<Rightarrow> externalCircuit \<Rightarrow> externalCircuitToken list \<Rightarrow> bool" where
  "circuit_inv k c fl \<longleftrightarrow>
     unat (cbGeneration c) + k < 2 ^ 64 \<and>
     (\<forall>t \<in> set fl. unat (tokGeneration t) \<le> unat (cbGeneration c)) \<and>
     cbState c \<in> {''closed'', ''open'', ''half_open''} \<and>
     cbProbing c = (cbState c = ''half_open'') \<and>
     length (probes c fl) = (if cbState c = ''half_open'' then 1 else 0)"

definition cooledDown :: "int \<Rightarrow> externalCircuit \<Rightarrow> bool" where
  "cooledDown now c \<longleftrightarrow> cbOpenedAt c + cbOpenDuration c \<le> now"

section \<open>The contract of a breaker\<close>

text \<open>A client that settles every token it was given, in any order and however late. \<open>client_run k c fl\<close>
  has settled \<open>k\<close> tokens and still holds \<open>fl\<close>.\<close>

locale circuit_breaker =
  fixes acquire :: "int \<Rightarrow> 'c \<Rightarrow> ('e + 't) \<times> 'c"
    and done_with :: "'o \<Rightarrow> int \<Rightarrow> 't \<Rightarrow> 'c \<Rightarrow> 'c"
    and inv :: "nat \<Rightarrow> 'c \<Rightarrow> 't list \<Rightarrow> bool"
    and cooled :: "int \<Rightarrow> 'c \<Rightarrow> bool"
  assumes admitted: "inv k c fl \<Longrightarrow> acquire now c = (Inr t, c') \<Longrightarrow> inv k c' (t # fl)"
    and rejected: "acquire now c = (Inl e, c') \<Longrightarrow> c' = c"
    and settled: "inv (Suc k) c fl \<Longrightarrow> t \<in> set fl \<Longrightarrow> inv k (done_with s now t c) (remove1 t fl)"
    and idle: "inv k c [] \<Longrightarrow> cooled now c \<Longrightarrow> \<not> isl (fst (acquire now c))"
begin

lemma recovers:
  assumes "inv (length fl + k) c fl" and "mset (map fst ss) = mset fl"
    and "cooled now (fold (\<lambda>(t, s, at) c. done_with s at t c) ss c)"
  shows "\<not> isl (fst (acquire now (fold (\<lambda>(t, s, at) c. done_with s at t c) ss c)))"
  using assms
proof (induction ss arbitrary: c fl)
  case Nil
  then show ?case using idle by simp
next
  case (Cons x ss)
  obtain t s at where x: "x = (t, s, at)" by (metis surj_pair)
  have t: "t \<in> set fl" using Cons.prems(2) x by (metis fst_conv list.set_intros(1) list.simps(9) set_mset_mset)
  then have "length fl = Suc (length (remove1 t fl))" by (simp add: length_remove1) (metis length_pos_if_in_set Suc_pred)
  then have "inv (Suc (length (remove1 t fl) + k)) c fl" using Cons.prems(1) by simp
  then have "inv (length (remove1 t fl) + k) (done_with s at t c) (remove1 t fl)" using t by (rule settled)
  moreover have "mset (map fst ss) = mset (remove1 t fl)"
    using Cons.prems(2) x by (metis add_mset_remove_trivial fst_conv list.simps(9) mset.simps(2) mset_remove1)
  ultimately show ?case using Cons.IH Cons.prems(3) x by simp
qed

end

section \<open>The breaker of the code keeps it\<close>

lemma length_filter_remove1:
  "t \<in> set fl \<Longrightarrow> length (filter P (remove1 t fl)) = length (filter P fl) - (if P t then 1 else 0)"
proof (induction fl)
  case (Cons a fl)
  then show ?case using length_pos_if_in_set [of t "filter P fl"] by (auto simp: Suc_diff_le)
qed simp

lemma circuit_inv_perm: "mset fl = mset fl' \<Longrightarrow> circuit_inv k c fl \<Longrightarrow> circuit_inv k c fl'"
proof -
  assume eq: "mset fl = mset fl'" and inv: "circuit_inv k c fl"
  have "set fl' = set fl" using mset_eq_setD [OF eq] by simp
  moreover have "length (probes c fl') = length (probes c fl)"
    unfolding probes_def by (simp only: size_mset [symmetric] mset_filter eq)
  ultimately show ?thesis using inv by (simp add: circuit_inv_def)
qed

lemma opened_inv:
  assumes "circuit_inv (Suc k) c fl" and "set fl' \<subseteq> set fl" and "cbGeneration c' = cbGeneration c"
  shows "circuit_inv k (openLocked now c') fl'"
proof -
  let ?g = "cbGeneration c"
  have lt: "unat ?g + Suc k < 2 ^ 64" and le: "\<forall>t \<in> set fl. unat (tokGeneration t) \<le> unat ?g"
    using assms(1) by (auto simp: circuit_inv_def)
  have up: "unat (?g + 1) = unat ?g + 1" using unat_add_lem [of ?g 1] lt by simp
  then have "\<forall>t \<in> set fl. tokGeneration t \<noteq> ?g + 1" using le by (metis Suc_eq_plus1 not_less_eq_eq order_refl)
  moreover have "\<forall>t \<in> set fl'. unat (tokGeneration t) \<le> unat (?g + 1)"
    unfolding up using le assms(2) by (meson le_SucI subsetD trans_le_add1)
  ultimately show ?thesis using assms(2,3) lt up
    by (auto simp: circuit_inv_def openLocked_def probes_def filter_empty_conv)
qed

lemma circuit_settled:
  assumes inv: "circuit_inv (Suc k) c fl" and t: "t \<in> set fl"
  shows "circuit_inv k (settle s now t c) (remove1 t fl)"
proof -
  let ?P = "\<lambda>u. tokHalfOpen u \<and> tokGeneration u = cbGeneration c"
  have sub: "set (remove1 t fl) \<subseteq> set fl" by (rule set_remove1_subset)
  have len: "length (probes c (remove1 t fl)) = length (probes c fl) - (if ?P t then 1 else 0)"
    using length_filter_remove1 [OF t] by (simp add: probes_def)
  show ?thesis
  proof (cases "?P t")
    case True
    then have "t \<in> set (probes c fl)" using t by (simp add: probes_def)
    then have "length (probes c fl) \<noteq> 0" by auto
    then have h: "cbState c = ''half_open''" "cbProbing c" "length (probes c fl) = 1"
      using inv by (auto simp: circuit_inv_def split: if_splits)
    have "circuit_inv k (circuitSuccess t c) (remove1 t fl)"
      using inv h True len sub by (auto simp: circuit_inv_def circuitSuccess_def probes_def)
    moreover have "settle s now t c = openLocked now c" if "s \<noteq> Success"
      using that h True by (cases s) (simp_all add: settle_def circuitFailure_def circuitCancel_def)
    ultimately show ?thesis using opened_inv [OF inv sub refl]
      by (cases "s = Success") (simp_all add: settle_def)
  next
    case False
    then have same: "length (probes c (remove1 t fl)) = length (probes c fl)" using len by (simp only: if_False diff_zero)
    have "circuit_inv k c' (remove1 t fl)"
      if "cbGeneration c' = cbGeneration c" "cbState c' = cbState c" "cbProbing c' = cbProbing c" for c'
      using inv same that sub by (auto simp: circuit_inv_def probes_def)
    moreover have "settle s now t c = openLocked now (c\<lparr>cbFailures := i64 (cbFailures c + 1)\<rparr>) \<or>
       (\<exists>n. settle s now t c = c\<lparr>cbFailures := n\<rparr>)"
      using False by (cases s) (auto simp: settle_def circuitSuccess_def circuitFailure_def circuitCancel_def Let_def
        intro: exI [of _ "cbFailures c"])
    ultimately show ?thesis using opened_inv [OF inv sub, of "c\<lparr>cbFailures := i64 (cbFailures c + 1)\<rparr>"] by auto
  qed
qed

lemma circuit_admitted:
  assumes "circuit_inv k c fl" and "circuitAcquire now c = (Inr t, c')"
  shows "circuit_inv k c' (t # fl)"
  using assms by (auto simp: circuit_inv_def circuitAcquire_def probes_def split: if_splits)

lemma circuit_rejected: "circuitAcquire now c = (Inl e, c') \<Longrightarrow> c' = c"
  by (auto simp: circuitAcquire_def split: if_splits)

lemma circuit_idle: "circuit_inv k c [] \<Longrightarrow> cooledDown now c \<Longrightarrow> \<not> isl (fst (circuitAcquire now c))"
  by (auto simp: circuit_inv_def circuitAcquire_def cooledDown_def probes_def split: if_splits)

interpretation breaker: circuit_breaker circuitAcquire settle circuit_inv cooledDown
  by unfold_locales (fact circuit_admitted circuit_rejected circuit_settled circuit_idle)+

lemma new_circuit_inv: "k < 2 ^ 64 \<Longrightarrow> circuit_inv k (newExternalCircuit threshold d) []"
  by (simp add: circuit_inv_def newExternalCircuit_def probes_def)

lemma open_circuit_event:
  assumes "cbState c = ''open''" and "now - cbOpenedAt c < cbOpenDuration c"
  shows "circuitAcquire now c = (Inl errExternalCircuitOpen, c)" and "settle s now t c = c"
  using assms
  by (simp_all add: circuitAcquire_def settle_def circuitSuccess_def circuitFailure_def circuitCancel_def
    split: settlement.split)

section \<open>Properties\<close>

text \<open>
  An open breaker protects the service for the whole of its open interval: until it is over, every
  request for a token is rejected and no settlement, late or current, changes anything.
\<close>

theorem open_circuit_rejects:
  assumes "cbState c = ''open''" and "\<forall>(now, e) \<in> set es. now - cbOpenedAt c < cbOpenDuration c"
  shows "snd (circuitEvents es c) = c \<and> True \<notin> set (fst (circuitEvents es c))"
  using assms
proof (induction es)
  case (Cons x es)
  obtain now e where x: "x = (now, e)" by fastforce
  have "now - cbOpenedAt c < cbOpenDuration c" using Cons.prems x by auto
  note ev = open_circuit_event [OF Cons.prems(1) this]
  show ?case using Cons by (cases e) (auto simp: x ev split: prod.splits)
qed simp

theorem open_circuit_rejects_witness:
  "let c = openLocked 100 (newExternalCircuit 1 50);
       es = [(120, AskToken), (130, Settle Success \<lparr>tokHalfOpen = False, tokGeneration = 0\<rparr>), (149, AskToken)]
   in cbState c = ''open'' \<and> (\<forall>(now, e) \<in> set es. now - cbOpenedAt c < cbOpenDuration c) \<and>
      snd (circuitEvents es c) = c \<and> True \<notin> set (fst (circuitEvents es c))"
  unfolding Let_def
  using open_circuit_rejects [of "openLocked 100 (newExternalCircuit 1 50)"
    "[(120, AskToken), (130, Settle Success \<lparr>tokHalfOpen = False, tokGeneration = 0\<rparr>), (149, AskToken)]"]
  by (simp add: openLocked_def newExternalCircuit_def)

end
