(* ===== verification/ExternalRouter.thy ===== *)
theory ExternalRouter
  imports ExternalProtocol Circuit
begin

text \<open>
  The external routing strategy itself (\<^verbatim>\<open>src/pkg/plugins/gateway/algorithms/external/router.go\<close> and
  \<^verbatim>\<open>transport.go\<close>): one exchange with the service per request, guarded by the circuit breaker and the
  bulkhead, and what becomes of the request when the exchange does not yield a decision.

  A request holds no lock while it waits for the service, so \<^verbatim>\<open>Route\<close> is two steps: \<open>routeBegin\<close> up to
  the exchange, and \<open>routeEnd\<close> from its result on. \<open>router_run\<close> interleaves the steps of any number of
  requests; giving back the permit and settling the token at the end of an exchange are one step. What HTTP does, the encoding of the request and the fallback strategy are arguments.
  Metrics and tracing are not modelled.
\<close>

section \<open>The exchange\<close>

record externalExchangeError =
  xeOutcome :: string
  xeAttempted :: bool

text \<open>How the call ends: it could not be made, it failed (with the parent context done, or with its own
  deadline exceeded), or there is a response with a status, a body that may fail to be read, and the
  media type its header parses to.\<close>

datatype httpEnd =
    RequestNotBuilt
  | DoFailed bool bool
  | Answered int "string option" "(string \<times> (string \<rightharpoonup> string)) option"

definition isHex :: "char \<Rightarrow> bool" where
  "isHex c \<longleftrightarrow> inRange (CHR ''0'') (CHR ''9'') c \<or> inRange (CHR ''a'') (CHR ''f'') c"

definition validExternalTraceparent :: "string \<Rightarrow> bool" where
  "validExternalTraceparent v \<longleftrightarrow>
     length v = 55 \<and> list_all isHex (take 2 v) \<and> v ! 2 = CHR ''-'' \<and> list_all isHex (take 32 (drop 3 v)) \<and>
     v ! 35 = CHR ''-'' \<and> list_all isHex (take 16 (drop 36 v)) \<and> v ! 52 = CHR ''-'' \<and>
     list_all isHex (drop 53 v) \<and> take 2 v \<noteq> ''ff'' \<and>
     take 32 (drop 3 v) \<noteq> replicate 32 (CHR ''0'') \<and> take 16 (drop 36 v) \<noteq> replicate 16 (CHR ''0'')"

definition externalHeaders :: "externalRouterConfig \<Rightarrow> externalDecisionRequest \<Rightarrow> string \<Rightarrow> (string \<times> string) list" where
  "externalHeaders cfg request traceparent =
     [(''Content-Type'', ''application/vnd.aibrix.external-routing+json;version=v1alpha1''),
      (''Accept'', ''application/vnd.aibrix.external-routing+json;version=v1alpha1''),
      (''X-Request-Id'', reqRequestID request)] @
     (if validExternalTraceparent traceparent then [(''traceparent'', traceparent)] else []) @
     (if bearerToken cfg \<noteq> [] then [(''Authorization'', ''Bearer '' @ bearerToken cfg)] else [])"

definition executeExternalRequest ::
  "(externalDecisionRequest \<Rightarrow> string option) \<Rightarrow> ((string \<times> string) list \<Rightarrow> string \<Rightarrow> httpEnd) \<Rightarrow>
     externalRouterConfig \<Rightarrow> externalDecisionRequest \<Rightarrow> string \<Rightarrow> externalExchangeError + string" where
  "executeExternalRequest marshal http cfg request traceparent =
     (case marshal request of
        None \<Rightarrow> Inl \<lparr>xeOutcome = ''invalid_response'', xeAttempted = False\<rparr>
      | Some body \<Rightarrow>
          if int (length body) > maxRequestBytes cfg
          then Inl \<lparr>xeOutcome = ''request_too_large'', xeAttempted = False\<rparr>
          else
            (case http (externalHeaders cfg request traceparent) body of
               RequestNotBuilt \<Rightarrow> Inl \<lparr>xeOutcome = ''transport_error'', xeAttempted = False\<rparr>
             | DoFailed parentDone deadline \<Rightarrow>
                 Inl \<lparr>xeOutcome = (if parentDone then ''cancelled'' else if deadline then ''timeout''
                                   else ''transport_error''), xeAttempted = True\<rparr>
             | Answered status content mediaType \<Rightarrow>
                 (case content of
                    None \<Rightarrow> Inl \<lparr>xeOutcome = ''transport_error'', xeAttempted = True\<rparr>
                  | Some bytes \<Rightarrow>
                      (let bounded = take (nat (i64 (maxResponseBytes cfg + 1))) bytes
                       in if int (length bounded) > maxResponseBytes cfg
                          then Inl \<lparr>xeOutcome = ''invalid_response'', xeAttempted = True\<rparr>
                          else if status \<noteq> 200 then Inl \<lparr>xeOutcome = ''http_error'', xeAttempted = True\<rparr>
                          else (case mediaType of
                                  Some (m, params) \<Rightarrow>
                                    if m \<noteq> ''application/vnd.aibrix.external-routing+json'' \<or>
                                       params ''version'' \<noteq> Some ''v1alpha1''
                                    then Inl \<lparr>xeOutcome = ''invalid_response'', xeAttempted = True\<rparr>
                                    else Inr bounded
                                | None \<Rightarrow> Inl \<lparr>xeOutcome = ''invalid_response'', xeAttempted = True\<rparr>)))))"

section \<open>What becomes of a request\<close>

datatype route_error = ExternalPolicyDenied | ExternalRouterUnavailable | RequestCancelled

datatype routed = SelectedTarget externalPod int | RoutedByFallback string

text \<open>The address a target is reached at.\<close>

definition targetAddressWithPort :: "string \<Rightarrow> int \<Rightarrow> string" where
  "targetAddressWithPort ip port =
     ip @ '':'' @ (if port < 0 then ''-'' @ digits (nat (- port)) else digits (nat port))"

definition routedAddress :: "routed \<Rightarrow> string" where
  "routedAddress r =
     (case r of SelectedTarget pod port \<Rightarrow> targetAddressWithPort (epIP pod) port | RoutedByFallback a \<Rightarrow> a)"

text \<open>\<open>select alg\<close> is the router the manager selects for a context whose algorithm is \<open>alg\<close>, and the
  address it routes the request to. The second component of the result is the algorithm the context
  holds on return.\<close>

definition routeFallback ::
  "externalRouterConfig \<Rightarrow> (string \<Rightarrow> string option option) option \<Rightarrow> string \<Rightarrow> (route_error + routed) \<times> string" where
  "routeFallback cfg select algorithm =
     (case select of
        None \<Rightarrow> (Inl ExternalRouterUnavailable, algorithm)
      | Some sel \<Rightarrow>
          if fallback cfg = [] \<or> fallback cfg = externalAlgorithm then (Inl ExternalRouterUnavailable, algorithm)
          else (case sel (fallback cfg) of
                  Some (Some address) \<Rightarrow> (Inr (RoutedByFallback address), algorithm)
                | _ \<Rightarrow> (Inl ExternalRouterUnavailable, algorithm)))"

definition handleFailure ::
  "externalRouterConfig \<Rightarrow> (string \<Rightarrow> string option option) option \<Rightarrow> string \<Rightarrow> string \<Rightarrow> (route_error + routed) \<times> string" where
  "handleFailure cfg select algorithm outcome =
     (if outcome = ''cancelled'' then (Inl RequestCancelled, algorithm)
      else if failureMode cfg = ''FailOpen'' then routeFallback cfg select algorithm
      else (Inl ExternalRouterUnavailable, algorithm))"

record externalRouter =
  erCircuit :: externalCircuit
  erBulkhead :: externalBulkhead

definition newExternalRouter :: "externalRouterConfig \<Rightarrow> externalRouter" where
  "newExternalRouter cfg =
     \<lparr>erCircuit = newExternalCircuit (failureThreshold cfg) (openDuration cfg),
      erBulkhead = newExternalBulkhead (maxInflight cfg)\<rparr>"

text \<open>What a request waiting for the service holds.\<close>

type_synonym pending = "externalDecisionRequest \<times> (string \<times> externalCandidateSnapshot) list"

datatype routeStep = Done "(route_error + routed) \<times> string" | Waiting externalCircuitToken pending

definition routeBegin ::
  "externalRouterConfig \<Rightarrow> (string \<Rightarrow> string option option) option \<Rightarrow> string \<Rightarrow> int \<Rightarrow> (request_error + pending) \<Rightarrow>
     externalRouter \<Rightarrow> routeStep \<times> externalRouter" where
  "routeBegin cfg select algorithm now built r =
     (case built of
        Inl _ \<Rightarrow> (Done (handleFailure cfg select algorithm ''invalid_response''), r)
      | Inr p \<Rightarrow>
          (case circuitAcquire now (erCircuit r) of
             (Inl _, c) \<Rightarrow> (Done (handleFailure cfg select algorithm ''circuit_open''), r\<lparr>erCircuit := c\<rparr>)
           | (Inr token, c) \<Rightarrow>
               (case bulkheadAcquire (erBulkhead r) of
                  (False, b) \<Rightarrow>
                    (Done (handleFailure cfg select algorithm ''bulkhead_rejected''),
                     r\<lparr>erCircuit := circuitCancel now token c, erBulkhead := b\<rparr>)
                | (True, b) \<Rightarrow> (Waiting token p, r\<lparr>erCircuit := c, erBulkhead := b\<rparr>))))"

text \<open>How the exchange settles the token.\<close>

definition exchangeSettlement ::
  "externalRouterConfig \<Rightarrow> (string \<Rightarrow> json option) \<Rightarrow> pending \<Rightarrow> (externalExchangeError + string) \<Rightarrow> settlement" where
  "exchangeSettlement cfg parseJSON p exchange =
     (case exchange of
        Inl e \<Rightarrow> if xeOutcome e = ''cancelled'' then Cancelled else if xeAttempted e then Failure else Cancelled
      | Inr body \<Rightarrow>
          (case validateExternalDecision parseJSON body (reqRequestID (fst p)) (policyMode cfg) (snd p) of
             Inl _ \<Rightarrow> Failure
           | Inr _ \<Rightarrow> Success))"

definition exchangeAnswer ::
  "externalRouterConfig \<Rightarrow> (string \<Rightarrow> string option option) option \<Rightarrow> string \<Rightarrow> (string \<Rightarrow> json option) \<Rightarrow> pending \<Rightarrow>
     (externalExchangeError + string) \<Rightarrow> (route_error + routed) \<times> string" where
  "exchangeAnswer cfg select algorithm parseJSON p exchange =
     (case exchange of
        Inl e \<Rightarrow> handleFailure cfg select algorithm (xeOutcome e)
      | Inr body \<Rightarrow>
          (case validateExternalDecision parseJSON body (reqRequestID (fst p)) (policyMode cfg) (snd p) of
             Inl _ \<Rightarrow> handleFailure cfg select algorithm ''invalid_response''
           | Inr d \<Rightarrow>
               if vdDecision d = ''Selected''
               then (case vdTargetPod d of
                       Some pod \<Rightarrow> (Inr (SelectedTarget pod (i32 (vdTargetPort d))), algorithm)
                     | None \<Rightarrow> (Inl ExternalRouterUnavailable, algorithm))
               else if vdDecision d = ''NoDecision'' then routeFallback cfg select algorithm
               else if vdDecision d = ''Denied'' then (Inl ExternalPolicyDenied, algorithm)
               else handleFailure cfg select algorithm ''invalid_response''))"

definition routeEnd ::
  "externalRouterConfig \<Rightarrow> (string \<Rightarrow> string option option) option \<Rightarrow> string \<Rightarrow> (string \<Rightarrow> json option) \<Rightarrow> int \<Rightarrow>
     externalCircuitToken \<Rightarrow> pending \<Rightarrow> (externalExchangeError + string) \<Rightarrow> externalRouter \<Rightarrow>
     (((route_error + routed) \<times> string) \<times> externalRouter) option" where
  "routeEnd cfg select algorithm parseJSON now token p exchange r =
     (case bulkheadRelease (erBulkhead r) of
        None \<Rightarrow> None
      | Some b \<Rightarrow>
          Some (exchangeAnswer cfg select algorithm parseJSON p exchange,
                r\<lparr>erBulkhead := b,
                  erCircuit := settle (exchangeSettlement cfg parseJSON p exchange) now token (erCircuit r)\<rparr>))"

section \<open>Any number of requests\<close>

text \<open>\<open>router_run cfg n r ws\<close>: a state the router can reach with the requests \<open>ws\<close> waiting for the
  service, after at most \<open>n\<close> tokens were settled.\<close>

inductive router_run :: "externalRouterConfig \<Rightarrow> nat \<Rightarrow> externalRouter \<Rightarrow> (externalCircuitToken \<times> pending) list \<Rightarrow> bool"
  for cfg where
  start: "router_run cfg 0 (newExternalRouter cfg) []"
| answered: "router_run cfg n r ws \<Longrightarrow> routeBegin cfg select algorithm now built r = (Done a, r') \<Longrightarrow>
     router_run cfg (Suc n) r' ws"
| waits: "router_run cfg n r ws \<Longrightarrow> routeBegin cfg select algorithm now built r = (Waiting token p, r') \<Longrightarrow>
     router_run cfg n r' ((token, p) # ws)"
| ended: "router_run cfg n r ws \<Longrightarrow> (token, p) \<in> set ws \<Longrightarrow>
     routeEnd cfg select algorithm parseJSON now token p exchange r = Some (a, r') \<Longrightarrow>
     router_run cfg (Suc n) r' (remove1 (token, p) ws)"

definition router_inv :: "externalRouterConfig \<Rightarrow> nat \<Rightarrow> externalRouter \<Rightarrow> (externalCircuitToken \<times> pending) list \<Rightarrow> bool" where
  "router_inv cfg k r ws \<longleftrightarrow>
     circuit_inv k (erCircuit r) (map fst ws) \<and>
     bhLimit (erBulkhead r) = maxInflight cfg \<and> bhTaken (erBulkhead r) = int (length ws) \<and>
     int (length ws) \<le> maxInflight cfg"

section \<open>An example\<close>

definition exPending :: pending where
  "exPending = (\<lparr>reqAPIVersion = externalAPIVersion, reqKind = ''ReplicaSelectionRequest'', reqRequestID = ''r1'',
     reqModel = ''m'', reqPolicyMode = ''Authoritative'', reqPolicyContext = None,
     reqCandidates = [\<lparr>candID = ''ns/a'', candPorts = [8000, 8001], candAttributes = [], candMetrics = None\<rparr>]\<rparr>,
     [(''ns/a'', \<lparr>esPod = exTargetPod, esPorts = [8000, 8001]\<rparr>)])"

definition exStrictConfig :: externalRouterConfig where
  "exStrictConfig = exRouterConfig\<lparr>policyMode := ''Authoritative'', failureMode := ''FailClosed''\<rparr>"

section \<open>Lemmas\<close>

lemma bulkhead_acquired:
  "bulkheadAcquire b = (True, b') \<Longrightarrow> bhTaken b' = bhTaken b + 1 \<and> bhLimit b' = bhLimit b \<and> bhTaken b < bhLimit b"
  "bulkheadAcquire b = (False, b') \<Longrightarrow> b' = b"
  by (auto simp: bulkheadAcquire_def split: if_splits)

lemma bulkhead_released:
  "bulkheadRelease b = Some b' \<Longrightarrow> bhTaken b' = bhTaken b - 1 \<and> bhLimit b' = bhLimit b"
  by (auto simp: bulkheadRelease_def split: if_splits)

text \<open>The ways \<open>routeBegin\<close> ends.\<close>

lemma routeBegin_cases:
  obtains (invalid) e where "built = Inl e"
      "routeBegin cfg select algorithm now built r = (Done (handleFailure cfg select algorithm ''invalid_response''), r)"
  | (rejected) e where "circuitAcquire now (erCircuit r) = (Inl e, erCircuit r)"
      "routeBegin cfg select algorithm now built r = (Done (handleFailure cfg select algorithm ''circuit_open''), r)"
  | (full) token c where "circuitAcquire now (erCircuit r) = (Inr token, c)"
      "routeBegin cfg select algorithm now built r = (Done (handleFailure cfg select algorithm ''bulkhead_rejected''),
         r\<lparr>erCircuit := settle Cancelled now token c\<rparr>)" "\<not> bhTaken (erBulkhead r) < bhLimit (erBulkhead r)"
  | (waiting) token p c b where "built = Inr p" "circuitAcquire now (erCircuit r) = (Inr token, c)"
      "bulkheadAcquire (erBulkhead r) = (True, b)"
      "routeBegin cfg select algorithm now built r = (Waiting token p, r\<lparr>erCircuit := c, erBulkhead := b\<rparr>)"
proof (cases built)
  case (Inl e)
  then show ?thesis using invalid by (simp add: routeBegin_def)
next
  case (Inr p)
  obtain x c where x: "circuitAcquire now (erCircuit r) = (x, c)" by fastforce
  obtain ok b where b: "bulkheadAcquire (erBulkhead r) = (ok, b)" by fastforce
  show ?thesis
  proof (cases x)
    case (Inl e)
    then have "c = erCircuit r" using x circuit_rejected by blast
    then show ?thesis using rejected [of e] Inl \<open>built = Inr p\<close> x by (simp add: routeBegin_def)
  next
    case t: (Inr token)
    show ?thesis
    proof (cases ok)
      case True
      then show ?thesis using waiting [of p token c b] t \<open>built = Inr p\<close> x b by (simp add: routeBegin_def)
    next
      case False
      then have "b = erBulkhead r" "\<not> bhTaken (erBulkhead r) < bhLimit (erBulkhead r)"
        using b by (auto simp: bulkheadAcquire_def split: if_splits)
      then show ?thesis using full [of token c] t \<open>built = Inr p\<close> x b False by (simp add: routeBegin_def settle_def)
    qed
  qed
qed

lemma routeBegin_done:
  assumes "routeBegin cfg select algorithm now built r = (Done a, r')"
  shows "r' = r \<or> (\<exists>token c. circuitAcquire now (erCircuit r) = (Inr token, c) \<and>
           r' = r\<lparr>erCircuit := settle Cancelled now token c\<rparr>)"
    and "\<exists>outcome. a = handleFailure cfg select algorithm outcome"
  using assms by (cases rule: routeBegin_cases [of built cfg select algorithm now r]; auto)+

lemma routeBegin_waiting:
  assumes "routeBegin cfg select algorithm now built r = (Waiting token p, r')"
  obtains c b where "circuitAcquire now (erCircuit r) = (Inr token, c)" "bulkheadAcquire (erBulkhead r) = (True, b)"
    "r' = r\<lparr>erCircuit := c, erBulkhead := b\<rparr>" "built = Inr p"
  using assms by (cases rule: routeBegin_cases [of built cfg select algorithm now r]) auto

lemma circuit_inv_mono: "circuit_inv (Suc k) c fl \<Longrightarrow> circuit_inv k c fl"
  by (simp add: circuit_inv_def)

lemma router_reachable:
  assumes "router_run cfg n r ws" and "n < 2 ^ 64" and "0 \<le> maxInflight cfg"
  shows "router_inv cfg (2 ^ 64 - 1 - n) r ws"
  using assms
proof (induction rule: router_run.induct)
  case start
  then show ?case
    by (simp add: router_inv_def newExternalRouter_def newExternalBulkhead_def new_circuit_inv)
next
  case (answered n r ws select algorithm now built a r')
  define k where "k = 2 ^ 64 - 1 - Suc n"
  have k: "2 ^ 64 - 1 - n = Suc k" using answered.prems(1) by (simp add: k_def)
  have "n < 2 ^ 64" using answered.prems(1) by simp
  from answered.IH [OF this answered.prems(2)] have inv: "router_inv cfg (Suc k) r ws" unfolding k .
  then have c: "circuit_inv (Suc k) (erCircuit r) (map fst ws)" by (simp add: router_inv_def)
  from routeBegin_done(1) [OF answered.hyps(2)] have "router_inv cfg k r' ws"
  proof
    assume "r' = r"
    then show ?thesis using inv circuit_inv_mono by (simp add: router_inv_def)
  next
    assume "\<exists>token c. circuitAcquire now (erCircuit r) = (Inr token, c) \<and> r' = r\<lparr>erCircuit := settle Cancelled now token c\<rparr>"
    then obtain token c' where t: "circuitAcquire now (erCircuit r) = (Inr token, c')"
      and r': "r' = r\<lparr>erCircuit := settle Cancelled now token c'\<rparr>" by blast
    have "circuit_inv k (settle Cancelled now token c') (map fst ws)"
      using breaker.settled [OF breaker.admitted [OF c t], of token] by simp
    then show ?thesis using inv r' by (simp add: router_inv_def)
  qed
  then show ?case by (simp add: k_def)
next
  case (waits n r ws select algorithm now built token p r')
  then obtain c b where h: "circuitAcquire now (erCircuit r) = (Inr token, c)" "bulkheadAcquire (erBulkhead r) = (True, b)"
    "r' = r\<lparr>erCircuit := c, erBulkhead := b\<rparr>" using routeBegin_waiting by blast
  have inv: "router_inv cfg (2 ^ 64 - 1 - n) r ws" by (rule waits.IH [OF waits.prems])
  then show ?case using h bulkhead_acquired(1) [OF h(2)] breaker.admitted [OF _ h(1)] by (simp add: router_inv_def)
next
  case (ended n r ws token p select algorithm parseJSON now exchange a r')
  define k where "k = 2 ^ 64 - 1 - Suc n"
  have k: "2 ^ 64 - 1 - n = Suc k" using ended.prems(1) by (simp add: k_def)
  have "n < 2 ^ 64" using ended.prems(1) by simp
  from ended.IH [OF this ended.prems(2)] have inv: "router_inv cfg (Suc k) r ws" unfolding k .
  obtain b where b: "bulkheadRelease (erBulkhead r) = Some b"
    and r': "r' = r\<lparr>erBulkhead := b, erCircuit := settle (exchangeSettlement cfg parseJSON p exchange) now token (erCircuit r)\<rparr>"
    using ended.hyps(3) by (auto simp: routeEnd_def split: option.splits)
  have tok: "token \<in> set (map fst ws)" using ended.hyps(2) by force
  have perm: "mset (map fst (remove1 (token, p) ws)) = mset (remove1 token (map fst ws))"
    using ended.hyps(2) by (simp add: image_mset_Diff)
  have "circuit_inv k (erCircuit r') (remove1 token (map fst ws))"
    using breaker.settled [OF _ tok] inv r' by (simp add: router_inv_def)
  then have "circuit_inv k (erCircuit r') (map fst (remove1 (token, p) ws))"
    using perm circuit_inv_perm by metis
  moreover have "int (length (remove1 (token, p) ws)) = int (length ws) - 1"
    using ended.hyps(2) length_pos_if_in_set [OF ended.hyps(2)] by (simp add: length_remove1 of_nat_diff Suc_leI)
  ultimately show ?case
    using inv r' bulkhead_released [OF b] by (simp add: router_inv_def k_def)
qed

lemma fail_closed:
  assumes "failureMode cfg = ''FailClosed''"
  shows "\<exists>e. handleFailure cfg select algorithm outcome = (Inl e, algorithm)"
  using assms by (simp add: handleFailure_def)

lemma authoritative_answer:
  assumes "policyMode cfg = ''Authoritative''" and "failureMode cfg = ''FailClosed''"
    and "exchangeAnswer cfg select algorithm parseJSON p exchange = (Inr x, algorithm')"
  shows "\<exists>body d pod. exchange = Inr body \<and>
     validateExternalDecision parseJSON body (reqRequestID (fst p)) (policyMode cfg) (snd p) = Inr d \<and>
     vdDecision d = ''Selected'' \<and> vdTargetPod d = Some pod \<and> x = SelectedTarget pod (i32 (vdTargetPort d))"
proof -
  have hf: "\<And>outcome. handleFailure cfg select algorithm outcome \<noteq> (Inr x, algorithm')"
    using fail_closed [OF assms(2)] by (metis prod.inject sum.distinct(1))
  obtain body where b: "exchange = Inr body" using assms(3) hf by (cases exchange) (auto simp: exchangeAnswer_def)
  obtain d where d: "validateExternalDecision parseJSON body (reqRequestID (fst p)) (policyMode cfg) (snd p) = Inr d"
    using assms(3) hf b
    by (cases "validateExternalDecision parseJSON body (reqRequestID (fst p)) (policyMode cfg) (snd p)")
      (auto simp: exchangeAnswer_def)
  have "vdDecision d \<noteq> ''NoDecision''" using validated_decision [OF d] assms(1) by auto
  then have "vdDecision d = ''Selected'' \<and> (\<exists>pod. vdTargetPod d = Some pod \<and> x = SelectedTarget pod (i32 (vdTargetPort d)))"
    using assms(3) hf b d by (auto simp: exchangeAnswer_def split: if_split_asm option.split_asm)
  then show ?thesis using b d by blast
qed

section \<open>Properties\<close>

text \<open>
  C9. An authoritative policy is never bypassed: under any configuration that loads, a request is routed
  only to the pod and port a validated answer of the service selected. No fallback is consulted, neither
  when the service denies nor when it fails, is skipped by the open breaker or a full bulkhead, or
  answers garbage.
\<close>

theorem authoritative_policy_is_enforced:
  assumes "config_ok cfg" and "policyMode cfg = ''Authoritative''"
  shows "(routeBegin cfg select algorithm now built r = (Done (Inr x, algorithm'), r') \<longrightarrow> False) \<and>
         (routeEnd cfg select algorithm parseJSON now token p exchange r = Some ((Inr x, algorithm'), r') \<longrightarrow>
            (\<exists>body d pod. exchange = Inr body \<and>
               validateExternalDecision parseJSON body (reqRequestID (fst p)) (policyMode cfg) (snd p) = Inr d \<and>
               vdDecision d = ''Selected'' \<and> vdTargetPod d = Some pod \<and> x = SelectedTarget pod (i32 (vdTargetPort d))))"
proof -
  have fc: "failureMode cfg = ''FailClosed''" using assms by (simp add: config_ok_def)
  have "routeBegin cfg select algorithm now built r \<noteq> (Done (Inr x, algorithm'), r')"
    using routeBegin_done(2) fail_closed [OF fc, of select algorithm] by (metis prod.inject sum.distinct(1))
  then show ?thesis
    using authoritative_answer [OF assms(2) fc, of select algorithm parseJSON p exchange x algorithm']
    by (auto simp: routeEnd_def split: option.splits)
qed

theorem authoritative_policy_is_enforced_witness:
  "config_ok exStrictConfig \<and> policyMode exStrictConfig = ''Authoritative'' \<and>
   (\<exists>r' body d. routeEnd exStrictConfig None ''external'' (\<lambda>_. Some exAnswer) 0
        \<lparr>tokHalfOpen = False, tokGeneration = 0\<rparr> exPending (Inr ''{}'')
        \<lparr>erCircuit = newExternalCircuit 1 1, erBulkhead = \<lparr>bhLimit = 1, bhTaken = 1\<rparr>\<rparr>
      = Some ((Inr (SelectedTarget exTargetPod 8001), ''external''), r') \<and>
      validateExternalDecision (\<lambda>_. Some exAnswer) body (reqRequestID (fst exPending)) ''Authoritative'' (snd exPending) = Inr d)"
proof -
  let ?tok = "\<lparr>tokHalfOpen = False, tokGeneration = 0\<rparr> :: externalCircuitToken"
  let ?r = "\<lparr>erCircuit = newExternalCircuit 1 1, erBulkhead = \<lparr>bhLimit = 1, bhTaken = 1\<rparr>\<rparr>"
  have cfg: "config_ok exStrictConfig" "policyMode exStrictConfig = ''Authoritative''"
    by (simp_all add: config_ok_def exStrictConfig_def exRouterConfig_def externalAlgorithm_def allowlist_ok_def
      externalAttributeKeyRE_def isLetter_def inRange_def less_eq_char_def)
  have "exchangeAnswer exStrictConfig None ''external'' (\<lambda>_. Some exAnswer) exPending (Inr ''{}'')
    = (Inr (SelectedTarget exTargetPod 8001), ''external'')" by code_simp
  then obtain r' where e: "routeEnd exStrictConfig None ''external'' (\<lambda>_. Some exAnswer) 0 ?tok exPending (Inr ''{}'') ?r
      = Some ((Inr (SelectedTarget exTargetPod 8001), ''external''), r')"
    by (simp add: routeEnd_def bulkheadRelease_def)
  show ?thesis using authoritative_policy_is_enforced [OF cfg] cfg e by metis
qed

text \<open>
  C28. The router never has more exchanges open than its limit, and the end of an exchange never blocks:
  in every reachable state there are at most \<open>maxInflight\<close> requests waiting for the service, and each of
  them finds its permit when it is done.
\<close>

theorem external_exchanges_are_bounded:
  assumes "router_run cfg n r ws" and "n < 2 ^ 64" and "config_ok cfg"
  shows "int (length ws) \<le> maxInflight cfg \<and>
         ((token, p) \<in> set ws \<longrightarrow> routeEnd cfg select algorithm parseJSON now token p exchange r \<noteq> None)"
proof -
  have inv: "router_inv cfg (2 ^ 64 - 1 - n) r ws"
    using assms by (intro router_reachable) (simp_all add: config_ok_def)
  then have "(token, p) \<in> set ws \<Longrightarrow> 0 < bhTaken (erBulkhead r)"
    using length_pos_if_in_set [of "(token, p)" ws] by (simp add: router_inv_def)
  then show ?thesis using inv by (auto simp: router_inv_def routeEnd_def bulkheadRelease_def)
qed

theorem external_exchanges_are_bounded_witness:
  "\<exists>r token. router_run exRouterConfig 0 r [(token, exPending)] \<and> config_ok exRouterConfig \<and>
     int (length [(token, exPending)]) \<le> maxInflight exRouterConfig \<and>
     routeEnd exRouterConfig None [] (\<lambda>_. None) 5 token exPending (Inr []) r \<noteq> None"
proof -
  have cfg: "config_ok exRouterConfig"
    by (simp add: config_ok_def exRouterConfig_def externalAlgorithm_def allowlist_ok_def
      externalAttributeKeyRE_def isLetter_def inRange_def less_eq_char_def)
  obtain token r where "routeBegin exRouterConfig None [] 0 (Inr exPending) (newExternalRouter exRouterConfig)
      = (Waiting token exPending, r)"
    by (simp add: routeBegin_def circuitAcquire_def newExternalRouter_def newExternalCircuit_def bulkheadAcquire_def
      newExternalBulkhead_def exRouterConfig_def)
  then have run: "router_run exRouterConfig 0 r [(token, exPending)]" by (rule router_run.waits [OF router_run.start])
  have "(0::nat) < 2 ^ 64" by simp
  note b = external_exchanges_are_bounded [OF run this cfg]
  then have "int (length [(token, exPending)]) \<le> maxInflight exRouterConfig"
    "routeEnd exRouterConfig None [] (\<lambda>_. None) 5 token exPending (Inr []) r \<noteq> None" by simp_all
  then show ?thesis using run cfg by blast
qed

text \<open>
  C22. The router always comes back: in every reachable state in which no exchange is open and the last
  open interval of the breaker is over, the next request that can be built reaches the service. No
  sequence of rejections, cancellations, failures and late answers leaves the breaker half open with no
  probe under way or leaks a permit.
\<close>

theorem external_router_recovers:
  assumes "router_run cfg n r []" and "n < 2 ^ 64" and "config_ok cfg" and "cooledDown now (erCircuit r)"
  shows "\<exists>token r'. routeBegin cfg select algorithm now (Inr p) r = (Waiting token p, r')"
proof -
  have inv: "router_inv cfg (2 ^ 64 - 1 - n) r []"
    using assms by (intro router_reachable) (simp_all add: config_ok_def)
  then have "\<not> isl (fst (circuitAcquire now (erCircuit r)))"
    using breaker.idle [OF _ assms(4)] by (auto simp: router_inv_def)
  moreover have "bhTaken (erBulkhead r) < bhLimit (erBulkhead r)" using inv assms(3) by (simp add: router_inv_def config_ok_def)
  ultimately show ?thesis by (cases rule: routeBegin_cases [of "Inr p" cfg select algorithm now r]) auto
qed

theorem external_router_recovers_witness:
  "\<exists>r token r'. router_run exRouterConfig 2 r [] \<and> cbState (erCircuit r) = ''open'' \<and> cooledDown 9 (erCircuit r) \<and>
     routeBegin exRouterConfig None [] 9 (Inr exPending) r = (Waiting token exPending, r')"
proof -
  let ?e = "Inl \<lparr>xeOutcome = ''timeout'', xeAttempted = True\<rparr> :: externalExchangeError + string"
  let ?t = "\<lparr>tokHalfOpen = False, tokGeneration = 0\<rparr> :: externalCircuitToken"
  let ?r0 = "newExternalRouter exRouterConfig"
  let ?r1 = "snd (routeBegin exRouterConfig None [] 0 (Inr exPending) ?r0)"
  let ?r2 = "snd (the (routeEnd exRouterConfig None [] (\<lambda>_. None) 5 ?t exPending ?e ?r1))"
  let ?r3 = "snd (routeBegin exRouterConfig None [] 5 (Inr exPending) ?r2)"
  note defs = routeBegin_def routeEnd_def circuitAcquire_def newExternalRouter_def newExternalCircuit_def
    bulkheadAcquire_def newExternalBulkhead_def exRouterConfig_def bulkheadRelease_def exchangeSettlement_def
    settle_def circuitFailure_def openLocked_def exchangeAnswer_def handleFailure_def routeFallback_def
  have "routeBegin exRouterConfig None [] 0 (Inr exPending) ?r0 = (Waiting ?t exPending, ?r1)" by (simp add: defs)
  from router_run.waits [OF router_run.start this] have s1: "router_run exRouterConfig 0 ?r1 [(?t, exPending)]" .
  have e2: "routeEnd exRouterConfig None [] (\<lambda>_. None) 5 ?t exPending ?e ?r1
      = Some ((Inl ExternalRouterUnavailable, []), ?r2)" by (simp add: defs)
  from router_run.ended [OF s1 _ this] have s2: "router_run exRouterConfig 1 ?r2 []" by simp
  have "routeBegin exRouterConfig None [] 5 (Inr exPending) ?r2 = (Done (Inl ExternalRouterUnavailable, []), ?r3)"
    by (simp add: defs)
  from router_run.answered [OF s2 this] have s3: "router_run exRouterConfig 2 ?r3 []" by (simp add: numeral_2_eq_2)
  have st: "cbState (erCircuit ?r3) = ''open''" "cooledDown 9 (erCircuit ?r3)" by (simp_all add: defs cooledDown_def)
  have cfg: "config_ok exRouterConfig"
    by (simp add: config_ok_def exRouterConfig_def externalAlgorithm_def allowlist_ok_def
      externalAttributeKeyRE_def isLetter_def inRange_def less_eq_char_def)
  have "(2::nat) < 2 ^ 64" by simp
  from external_router_recovers [OF s3 this cfg st(2), of None "[]" exPending] show ?thesis using s3 st by blast
qed

end
