(* ===== verification/Spec2Isabelle.thy ===== *)
theory Spec2Isabelle
  imports Preemption PdLeg RedisSync RuntimeSilence Backoff SimpleQueue ExternalRouter
begin

text \<open>
  A verification of AIBrix, a Kubernetes control plane and gateway for serving language models
  (Go sources under \<^verbatim>\<open>src/\<close>). Two parts of it are modelled: the controller of model claims
  (\<^verbatim>\<open>src/pkg/controller/modelclaim\<close>), which packs several engines onto the cards of a warm pool and
  divides the KV memory of a card among them, and the decision-making parts of the gateway
  (\<^verbatim>\<open>src/pkg/plugins/gateway\<close>, \<^verbatim>\<open>src/pkg/types\<close> and \<^verbatim>\<open>src/pkg/utils\<close>), which send each request to an
  engine.

  \<^bold>\<open>How the parts interact.\<close> A pass of the controller reads the runtime of every pod of a pool once
  (\<^verbatim>\<open>Snapshots\<close>, \<^verbatim>\<open>RuntimeSilence\<close>), builds an account of every card from the readings and from the
  claims (\<^verbatim>\<open>Claims\<close>, \<^verbatim>\<open>KvLedger\<close>), places claims that wait on cards whose account admits them
  (\<^verbatim>\<open>Placement\<close>, \<^verbatim>\<open>Backoff\<close>), plans sleeps of idle engines where no card has room (\<^verbatim>\<open>MakeRoom\<close>, and by priority
  \<^verbatim>\<open>Preemption\<close>), computes a
  division of a card (\<^verbatim>\<open>KvPlan\<close>) and carries it out against the runtime and the API server
  (\<^verbatim>\<open>ArrangeCard\<close>), repeats that in rounds (\<^verbatim>\<open>CardDivision\<close>), and carries out the policy a pool is
  annotated with (\<^verbatim>\<open>PoolPolicy\<close>, \<^verbatim>\<open>IdleSleep\<close>). In the gateway, a request waits in a queue
  (\<^verbatim>\<open>SimpleQueue\<close>), is matched against the prompts routed before (\<^verbatim>\<open>PrefixHash\<close> over \<^verbatim>\<open>LRUStore\<close>,
  exchanged between replicas by \<^verbatim>\<open>PrefixSync\<close> and \<^verbatim>\<open>RedisSync\<close>), may be routed by an external service (\<^verbatim>\<open>ExternalConfig\<close>,
  \<^verbatim>\<open>ExternalProtocol\<close>, \<^verbatim>\<open>Circuit\<close>, \<^verbatim>\<open>ExternalRouter\<close>), and is followed through its prefill and decode
  legs (\<^verbatim>\<open>PdLeg\<close>).

  \<^bold>\<open>Conventions.\<close> A Go struct is a \<open>record\<close>, an enumeration or error class a \<open>datatype\<close>, a method a
  function that takes the state and returns it. A Go \<^verbatim>\<open>int\<close>, \<^verbatim>\<open>int64\<close> or \<^verbatim>\<open>int32\<close> is an \<^typ>\<open>int\<close> whose
  operations are wrapped by \<^const>\<open>i64\<close> or \<^const>\<open>i32\<close> where overflow can matter, and a hash or sequence
  number a \<open>64 word\<close>. Bytes and strings are \<^typ>\<open>string\<close>. A map that is only looked up is a partial
  function; a map that is ranged over is an association list, and its order stands for the order Go
  happens to choose. An error is a value: an option, a sum, or a datatype with one constructor per
  message. A method that holds its lock throughout is one step; where goroutines interleave inside a
  method its steps are modelled one by one (\<^verbatim>\<open>PdLeg\<close>, \<^verbatim>\<open>ExternalRouter\<close>). Log lines, metrics and trace
  spans are left out everywhere. Names follow the code; a definition that models part of a function is
  mapped to that part.

  \<^bold>\<open>What is outside.\<close> The API server, the runtimes, Kubernetes quantities and selectors, JSON, URL and
  duration parsing, the hash function and the clock are not under \<^verbatim>\<open>src/\<close>. They are arguments of the
  definitions (for instance \<open>cardOutside\<close>, \<open>sleepOutside\<close>, \<open>jsonPolicy\<close>, \<open>digest\<close>), whose answers may
  depend on everything that happened before, and a call may fail after it took effect. What a theorem
  needs of them is a hypothesis of the theorem.

  \<^bold>\<open>The theories.\<close>

  \<^item> \<^verbatim>\<open>Aibrix_Prelude\<close>: fixed-width arithmetic, decimal numerals, lists, sums and sorting.

  \<^item> \<^verbatim>\<open>Snapshots\<close> (\<^verbatim>\<open>snapshot.go\<close>, \<^verbatim>\<open>runtime_client.go\<close>): the wire form of a runtime's state and the
    readings of one pass. A runtime is asked at most once and once more per change.

  \<^item> \<^verbatim>\<open>RuntimeSilence\<close> (\<^verbatim>\<open>runtime_client.go\<close>): how long a runtime that timed out is left alone, with the
    bound on it.

  \<^item> \<^verbatim>\<open>Claims\<close> (\<^verbatim>\<open>modelclaim_types.go\<close>, \<^verbatim>\<open>utils/modelclaim.go\<close>, \<^verbatim>\<open>parallelism.go\<close>): what a claim declares,
    and the checks of it.

  \<^item> \<^verbatim>\<open>KvLedger\<close> (\<^verbatim>\<open>ledger.go\<close>): the account of a card. Every operation keeps the contract of an account,
    every instance on a card is charged, and an account that can be judged has seen every engine.

  \<^item> \<^verbatim>\<open>KvPlan\<close> (\<^verbatim>\<open>kvplan.go\<close>): the division of a card. It ends, agrees with a reference definition, never
    promises more than the card has, and is fair.

  \<^item> \<^verbatim>\<open>Placement\<close> (\<^verbatim>\<open>placement.go\<close>, \<^verbatim>\<open>priority.go\<close>): the gate, the ranking of pods, and whose turn it is. A
    claim the gate admits can be given its share.

  \<^item> \<^verbatim>\<open>ArrangeCard\<close> (\<^verbatim>\<open>modelclaim_controller.go\<close>): a division carried out call by call. At every moment, and
    whatever fails, the records fit the card and no engine is held to more than its record.

  \<^item> \<^verbatim>\<open>MakeRoom\<close> (\<^verbatim>\<open>makeroom.go\<close>, \<^verbatim>\<open>wake.go\<close>): cards held for claims and plans that put idle engines to
    sleep. A hold excludes other claims, and the sleeps of a plan make the gate admit the claim.

  \<^item> \<^verbatim>\<open>Preemption\<close> (\<^verbatim>\<open>preemption.go\<close>): engines of lower priority put to sleep for a claim that may preempt.
    Only idle engines of strictly lower priority are taken, the cheapest plan wins, and a claim that gets
    no room keeps no card held.

  \<^item> \<^verbatim>\<open>CardDivision\<close> (\<^verbatim>\<open>division.go\<close>): the rounds of a card, and the pass over the cards of a pool.

  \<^item> \<^verbatim>\<open>PoolPolicy\<close> and \<^verbatim>\<open>IdleSleep\<close> (\<^verbatim>\<open>pool_policy.go\<close>, \<^verbatim>\<open>pool_policy_controller.go\<close>): the policy of a pool,
    the limits it computes and writes, and idle engines put to sleep. An engine is asked to sleep only
    after it was taken out of the routes and then read without work.

  \<^item> \<^verbatim>\<open>Backoff\<close> (\<^verbatim>\<open>backoff.go\<close>): how long a claim that no card can hold waits before it is tried again.

  \<^item> \<^verbatim>\<open>SimpleQueue\<close> (\<^verbatim>\<open>simple_queue.go\<close>): the queue of the gateway, an instance of the contract
    \<open>fifo_queue\<close>.

  \<^item> \<^verbatim>\<open>LRUStore\<close> (\<^verbatim>\<open>lru_store.go\<close>): the bounded store over an explicit heap, an instance of the contract
    \<open>recency_store\<close>, from which its clients are verified.

  \<^item> \<^verbatim>\<open>PrefixHash\<close> and \<^verbatim>\<open>PrefixSync\<close> (\<^verbatim>\<open>hash.go\<close>, \<^verbatim>\<open>sync.go\<close>): the index of prompt prefixes and its exchange
    between replicas. Matching agrees with a reference definition, a routed prompt is found again, no
    change is lost between a delta and its acknowledgement, and replicas merge to the newest times.

  \<^item> \<^verbatim>\<open>RedisSync\<close> (\<^verbatim>\<open>statesync/redissync.go\<close>, \<^verbatim>\<open>syncable.go\<close>): the manager that pulls and pushes such a state
    through Redis, which is an argument. The interface of a state with deltas is the contract
    \<open>delta_syncable\<close>, of which the prefix index is an instance: no push loses a block, whatever fails, what
    one replica pushed another knows after a pull, and the loop waits within bounds.

  \<^item> \<^verbatim>\<open>Circuit\<close>, \<^verbatim>\<open>ExternalConfig\<close>, \<^verbatim>\<open>ExternalProtocol\<close> and \<^verbatim>\<open>ExternalRouter\<close> (\<^verbatim>\<open>algorithms/external\<close>): the
    client of an external routing service. Its breaker is an instance of the contract \<open>circuit_breaker\<close>;
    an answer selects only what was offered, an authoritative policy is enforced, and the router
    recovers.

  \<^item> \<^verbatim>\<open>PdLeg\<close> (\<^verbatim>\<open>pd_leg_state.go\<close>, \<^verbatim>\<open>pd/abort.go\<close>, \<^verbatim>\<open>gateway_pd_fail_fast.go\<close>): the goroutines that share
    the state of a disaggregated request, interleaved step by step. No abort goes out once the decode leg
    answered, no channel is closed twice, and every goroutine ends.

  \<^bold>\<open>Bounds.\<close> No definition uses fuel. The loop that hands out the last bytes of a card and the packing
  loops of the queue are \<open>partial_function\<close>s, and that they return is proved under the figures the
  callers pass. Theorems that need figures to stay below the width of an integer say so in their
  hypotheses; where the code does not check them, the finding is recorded with the lemma that shows the
  overflow.

  \<^bold>\<open>Not modelled.\<close> Of the claim controller: the API listings that feed a pass, activation and deletion of
  instances, wake requests, and the wording of status messages. Of the gateway: the handling of Envoy
  messages and HTTP bodies, the scored routing algorithms and the cache of metrics, whose figures are
  floating-point averages of live measurements, and the rate limiter, whose operations are single Redis
  commands. The controllers of the other resources (autoscaler, model adapters, Ray clusters, role sets,
  StormServices, KV caches) reconcile objects against the API server and hold little state of their own.
  The console, the generated clients, the benchmarks and the Python runtime are separate programs or
  generated code.
\<close>

end
